(* ===== verification/Prelude.thy ===== *)
theory Prelude
  imports Complex_Main "HOL-Library.Char_ord" "HOL-Library.List_Lexorder" "HOL-Library.Multiset"
begin

text \<open>
  Shared vocabulary of the development. Results of fallible code are values of the sum
  type \<open>'a res\<close>: \<open>Inl msg\<close> is a thrown \<open>Error(msg)\<close> (JavaScript) or an \<open>Err(msg)\<close>
  (Rust), \<open>Inr x\<close> a normal return. The theory also holds the hexadecimal and decimal
  string predicates that both the browser client and the relay use, insertion-ordered maps
  (JavaScript \<open>Map\<close> and \<open>Set\<close>) as association lists, and the list facts that several
  components share.
\<close>

named_theorems res_simps \<open>rewrite rules for the result combinators\<close>
named_theorems map_simps \<open>rewrite rules for insertion-ordered maps\<close>

section \<open>Results\<close>

type_synonym 'a res = "string + 'a"

definition guard :: "bool \<Rightarrow> string \<Rightarrow> 'a res \<Rightarrow> 'a res" where
  "guard ok msg k = (if ok then k else Inl msg)"

definition bind_res :: "'a res \<Rightarrow> ('a \<Rightarrow> 'b res) \<Rightarrow> 'b res" where
  "bind_res r k = (case r of Inl e \<Rightarrow> Inl e | Inr x \<Rightarrow> k x)"

definition is_ok :: "'a res \<Rightarrow> bool" where
  "is_ok r = (case r of Inl _ \<Rightarrow> False | Inr _ \<Rightarrow> True)"

lemma guard_Inr [res_simps]: "guard ok msg k = Inr x \<longleftrightarrow> ok \<and> k = Inr x"
  by (simp add: guard_def)

lemma guard_True [simp]: "guard True msg k = k"
  by (simp add: guard_def)

lemma guard_False [simp]: "guard False msg k = Inl msg"
  by (simp add: guard_def)

lemma bind_res_Inr [res_simps]: "bind_res r k = Inr y \<longleftrightarrow> (\<exists>x. r = Inr x \<and> k x = Inr y)"
  by (cases r) (simp_all add: bind_res_def)

lemma bind_res_simps [simp]:
  "bind_res (Inl e) k = Inl e"
  "bind_res (Inr x) k = k x"
  by (simp_all add: bind_res_def)

lemma is_ok_simps [simp]: "is_ok (Inr x)" "\<not> is_ok (Inl e)"
  by (simp_all add: is_ok_def)

lemma is_ok_iff: "is_ok r \<longleftrightarrow> (\<exists>x. r = Inr x)"
  by (cases r) simp_all

section \<open>Hexadecimal and decimal strings\<close>

definition is_lower_hex :: "char \<Rightarrow> bool" where
  "is_lower_hex c \<longleftrightarrow> c \<in> set ''0123456789abcdef''"

definition is_digit :: "char \<Rightarrow> bool" where
  "is_digit c \<longleftrightarrow> c \<in> set ''0123456789''"

definition hex_string :: "nat \<Rightarrow> string \<Rightarrow> bool" where
  "hex_string n s \<longleftrightarrow> length s = n \<and> list_all is_lower_hex s"

definition digit_value :: "char \<Rightarrow> nat" where
  "digit_value c = of_char c - 48"

definition decimal_value :: "string \<Rightarrow> nat" where
  "decimal_value s = foldl (\<lambda>n c. 10 * n + digit_value c) 0 s"

section \<open>Insertion-ordered maps\<close>

text \<open>
  A JavaScript \<open>Map\<close> keeps its entries in insertion order; \<open>set\<close> on a present key
  replaces the value in place, on an absent key it appends. Keys are compared by a relation
  \<open>eq\<close>, because the program stores values that \<open>Map\<close> compares by identity.
\<close>

fun map_get :: "('k \<Rightarrow> 'k \<Rightarrow> bool) \<Rightarrow> ('k \<times> 'v) list \<Rightarrow> 'k \<Rightarrow> 'v option" where
  "map_get eq [] k = None"
| "map_get eq ((k', v) # kvs) k = (if eq k' k then Some v else map_get eq kvs k)"

fun map_set :: "('k \<Rightarrow> 'k \<Rightarrow> bool) \<Rightarrow> ('k \<times> 'v) list \<Rightarrow> 'k \<Rightarrow> 'v \<Rightarrow> ('k \<times> 'v) list" where
  "map_set eq [] k v = [(k, v)]"
| "map_set eq ((k', v') # kvs) k v =
     (if eq k' k then (k', v) # kvs else (k', v') # map_set eq kvs k v)"

definition set_has :: "('k \<Rightarrow> 'k \<Rightarrow> bool) \<Rightarrow> 'k list \<Rightarrow> 'k \<Rightarrow> bool" where
  "set_has eq ks k \<longleftrightarrow> list_ex (\<lambda>k'. eq k' k) ks"

definition set_add :: "('k \<Rightarrow> 'k \<Rightarrow> bool) \<Rightarrow> 'k list \<Rightarrow> 'k \<Rightarrow> 'k list" where
  "set_add eq ks k = (if set_has eq ks k then ks else ks @ [k])"

lemma map_get_set [map_simps]:
  "map_get (=) (map_set (=) kvs k v) k' = (if k = k' then Some v else map_get (=) kvs k')"
  by (induction kvs) auto

lemma map_get_Some_in: "map_get eq kvs k = Some v \<Longrightarrow> \<exists>k'. eq k' k \<and> (k', v) \<in> set kvs"
  by (induction kvs) (auto split: if_splits)

lemma map_set_keys:
  "map fst (map_set eq kvs k v) = set_add eq (map fst kvs) k"
  by (induction kvs) (auto simp: set_add_def set_has_def)

lemma length_map_set:
  "length (map_set eq kvs k v) = (if set_has eq (map fst kvs) k then length kvs else Suc (length kvs))"
  by (induction kvs) (auto simp: set_has_def)

lemma set_set_add: "set ks \<subseteq> set (set_add eq ks k)" "set (set_add eq ks k) \<subseteq> insert k (set ks)"
  by (auto simp: set_add_def)

lemma length_set_add: "length ks \<le> length (set_add eq ks k)" "length (set_add eq ks k) \<le> Suc (length ks)"
  by (auto simp: set_add_def)

section \<open>Lists\<close>

lemma upt_split: "i \<le> j \<Longrightarrow> j \<le> k \<Longrightarrow> [i..<j] @ [j..<k] = [i..<k]"
  by (metis le_iff_add upt_add_eq_append)

lemma nth_list_update_cases:
  "j < length xs \<Longrightarrow> xs[i := x] ! j = (if i = j then x else xs ! j)"
  by (simp add: nth_list_update)

end
