(* ===== verification/Json.thy ===== *)
theory Json
  imports Prelude "HOL-Library.Log_Nat"
begin

text \<open>
  JSON values, \<open>JSON.parse\<close> and the few operations of the JavaScript language that
  \<^verbatim>\<open>client/monitor.mjs\<close> applies to a parsed message: property access, \<open>===\<close>,
  \<open>Number.isSafeInteger\<close>, \<open>RegExp.prototype.test\<close> with its string coercion, and the
  \<open>exact\<close> field check. A string is the list of its UTF-8 bytes, so that its length is
  what \<open>new TextEncoder().encode(s).length\<close> counts. The parser is a lexer that is
  structural in the text and a stack automaton that is structural in the tokens: it is
  total, without fuel.
\<close>

named_theorems json_simps \<open>rewrite rules for JSON access\<close>

section \<open>Values\<close>

text \<open>\<open>JNum\<close> holds a finite double, \<open>JInf\<close> an overflowing literal such as \<^verbatim>\<open>1e999\<close>
  (the flag is its sign).\<close>

datatype json =
    JNull
  | JBool bool
  | JNum rat
  | JInf bool
  | JStr string
  | JArr "json list"
  | JObj "(string \<times> json) list"

abbreviation jnat :: "nat \<Rightarrow> json" where
  "jnat n \<equiv> JNum (of_nat n)"

definition jget :: "json \<Rightarrow> string \<Rightarrow> json option" where
  "jget v k = (case v of JObj kvs \<Rightarrow> map_get (=) kvs k | _ \<Rightarrow> None)"

definition jfield :: "json option \<Rightarrow> string \<Rightarrow> json option" where
  "jfield v k = Option.bind v (\<lambda>x. jget x k)"

section \<open>Numbers as doubles\<close>

definition pow2 :: "int \<Rightarrow> rat" where
  "pow2 e = (if 0 \<le> e then 2 ^ nat e else 1 / 2 ^ nat (- e))"

definition round_half_even :: "rat \<Rightarrow> int" where
  "round_half_even x =
     (let q = \<lfloor>x\<rfloor>; r = x - of_int q in
      if r < 1 / 2 then q else if 1 / 2 < r then q + 1 else if even q then q else q + 1)"

text \<open>The exponent of the last place of the double nearest to \<open>x\<close>, for \<open>0 < x\<close>.\<close>

definition ulp_exponent :: "rat \<Rightarrow> int" where
  "ulp_exponent x =
     (let (p, q) = quotient_of x; k = bitlen p - bitlen q;
          e = (if pow2 k \<le> x then k else k - 1)
      in max (e - 52) (- 1074))"

definition round_double :: "rat \<Rightarrow> json" where
  "round_double x =
     (if x = 0 then JNum 0
      else let e = ulp_exponent \<bar>x\<bar>; y = of_int (round_half_even (\<bar>x\<bar> / pow2 e)) * pow2 e
           in if pow2 1024 \<le> y then JInf (0 < x) else JNum (if 0 < x then y else - y))"

text \<open>A number literal: sign, integer part without leading zeros, fraction, exponent.\<close>

definition all_digits :: "string \<Rightarrow> bool" where
  "all_digits s \<longleftrightarrow> s \<noteq> [] \<and> list_all is_digit s"

definition digits_value :: "string \<Rightarrow> nat option" where
  "digits_value s = (if all_digits s then Some (decimal_value s) else None)"

definition starts :: "char \<Rightarrow> string \<Rightarrow> bool" where
  "starts c s \<longleftrightarrow> s \<noteq> [] \<and> hd s = c"

definition exponent_value :: "string \<Rightarrow> int option" where
  "exponent_value s =
     (case s of
        [] \<Rightarrow> Some 0
      | c # t \<Rightarrow>
          if c \<in> set ''eE'' then
            (if starts CHR ''+'' t then map_option int (digits_value (tl t))
             else if starts CHR ''-'' t then map_option (\<lambda>n. - int n) (digits_value (tl t))
             else map_option int (digits_value t))
          else None)"

definition scale10 :: "int \<Rightarrow> rat" where
  "scale10 e = (if 0 \<le> e then 10 ^ nat e else 1 / 10 ^ nat (- e))"

definition magnitude_value :: "string \<Rightarrow> rat option" where
  "magnitude_value s =
     (let ds = takeWhile is_digit s; t = dropWhile is_digit s;
          fs = (if starts CHR ''.'' t then takeWhile is_digit (tl t) else []);
          u = (if starts CHR ''.'' t then dropWhile is_digit (tl t) else t)
      in if ds = [] \<or> (1 < length ds \<and> starts CHR ''0'' ds)
            \<or> (starts CHR ''.'' t \<and> fs = []) then None
         else (case exponent_value u of
                 None \<Rightarrow> None
               | Some e \<Rightarrow> Some (of_nat (decimal_value (ds @ fs)) * scale10 (e - int (length fs)))))"

definition number_value :: "string \<Rightarrow> json option" where
  "number_value s =
     (if starts CHR ''-'' s then map_option (\<lambda>x. round_double (- x)) (magnitude_value (tl s))
      else map_option round_double (magnitude_value s))"

section \<open>Lexer\<close>

text \<open>String contents are collected as raw bytes and \<^verbatim>\<open>\u\<close> code units; surrogate pairs
  are joined when the units are encoded.\<close>

datatype strunit = Raw char | Code nat

definition utf8 :: "nat \<Rightarrow> string" where
  "utf8 u =
     map char_of
       (if u < 128 then [u]
        else if u < 2048 then [192 + u div 64, 128 + u mod 64]
        else if u < 65536 then [224 + u div 4096, 128 + (u div 64) mod 64, 128 + u mod 64]
        else [240 + u div 262144, 128 + (u div 4096) mod 64, 128 + (u div 64) mod 64, 128 + u mod 64])"

definition high_surrogate :: "nat \<Rightarrow> bool" where
  "high_surrogate u \<longleftrightarrow> 55296 \<le> u \<and> u < 56320"

definition low_surrogate :: "nat \<Rightarrow> bool" where
  "low_surrogate u \<longleftrightarrow> 56320 \<le> u \<and> u < 57344"

fun encode_units :: "strunit list \<Rightarrow> string" where
  "encode_units [] = []"
| "encode_units (Raw c # us) = c # encode_units us"
| "encode_units (Code h # Code l # us) =
     (if high_surrogate h \<and> low_surrogate l
      then utf8 (65536 + (h - 55296) * 1024 + (l - 56320)) @ encode_units us
      else utf8 h @ encode_units (Code l # us))"
| "encode_units (Code u # us) = utf8 u @ encode_units us"

datatype token =
    LBrace | RBrace | LBrack | RBrack | Colon | Comma
  | TLit json
  | TStr string

datatype lexmode =
    Plain
  | InStr "strunit list"
  | InEsc "strunit list"
  | InHex "strunit list" nat nat
  | InNum string
  | InWord string

definition is_ws :: "char \<Rightarrow> bool" where
  "is_ws c \<longleftrightarrow> of_char c \<in> {32, 9, 10, 13 :: nat}"

definition is_num_char :: "char \<Rightarrow> bool" where
  "is_num_char c \<longleftrightarrow> c \<in> set ''0123456789+-.eE''"

definition is_word_char :: "char \<Rightarrow> bool" where
  "is_word_char c \<longleftrightarrow> c \<in> set ''abcdefghijklmnopqrstuvwxyz''"

definition hex_value :: "char \<Rightarrow> nat option" where
  "hex_value c =
     (let n = of_char c in
      if 48 \<le> n \<and> n \<le> 57 then Some (n - 48)
      else if 97 \<le> n \<and> n \<le> 102 then Some (n - 87)
      else if 65 \<le> n \<and> n \<le> 70 then Some (n - 55) else None)"

definition escape_value :: "char \<Rightarrow> char option" where
  "escape_value c =
     map_of [(CHR 0x22, CHR 0x22), (CHR 0x5C, CHR 0x5C), (CHR ''/'', CHR ''/''),
             (CHR ''b'', CHR 0x08), (CHR ''f'', CHR 0x0C), (CHR ''n'', CHR 0x0A),
             (CHR ''r'', CHR 0x0D), (CHR ''t'', CHR 0x09)] c"

definition word_value :: "string \<Rightarrow> token option" where
  "word_value w = map_of [(''null'', TLit JNull), (''true'', TLit (JBool True)), (''false'', TLit (JBool False))] w"

text \<open>What one character starts outside a string, a number or a word.\<close>

definition plain_char :: "char \<Rightarrow> (token list \<times> lexmode) option" where
  "plain_char c =
     (if is_ws c then Some ([], Plain)
      else if c = CHR ''{'' then Some ([LBrace], Plain)
      else if c = CHR ''}'' then Some ([RBrace], Plain)
      else if c = CHR ''['' then Some ([LBrack], Plain)
      else if c = CHR '']'' then Some ([RBrack], Plain)
      else if c = CHR '':'' then Some ([Colon], Plain)
      else if c = CHR '','' then Some ([Comma], Plain)
      else if c = CHR 0x22 then Some ([], InStr [])
      else if is_digit c \<or> c = CHR ''-'' then Some ([], InNum [c])
      else if is_word_char c then Some ([], InWord [c])
      else None)"

definition num_token :: "string \<Rightarrow> token option" where
  "num_token s = map_option TLit (number_value s)"

text \<open>One character in each mode: the tokens it completes and the next mode.\<close>

definition lex_char :: "lexmode \<Rightarrow> char \<Rightarrow> (token list \<times> lexmode) option" where
  "lex_char m c =
     (case m of
        Plain \<Rightarrow> plain_char c
      | InStr us \<Rightarrow>
          (if c = CHR 0x22 then Some ([TStr (encode_units us)], Plain)
           else if c = CHR 0x5C then Some ([], InEsc us)
           else if of_char c < (32 :: nat) then None
           else Some ([], InStr (us @ [Raw c])))
      | InEsc us \<Rightarrow>
          (if c = CHR ''u'' then Some ([], InHex us 0 0)
           else (case escape_value c of None \<Rightarrow> None | Some d \<Rightarrow> Some ([], InStr (us @ [Raw d]))))
      | InHex us n acc \<Rightarrow>
          (case hex_value c of
             None \<Rightarrow> None
           | Some d \<Rightarrow>
               (if n = 3 then Some ([], InStr (us @ [Code (16 * acc + d)]))
                else Some ([], InHex us (Suc n) (16 * acc + d))))
      | InNum s \<Rightarrow>
          (if is_num_char c then Some ([], InNum (s @ [c]))
           else (case (num_token s, plain_char c) of
                   (Some t, Some (ts, m')) \<Rightarrow> Some (t # ts, m') | _ \<Rightarrow> None))
      | InWord s \<Rightarrow>
          (if is_word_char c then Some ([], InWord (s @ [c]))
           else (case (word_value s, plain_char c) of
                   (Some t, Some (ts, m')) \<Rightarrow> Some (t # ts, m') | _ \<Rightarrow> None)))"

definition lex_end :: "lexmode \<Rightarrow> token list option" where
  "lex_end m =
     (case m of
        Plain \<Rightarrow> Some []
      | InNum s \<Rightarrow> map_option (\<lambda>t. [t]) (num_token s)
      | InWord s \<Rightarrow> map_option (\<lambda>t. [t]) (word_value s)
      | _ \<Rightarrow> None)"

fun lex :: "lexmode \<Rightarrow> string \<Rightarrow> token list option" where
  "lex m [] = lex_end m"
| "lex m (c # cs) =
     (case lex_char m c of
        None \<Rightarrow> None
      | Some (ts, m') \<Rightarrow> map_option ((@) ts) (lex m' cs))"

section \<open>Parser\<close>

datatype frame =
    FArr "json list"
  | FObj "(string \<times> json) list"
  | FKey "(string \<times> json) list" string

datatype pmode =
    PVal
  | PValOrEnd
  | PKey
  | PKeyOrEnd
  | PColon string
  | PAfter json

type_synonym pstate = "pmode \<times> frame list"

definition open_value :: "token \<Rightarrow> frame list \<Rightarrow> pstate option" where
  "open_value t stk =
     (case t of
        TLit v \<Rightarrow> Some (PAfter v, stk)
      | TStr s \<Rightarrow> Some (PAfter (JStr s), stk)
      | LBrack \<Rightarrow> Some (PValOrEnd, FArr [] # stk)
      | LBrace \<Rightarrow> Some (PKeyOrEnd, FObj [] # stk)
      | _ \<Rightarrow> None)"

text \<open>Duplicate keys of an object: the last value wins, at the first position.\<close>

definition parse_token :: "pstate \<Rightarrow> token \<Rightarrow> pstate option" where
  "parse_token s t =
     (case s of
        (PVal, stk) \<Rightarrow> open_value t stk
      | (PValOrEnd, stk) \<Rightarrow>
          (case (t, stk) of
             (RBrack, FArr _ # stk') \<Rightarrow> Some (PAfter (JArr []), stk')
           | _ \<Rightarrow> open_value t stk)
      | (PKey, stk) \<Rightarrow> (case t of TStr k \<Rightarrow> Some (PColon k, stk) | _ \<Rightarrow> None)
      | (PKeyOrEnd, stk) \<Rightarrow>
          (case (t, stk) of
             (RBrace, FObj _ # stk') \<Rightarrow> Some (PAfter (JObj []), stk')
           | (TStr k, _) \<Rightarrow> Some (PColon k, stk)
           | _ \<Rightarrow> None)
      | (PColon k, stk) \<Rightarrow>
          (case (t, stk) of
             (Colon, FObj kvs # stk') \<Rightarrow> Some (PVal, FKey kvs k # stk')
           | _ \<Rightarrow> None)
      | (PAfter v, stk) \<Rightarrow>
          (case (t, stk) of
             (Comma, FArr xs # stk') \<Rightarrow> Some (PVal, FArr (xs @ [v]) # stk')
           | (RBrack, FArr xs # stk') \<Rightarrow> Some (PAfter (JArr (xs @ [v])), stk')
           | (Comma, FKey kvs k # stk') \<Rightarrow> Some (PKey, FObj (map_set (=) kvs k v) # stk')
           | (RBrace, FKey kvs k # stk') \<Rightarrow> Some (PAfter (JObj (map_set (=) kvs k v)), stk')
           | _ \<Rightarrow> None))"

fun parse_tokens :: "pstate \<Rightarrow> token list \<Rightarrow> json option" where
  "parse_tokens s [] = (case s of (PAfter v, []) \<Rightarrow> Some v | _ \<Rightarrow> None)"
| "parse_tokens s (t # ts) =
     (case parse_token s t of None \<Rightarrow> None | Some s' \<Rightarrow> parse_tokens s' ts)"

definition json_parse :: "string \<Rightarrow> json option" where
  "json_parse text = (case lex Plain text of None \<Rightarrow> None | Some ts \<Rightarrow> parse_tokens (PVal, []) ts)"

section \<open>JavaScript operations on parsed values\<close>

text \<open>
  \<open>a === b\<close>. Arrays and objects are compared by identity. The program only compares
  values that come from different \<open>JSON.parse\<close> results or from different places of one
  result, which are different objects, so the comparison of two arrays or objects is false.
\<close>

fun strict_eq :: "json \<Rightarrow> json \<Rightarrow> bool" where
  "strict_eq JNull JNull = True"
| "strict_eq (JBool a) (JBool b) = (a = b)"
| "strict_eq (JNum a) (JNum b) = (a = b)"
| "strict_eq (JInf a) (JInf b) = (a = b)"
| "strict_eq (JStr a) (JStr b) = (a = b)"
| "strict_eq _ _ = False"

text \<open>
  \<open>/^[0-9a-f]{n}$/.test(v)\<close> for \<open>n \<in> {64, 128}\<close>. \<open>test\<close> converts its argument to a
  string first, and the string of a one-element array is the string of its element. No other
  value has a string that matches: \<^verbatim>\<open>undefined\<close>, \<^verbatim>\<open>null\<close>, \<^verbatim>\<open>true\<close>, \<^verbatim>\<open>false\<close>
  and \<^verbatim>\<open>[object Object]\<close> contain other letters, longer arrays contain a comma, the empty
  array is the empty string, and a number prints in fewer than thirty characters.
\<close>

fun hex_test :: "nat \<Rightarrow> json \<Rightarrow> bool" where
  "hex_test n (JStr s) = hex_string n s"
| "hex_test n (JArr [v]) = hex_test n v"
| "hex_test n _ = False"

text \<open>\<open>Number.isSafeInteger(v)\<close>, and the integer.\<close>

definition is_safe_integer :: "json \<Rightarrow> bool" where
  "is_safe_integer v = (case v of JNum r \<Rightarrow> r \<in> \<int> \<and> \<bar>r\<bar> \<le> 9007199254740991 | _ \<Rightarrow> False)"

definition num_nat :: "json \<Rightarrow> nat" where
  "num_nat v = (case v of JNum r \<Rightarrow> nat \<lfloor>r\<rfloor> | _ \<Rightarrow> 0)"

lemma strict_eq_JStr [json_simps]: "strict_eq v (JStr s) \<longleftrightarrow> v = JStr s" "strict_eq (JStr s) v \<longleftrightarrow> v = JStr s"
  by (cases v; auto)+

lemma strict_eq_imp_eq: "strict_eq a b \<Longrightarrow> a = b"
  by (induction a b rule: strict_eq.induct) auto

lemma strict_eq_sym: "strict_eq a b = strict_eq b a"
  by (induction a b rule: strict_eq.induct) auto

lemma strict_eq_trans: "strict_eq a b \<Longrightarrow> strict_eq b c \<Longrightarrow> strict_eq a c"
  using strict_eq_imp_eq by blast

lemma hex_test_JStr: "hex_test n v \<Longrightarrow> (\<And>x. v \<noteq> JArr [x]) \<Longrightarrow> \<exists>s. v = JStr s \<and> hex_string n s"
  by (induction n v rule: hex_test.induct) auto

lemma num_nat_jnat [simp]: "num_nat (jnat n) = n"
  by (simp add: num_nat_def)

lemma safe_integer_jnat [json_simps]: "is_safe_integer (jnat n) \<longleftrightarrow> n \<le> 9007199254740991"
proof -
  have "(of_nat n :: rat) \<le> 9007199254740991 \<longleftrightarrow> n \<le> 9007199254740991"
    by (metis of_nat_le_iff of_nat_numeral)
  then show ?thesis by (simp add: is_safe_integer_def)
qed

lemma safe_integer_nonneg:
  assumes "is_safe_integer v" and "v = JNum r" and "0 \<le> r"
  shows "v = jnat (num_nat v)"
proof -
  from assms obtain i where i: "r = of_int i"
    by (auto simp: is_safe_integer_def elim: Ints_cases)
  with assms(3) have "0 \<le> i" by simp
  with i assms(2) show ?thesis by (simp add: num_nat_def)
qed

end
