(* ===== verification/Monitor.thy ===== *)
theory Monitor
  imports Json
begin

text \<open>
  The browser client \<^verbatim>\<open>client/monitor.mjs\<close>: \<open>ReceiptMonitor\<close>, operation by operation.

  A relay object is the record \<open>relay\<close>, the monitor's private fields are \<open>monitor\<close> and its
  constructor arguments \<open>config\<close>. The asynchronous code is cut at its \<open>await\<close>s: a job of a
  relay's promise chain is in one \<open>phase\<close>, and one run of a job goes from an \<open>await\<close> to the
  next. \<open>#lose\<close> replaces the chain with a fresh one while the jobs of the old chain keep
  running, so a relay also has its abandoned chains (\<open>orphans\<close>). An \<open>event\<close> is one turn of
  the browser's event loop: an API call, a timer, a socket event or a promise job. Socket
  constructors that throw, \<open>send\<close> calls that throw, clock readings and the scheduling are
  inputs of the events.

  \<open>verifyReceipt\<close> is the wallet's code, a parameter \<open>verify\<close> of the definitions; \<open>new URL\<close>
  is the platform's URL parser, a parameter of the constructor. Times are rational
  milliseconds and \<open>-Infinity\<close> is \<open>None\<close>; one turn reads the clock once. Listeners of the
  \<open>change\<close> event do not call \<open>start\<close> or \<open>stop\<close> from inside the dispatch.
\<close>

named_theorems monitor_defs \<open>definitions of the monitor's operations\<close>

section \<open>Helpers\<close>

type_synonym time = rat

definition MAX_FRAME :: nat where
  "MAX_FRAME = 4096"

definition MAX_PENDING :: nat where
  "MAX_PENDING = 32"

abbreviation HASH_test :: "json \<Rightarrow> bool" where
  "HASH_test v \<equiv> hex_test 64 v"

definition OUTPOINT_test :: "string \<Rightarrow> bool" where
  "OUTPOINT_test s \<longleftrightarrow>
     (let t = drop 64 s; n = tl t in
      hex_string 64 (take 64 s) \<and> starts CHR '':'' t
      \<and> (n = ''0'' \<or> (all_digits n \<and> \<not> starts CHR ''0'' n \<and> length n \<le> 10)))"

fun join_comma :: "string list \<Rightarrow> string" where
  "join_comma [] = []"
| "join_comma [s] = s"
| "join_comma (s # ss) = s @ '','' @ join_comma ss"

definition exact :: "json option \<Rightarrow> string list \<Rightarrow> bool" where
  "exact v keys =
     (case v of
        Some (JObj kvs) \<Rightarrow> join_comma (sort (map fst kvs)) = join_comma (sort keys)
      | _ \<Rightarrow> False)"

definition sequence :: "json option \<Rightarrow> nat \<Rightarrow> bool" where
  "sequence n limit =
     (case n of
        Some (JNum r) \<Rightarrow> is_safe_integer (JNum r) \<and> 0 \<le> r \<and> r \<le> of_nat limit
      | _ \<Rightarrow> False)"

record cursor =
  stream :: json
  seq :: nat

definition sameCursor :: "cursor option \<Rightarrow> cursor \<Rightarrow> bool" where
  "sameCursor a b = (case a of None \<Rightarrow> False | Some c \<Rightarrow> strict_eq (stream c) (stream b) \<and> seq c = seq b)"

record url_parts =
  username :: string
  password :: string
  hash :: string
  protocol :: string
  hostname :: string
  href :: string

definition endpoint :: "(string \<Rightarrow> url_parts option) \<Rightarrow> string \<Rightarrow> string res" where
  "endpoint new_URL v =
     (case new_URL v of
        None \<Rightarrow> Inl ''Invalid URL''
      | Some u \<Rightarrow>
          guard (username u = [] \<and> password u = [] \<and> hash u = [])
            ''URL credentials/fragments are not allowed''
            (guard (protocol u = ''wss:''
                \<or> (protocol u = ''ws:'' \<and> (hostname u = ''127.0.0.1'' \<or> hostname u = ''[::1]'')))
              ''use wss or loopback ws'' (Inr (href u))))"

section \<open>State\<close>

record receipt =
  bond :: string
  txid :: json
  signature :: json

text \<open>
  Where a job of the promise chain stands: not started; suspended in the \<open>await\<close> of
  \<open>#verify\<close> for the event's receipt or for its conflicting receipt; \<open>#process\<close> returned and
  its \<open>await\<close> is pending; rejected with its \<open>catch\<close> handler pending.
\<close>

datatype phase =
    Queued string
  | AwaitReceipt nat receipt "json option"
  | AwaitConflict nat receipt receipt
  | Returned
  | Rejected

record job =
  job_generation :: nat
  receivedAt :: time
  job_phase :: phase

datatype ready_state = CONNECTING | OPEN | CLOSING | CLOSED

record socket =
  socket_generation :: nat
  readyState :: ready_state

text \<open>
  \<open>listeners\<close> are the generations whose sockets still have event listeners, \<open>sent\<close> the
  messages sent on each, \<open>changes\<close> counts the \<open>change\<close> events dispatched for this relay.
\<close>

record relay =
  url :: string
  rcursor :: "cursor option"
  through :: "nat option"
  caughtUp :: bool
  lastMessage :: "time option"
  opened :: "time option"
  generation :: nat
  pending :: nat
  queue :: "job list"
  orphans :: "job list list"
  rsocket :: "socket option"
  retry :: bool
  rerror :: "string option"
  seen :: "(string \<times> json list) list"
  listeners :: "nat list"
  sent :: "(nat \<times> json) list"
  changes :: nat

type_synonym evidence_map = "(string \<times> (json \<times> receipt) list) list"

record monitor =
  running :: bool
  timer :: bool
  relays :: "relay list"
  evidence :: evidence_map

record config =
  profile :: string
  bonds :: "string list"
  staleMs :: time
  retryMs :: time

section \<open>Constructor\<close>

record ctor_args =
  arg_profile :: string
  arg_bonds :: "string list"
  arg_relays :: "string list"
  arg_verify :: bool
  arg_WebSocket :: bool
  arg_staleMs :: "time option"
  arg_reconnectMs :: "time option"

definition new_relay :: "string \<Rightarrow> relay" where
  "new_relay u = \<lparr>url = u, rcursor = None, through = None, caughtUp = False, lastMessage = None,
     opened = None, generation = 0, pending = 0, queue = [], orphans = [], rsocket = None,
     retry = False, rerror = Some ''not started'', seen = [], listeners = [], sent = [], changes = 0\<rparr>"

definition at_least :: "time option \<Rightarrow> time \<Rightarrow> bool" where
  "at_least v least = (case v of None \<Rightarrow> False | Some x \<Rightarrow> least \<le> x)"

fun map_res :: "('a \<Rightarrow> 'b res) \<Rightarrow> 'a list \<Rightarrow> 'b list res" where
  "map_res f [] = Inr []"
| "map_res f (x # xs) = bind_res (f x) (\<lambda>y. bind_res (map_res f xs) (\<lambda>ys. Inr (y # ys)))"

definition bond_ok :: "string \<Rightarrow> bool" where
  "bond_ok b \<longleftrightarrow> OUTPOINT_test b \<and> decimal_value (tl (drop 64 b)) \<le> 4294967295"

definition new_monitor :: "(string \<Rightarrow> url_parts option) \<Rightarrow> ctor_args \<Rightarrow> (config \<times> monitor) res" where
  "new_monitor new_URL a =
     guard (HASH_test (JStr (arg_profile a))) ''pin the authenticated profile ID''
     (guard (1 \<le> length (arg_bonds a) \<and> length (arg_bonds a) \<le> 128
         \<and> length (remdups (arg_bonds a)) = length (arg_bonds a) \<and> list_all bond_ok (arg_bonds a))
       ''pin 1..128 distinct bonds''
     (guard (arg_verify a) ''a cryptographic receipt verifier is required''
     (guard (arg_WebSocket a) ''WebSocket is required''
     (guard (2 \<le> length (arg_relays a) \<and> length (arg_relays a) \<le> 8) ''configure 2..8 relays''
     (guard (at_least (arg_staleMs a) 100 \<and> at_least (arg_reconnectMs a) 10) ''invalid timeouts''
     (bind_res (map_res (endpoint new_URL) (arg_relays a)) (\<lambda>urls.
      guard (length (remdups urls) = length urls) ''relay URLs must be distinct''
       (Inr (\<lparr>profile = arg_profile a, bonds = arg_bonds a, staleMs = the (arg_staleMs a),
              retryMs = the (arg_reconnectMs a)\<rparr>,
             \<lparr>running = False, timer = False, relays = map new_relay urls, evidence = []\<rparr>)))))))))"

section \<open>Queries\<close>

definition healthy :: "config \<Rightarrow> bool \<Rightarrow> time \<Rightarrow> relay \<Rightarrow> bool" where
  "healthy cfg run now r \<longleftrightarrow>
     run \<and> (case rsocket r of None \<Rightarrow> False | Some s \<Rightarrow> readyState s = OPEN) \<and> caughtUp r
     \<and> pending r = 0
     \<and> (case lastMessage r of None \<Rightarrow> False | Some l \<Rightarrow> 0 \<le> now - l \<and> now - l < staleMs cfg)"

record relay_health =
  h_url :: string
  synchronized :: bool
  h_cursor :: "cursor option"
  h_error :: "string option"

record health_report =
  monitoringReady :: bool
  h_relays :: "relay_health list"

definition health :: "config \<Rightarrow> time \<Rightarrow> monitor \<Rightarrow> health_report" where
  "health cfg now m =
     \<lparr>monitoringReady = list_all (healthy cfg (running m) now) (relays m),
      h_relays = map (\<lambda>r. \<lparr>h_url = url r, synchronized = healthy cfg (running m) now r,
                           h_cursor = rcursor r, h_error = rerror r\<rparr>) (relays m)\<rparr>"

record observation_report = health_report +
  conflicted :: bool
  observedOn :: "string list"
  observedEverywhere :: bool
  o_evidence :: "receipt list"

definition bond_evidence :: "evidence_map \<Rightarrow> string \<Rightarrow> (json \<times> receipt) list" where
  "bond_evidence ev b = (case map_get (=) ev b of None \<Rightarrow> [] | Some m \<Rightarrow> m)"

definition bond_seen :: "relay \<Rightarrow> string \<Rightarrow> json list" where
  "bond_seen r b = (case map_get (=) (seen r) b of None \<Rightarrow> [] | Some s \<Rightarrow> s)"

definition observation :: "config \<Rightarrow> time \<Rightarrow> monitor \<Rightarrow> string \<Rightarrow> string \<Rightarrow> observation_report res" where
  "observation cfg now m b t =
     guard (b \<in> set (bonds cfg) \<and> HASH_test (JStr t)) ''unknown bond/invalid transaction ID''
       (let receipts = map snd (bond_evidence (evidence m) b);
            on = map url (filter (\<lambda>r. healthy cfg (running m) now r
                   \<and> set_has strict_eq (bond_seen r b) (JStr t)) (relays m))
        in Inr (health_report.extend (health cfg now m)
                 (observation_report.fields (1 < length receipts) on
                    (length on = length (relays m)) receipts)))"

section \<open>Losing and opening connections\<close>

definition current :: "bool \<Rightarrow> relay \<Rightarrow> nat \<Rightarrow> bool" where
  "current run r g \<longleftrightarrow> run \<and> g = generation r"

definition changed :: "relay \<Rightarrow> relay" where
  "changed r = r\<lparr>changes := Suc (changes r)\<rparr>"

definition lose :: "bool \<Rightarrow> relay \<Rightarrow> string \<Rightarrow> bool \<Rightarrow> relay" where
  "lose run r reason again =
     (let r' = changed (r\<lparr>generation := Suc (generation r), caughtUp := False, through := None,
                 pending := 0, queue := [], orphans := orphans r @ [queue r],
                 rerror := Some reason, retry := False, rsocket := None\<rparr>)
      in if again \<and> run then r'\<lparr>retry := True\<rparr> else r')"

definition connect :: "bool \<Rightarrow> time \<Rightarrow> string list \<Rightarrow> relay \<Rightarrow> relay" where
  "connect run now refused r =
     (if \<not> run then r
      else let g = Suc (generation r);
               r' = r\<lparr>generation := g, opened := Some now, lastMessage := None,
                      rerror := Some ''synchronizing''\<rparr>
           in if url r \<in> set refused then lose run r' ''connection failed'' True
              else r'\<lparr>rsocket := Some \<lparr>socket_generation = g, readyState = CONNECTING\<rparr>,
                      listeners := g # listeners r\<rparr>)"

definition checkStaleness_relay :: "config \<Rightarrow> bool \<Rightarrow> time \<Rightarrow> relay \<Rightarrow> relay" where
  "checkStaleness_relay cfg run now r =
     (case rsocket r of
        None \<Rightarrow> r
      | Some _ \<Rightarrow>
          (let late = lose run r ''stale or stalled connection'' (pending r = 0) in
           case combine_options max (opened r) (lastMessage r) of
             None \<Rightarrow> late
           | Some latest \<Rightarrow> if now - latest < 0 \<or> staleMs cfg \<le> now - latest then late else r))"

section \<open>Socket events\<close>

definition json_cursor :: "cursor option \<Rightarrow> json" where
  "json_cursor c = (case c of None \<Rightarrow> JNull | Some c \<Rightarrow> JObj [(''stream'', stream c), (''seq'', jnat (seq c))])"

definition subscribe_message :: "config \<Rightarrow> relay \<Rightarrow> json" where
  "subscribe_message cfg r =
     JObj [(''type'', JStr ''subscribe''), (''profile'', JStr (profile cfg)), (''cursor'', json_cursor (rcursor r))]"

definition on_open :: "config \<Rightarrow> bool \<Rightarrow> bool \<Rightarrow> nat \<Rightarrow> relay \<Rightarrow> relay" where
  "on_open cfg run send_ok g r =
     (if \<not> current run r g then r
      else if send_ok then r\<lparr>sent := sent r @ [(g, subscribe_message cfg r)]\<rparr>
      else lose run r ''subscribe failed'' True)"

definition on_close :: "bool \<Rightarrow> nat \<Rightarrow> relay \<Rightarrow> relay" where
  "on_close run g r = (if current run r g then lose run r ''disconnected'' True else r)"

definition on_error :: "bool \<Rightarrow> nat \<Rightarrow> relay \<Rightarrow> relay" where
  "on_error run g r = (if current run r g then lose run r ''connection failed'' True else r)"

datatype ws_data = TextFrame string | BinaryFrame

definition on_message :: "bool \<Rightarrow> time \<Rightarrow> nat \<Rightarrow> ws_data \<Rightarrow> relay \<Rightarrow> relay" where
  "on_message run now g data r =
     (if \<not> current run r g then r
      else (case data of
          BinaryFrame \<Rightarrow> lose run r ''frame/queue limit exceeded'' False
        | TextFrame t \<Rightarrow>
            if MAX_FRAME < length t then lose run r ''frame/queue limit exceeded'' False
            else (let r' = r\<lparr>pending := Suc (pending r)\<rparr> in
                  if MAX_PENDING < pending r' then lose run r' ''frame/queue limit exceeded'' False
                  else changed (r'\<lparr>queue := queue r @
                         [\<lparr>job_generation = g, receivedAt = now, job_phase = Queued t\<rparr>]\<rparr>))))"

section \<open>Messages\<close>

definition max_seq :: "config \<Rightarrow> nat" where
  "max_seq cfg = length (bonds cfg) * 2"

definition as_cursor :: "json \<Rightarrow> cursor" where
  "as_cursor v = \<lparr>stream = the (jget v ''stream''), seq = num_nat (the (jget v ''seq''))\<rparr>"

definition check_cursor :: "config \<Rightarrow> json option \<Rightarrow> cursor res" where
  "check_cursor cfg v =
     guard (exact v [''stream'', ''seq'']) ''invalid message fields''
       (case v of
          None \<Rightarrow> Inl ''invalid cursor''
        | Some c \<Rightarrow>
            guard ((case jget c ''stream'' of None \<Rightarrow> False | Some s \<Rightarrow> HASH_test s)
                \<and> sequence (jget c ''seq'') (max_seq cfg)) ''invalid cursor'' (Inr (as_cursor c)))"

text \<open>The part of \<open>#receipt\<close> before its \<open>await\<close>: the checked copy that \<open>verifyReceipt\<close> gets.\<close>

definition check_receipt :: "config \<Rightarrow> json option \<Rightarrow> receipt res" where
  "check_receipt cfg v =
     guard (exact v [''bond'', ''txid'', ''signature'']) ''invalid message fields''
       (case (jfield v ''bond'', jfield v ''txid'',
              jfield v ''signature'') of
          (Some (JStr b), Some t, Some s) \<Rightarrow>
            guard (b \<in> set (bonds cfg) \<and> HASH_test t \<and> hex_test 128 s) ''invalid receipt''
              (Inr \<lparr>bond = b, txid = t, signature = s\<rparr>)
        | _ \<Rightarrow> Inl ''invalid receipt'')"

definition remember :: "evidence_map \<Rightarrow> relay \<Rightarrow> receipt \<Rightarrow> evidence_map \<times> relay" where
  "remember ev r rc =
     (let e = bond_evidence ev (bond rc);
          e' = (if length e < 2 then map_set strict_eq e (txid rc) rc else e);
          s = bond_seen r (bond rc);
          s' = (if length s < 2 then set_add strict_eq s (txid rc) else s)
      in (map_set (=) ev (bond rc) e', r\<lparr>seen := map_set (=) (seen r) (bond rc) s'\<rparr>))"

definition process_begin :: "config \<Rightarrow> relay \<Rightarrow> json \<Rightarrow> relay res" where
  "process_begin cfg r m =
     guard (exact (Some m) [''type'', ''profile'', ''stream'', ''from'', ''through'']) ''invalid message fields''
     (guard (through r = None
         \<and> (case jget m ''profile'' of None \<Rightarrow> False | Some p \<Rightarrow> strict_eq p (JStr (profile cfg)))
         \<and> (case jget m ''stream'' of None \<Rightarrow> False | Some s \<Rightarrow> HASH_test s)
         \<and> sequence (jget m ''from'') (max_seq cfg) \<and> sequence (jget m ''through'') (max_seq cfg)
         \<and> num_nat (the (jget m ''from'')) \<le> num_nat (the (jget m ''through'')))
       ''invalid synchronization header''
      (let c = \<lparr>stream = the (jget m ''stream''), seq = num_nat (the (jget m ''from''))\<rparr> in
       guard (case rcursor r of None \<Rightarrow> seq c = 0 | Some _ \<Rightarrow> sameCursor (rcursor r) c)
         ''stream/cursor changed''
         (Inr (r\<lparr>rcursor := Some c, through := Some (num_nat (the (jget m ''through''))), caughtUp := False\<rparr>))))"

text \<open>The part of the \<open>event\<close> case before its first \<open>await\<close>.\<close>

definition process_event :: "config \<Rightarrow> relay \<Rightarrow> json \<Rightarrow> phase res" where
  "process_event cfg r m =
     guard (exact (Some m) [''type'', ''event'']) ''invalid message fields''
     (let ev = jget m ''event'' in
      guard (exact ev [''seq'', ''receipt'', ''conflict_with'']) ''invalid message fields''
      (let n = jfield ev ''seq'' in
       (case (through r, rcursor r) of
          (Some th, Some c) \<Rightarrow>
            guard (sequence n (max_seq cfg) \<and> num_nat (the n) = seq c + 1
                \<and> (caughtUp r \<or> num_nat (the n) \<le> th)) ''event gap''
              (bind_res (check_receipt cfg (jfield ev ''receipt'')) (\<lambda>rc.
                 Inr (AwaitReceipt (num_nat (the n)) rc (jfield ev ''conflict_with''))))
        | _ \<Rightarrow> Inl ''event gap'')))"

definition process_caught_up :: "config \<Rightarrow> relay \<Rightarrow> json \<Rightarrow> relay res" where
  "process_caught_up cfg r m =
     guard (exact (Some m) [''type'', ''cursor'']) ''invalid message fields''
       (bind_res (check_cursor cfg (jget m ''cursor'')) (\<lambda>c.
          guard (\<not> caughtUp r \<and> sameCursor (rcursor r) c \<and> through r = Some (seq c)) ''incomplete replay''
            (Inr (r\<lparr>caughtUp := True\<rparr>))))"

definition process_heartbeat :: "config \<Rightarrow> relay \<Rightarrow> json \<Rightarrow> relay res" where
  "process_heartbeat cfg r m =
     guard (exact (Some m) [''type'', ''cursor'']) ''invalid message fields''
       (bind_res (check_cursor cfg (jget m ''cursor'')) (\<lambda>c.
          guard (caughtUp r \<and> sameCursor (rcursor r) c) ''heartbeat gap'' (Inr r)))"

definition process :: "config \<Rightarrow> relay \<Rightarrow> json \<Rightarrow> (relay \<times> phase) res" where
  "process cfg r m =
     (let ty = jget m ''type'' in
      if ty = Some (JStr ''begin'') then bind_res (process_begin cfg r m) (\<lambda>r'. Inr (r', Returned))
      else if ty = Some (JStr ''event'') then bind_res (process_event cfg r m) (\<lambda>ph. Inr (r, ph))
      else if ty = Some (JStr ''caught_up'') then bind_res (process_caught_up cfg r m) (\<lambda>r'. Inr (r', Returned))
      else if ty = Some (JStr ''heartbeat'') then bind_res (process_heartbeat cfg r m) (\<lambda>r'. Inr (r', Returned))
      else Inl ''relay error/unknown message'')"

section \<open>The promise chain\<close>

text \<open>The end of the \<open>event\<close> case, after the last \<open>await\<close>.\<close>

definition accept_event :: "bool \<Rightarrow> evidence_map \<Rightarrow> relay \<Rightarrow> nat \<Rightarrow> nat \<Rightarrow> receipt \<Rightarrow> receipt option
    \<Rightarrow> evidence_map \<times> relay" where
  "accept_event run ev r g n rc other =
     (if \<not> current run r g then (ev, r)
      else let (ev1, r1) = remember ev r rc;
               (ev2, r2) = (case other of None \<Rightarrow> (ev1, r1) | Some rc' \<Rightarrow> remember ev1 r1 rc')
           in (ev2, r2\<lparr>rcursor := map_option (\<lambda>c. c\<lparr>seq := n\<rparr>) (rcursor r2)\<rparr>))"

text \<open>
  One run of a job: the shared state after it and the job's next phase, \<open>None\<close> when the
  promise is settled and the chain goes on to the next job.
\<close>

definition run_job :: "config \<Rightarrow> (receipt \<Rightarrow> bool) \<Rightarrow> bool \<Rightarrow> time \<Rightarrow> evidence_map \<Rightarrow> relay \<Rightarrow> job
    \<Rightarrow> evidence_map \<times> relay \<times> phase option" where
  "run_job cfg verify run now ev r j =
     (let g = job_generation j; late = \<not> (now - receivedAt j < staleMs cfg) in
      case job_phase j of
        Queued text \<Rightarrow>
          (if \<not> current run r g then (ev, r, None)
           else if late then (ev, r, Some Rejected)
           else (case json_parse text of
                   None \<Rightarrow> (ev, r, Some Rejected)
                 | Some m \<Rightarrow> (case process cfg r m of
                               Inl _ \<Rightarrow> (ev, r, Some Rejected)
                             | Inr (r', ph) \<Rightarrow> (ev, r', Some ph))))
      | AwaitReceipt n rc cw \<Rightarrow>
          (if \<not> verify rc then (ev, r, Some Rejected)
           else if cw = Some JNull then
             (case accept_event run ev r g n rc None of (ev', r') \<Rightarrow> (ev', r', Some Returned))
           else (case check_receipt cfg cw of
                   Inl _ \<Rightarrow> (ev, r, Some Rejected)
                 | Inr other \<Rightarrow> (ev, r, Some (AwaitConflict n rc other))))
      | AwaitConflict n rc other \<Rightarrow>
          (if \<not> verify other \<or> \<not> (bond other = bond rc \<and> \<not> strict_eq (txid other) (txid rc))
           then (ev, r, Some Rejected)
           else (case accept_event run ev r g n rc (Some other) of (ev', r') \<Rightarrow> (ev', r', Some Returned)))
      | Returned \<Rightarrow>
          (if \<not> current run r g then (ev, r, None)
           else if late then (ev, r, Some Rejected)
           else (ev, changed (r\<lparr>lastMessage := Some (receivedAt j), pending := pending r - 1,
                      rerror := (if caughtUp r then None else Some ''synchronizing'')\<rparr>), None))
      | Rejected \<Rightarrow>
          (if current run r g
           then (ev, lose run r ''invalid protocol/evidence; revalidation required'' False, None)
           else (ev, r, None)))"

definition continue_chain :: "job \<Rightarrow> phase option \<Rightarrow> job list \<Rightarrow> job list" where
  "continue_chain j ph js = (case ph of None \<Rightarrow> js | Some p \<Rightarrow> j\<lparr>job_phase := p\<rparr> # js)"

definition run_queue :: "config \<Rightarrow> (receipt \<Rightarrow> bool) \<Rightarrow> bool \<Rightarrow> time \<Rightarrow> evidence_map \<Rightarrow> relay
    \<Rightarrow> evidence_map \<times> relay" where
  "run_queue cfg verify run now ev r =
     (case queue r of
        [] \<Rightarrow> (ev, r)
      | j # js \<Rightarrow>
          (case run_job cfg verify run now ev (r\<lparr>queue := js\<rparr>) j of
             (ev', r', ph) \<Rightarrow> (ev', r'\<lparr>queue := continue_chain j ph (queue r')\<rparr>)))"

definition run_orphan :: "config \<Rightarrow> (receipt \<Rightarrow> bool) \<Rightarrow> bool \<Rightarrow> time \<Rightarrow> nat \<Rightarrow> evidence_map \<Rightarrow> relay
    \<Rightarrow> evidence_map \<times> relay" where
  "run_orphan cfg verify run now k ev r =
     (if k < length (orphans r) then
        (case orphans r ! k of
           [] \<Rightarrow> (ev, r)
         | j # js \<Rightarrow>
             (case run_job cfg verify run now ev r j of
                (ev', r', ph) \<Rightarrow> (ev', r'\<lparr>orphans := (orphans r')[k := continue_chain j ph js]\<rparr>)))
      else (ev, r))"

section \<open>Turns of the event loop\<close>

datatype event =
    Start time "string list"
  | Stop
  | CheckStaleness time
  | RetryTimer nat time "string list"
  | SocketOpen nat nat bool
  | SocketClosing nat nat
  | SocketClose nat nat
  | SocketError nat nat
  | SocketMessage nat nat time ws_data
  | RunQueue nat time
  | RunOrphan nat nat time

definition set_ready :: "nat \<Rightarrow> ready_state \<Rightarrow> relay \<Rightarrow> relay" where
  "set_ready g st r =
     (case rsocket r of
        None \<Rightarrow> r
      | Some s \<Rightarrow> if socket_generation s = g then r\<lparr>rsocket := Some (s\<lparr>readyState := st\<rparr>)\<rparr> else r)"

text \<open>An event of the socket of generation \<open>g\<close> reaches the listeners that \<open>#connect\<close> added.\<close>

definition listened :: "nat \<Rightarrow> (relay \<Rightarrow> relay) \<Rightarrow> relay \<Rightarrow> relay" where
  "listened g f r = (if g \<in> set (listeners r) then f r else r)"

definition start :: "time \<Rightarrow> string list \<Rightarrow> monitor \<Rightarrow> monitor" where
  "start now refused m =
     (if running m then m
      else m\<lparr>running := True, relays := map (connect True now refused) (relays m), timer := True\<rparr>)"

definition stop :: "monitor \<Rightarrow> monitor" where
  "stop m = m\<lparr>running := False, timer := False, relays := map (\<lambda>r. lose False r ''stopped'' False) (relays m)\<rparr>"

definition checkStaleness :: "config \<Rightarrow> time \<Rightarrow> monitor \<Rightarrow> monitor" where
  "checkStaleness cfg now m = m\<lparr>relays := map (checkStaleness_relay cfg (running m) now) (relays m)\<rparr>"

text \<open>One event at relay \<open>i\<close>: the new evidence and the new relay object.\<close>

definition relay_step :: "config \<Rightarrow> (receipt \<Rightarrow> bool) \<Rightarrow> bool \<Rightarrow> evidence_map \<Rightarrow> relay \<Rightarrow> event
    \<Rightarrow> evidence_map \<times> relay" where
  "relay_step cfg verify run ev r e =
     (case e of
        RetryTimer _ now refused \<Rightarrow> (ev, if retry r then connect run now refused (r\<lparr>retry := False\<rparr>) else r)
      | SocketOpen _ g ok \<Rightarrow> (ev, listened g (\<lambda>r. on_open cfg run ok g (set_ready g OPEN r)) r)
      | SocketClosing _ g \<Rightarrow> (ev, set_ready g CLOSING r)
      | SocketClose _ g \<Rightarrow> (ev, listened g (\<lambda>r. on_close run g (set_ready g CLOSED r)) r)
      | SocketError _ g \<Rightarrow> (ev, listened g (on_error run g) r)
      | SocketMessage _ g now data \<Rightarrow> (ev, listened g (on_message run now g data) r)
      | RunQueue _ now \<Rightarrow> run_queue cfg verify run now ev r
      | RunOrphan _ k now \<Rightarrow> run_orphan cfg verify run now k ev r
      | _ \<Rightarrow> (ev, r))"

fun event_relay :: "event \<Rightarrow> nat option" where
  "event_relay (RetryTimer i _ _) = Some i"
| "event_relay (SocketOpen i _ _) = Some i"
| "event_relay (SocketClosing i _) = Some i"
| "event_relay (SocketClose i _) = Some i"
| "event_relay (SocketError i _) = Some i"
| "event_relay (SocketMessage i _ _ _) = Some i"
| "event_relay (RunQueue i _) = Some i"
| "event_relay (RunOrphan i _ _) = Some i"
| "event_relay _ = None"

definition step :: "config \<Rightarrow> (receipt \<Rightarrow> bool) \<Rightarrow> monitor \<Rightarrow> event \<Rightarrow> monitor" where
  "step cfg verify m e =
     (case e of
        Start now refused \<Rightarrow> start now refused m
      | Stop \<Rightarrow> stop m
      | CheckStaleness now \<Rightarrow> checkStaleness cfg now m
      | _ \<Rightarrow>
          (case event_relay e of
             None \<Rightarrow> m
           | Some i \<Rightarrow>
               if i < length (relays m) then
                 (case relay_step cfg verify (running m) (evidence m) (relays m ! i) e of
                    (ev, r) \<Rightarrow> m\<lparr>evidence := ev, relays := (relays m)[i := r]\<rparr>)
               else m))"

fun run_turns :: "config \<Rightarrow> (receipt \<Rightarrow> bool) \<Rightarrow> monitor \<Rightarrow> event list \<Rightarrow> monitor" where
  "run_turns cfg verify m [] = m"
| "run_turns cfg verify m (e # es) = run_turns cfg verify (step cfg verify m e) es"

end
