(* ===== verification/Monitor_Inv.thy ===== *)
theory Monitor_Inv
  imports Monitor
begin

text \<open>
  The invariant of a relay object of \<^verbatim>\<open>client/monitor.mjs\<close> and its preservation by every turn
  of the event loop. It ties the fields together: the pending counter counts the jobs of the
  live promise chain, all of them of the current generation and all abandoned ones of older
  generations; a relay has a socket only while the monitor runs, then no retry timer is armed;
  without a socket nothing is queued and nothing is synchronized; the cursor stays within the
  bound of two events per bond and on the right side of the high-water mark; and a job that
  waits for a verification waits for the successor of the cursor.
\<close>

definition cursor_ok :: "config \<Rightarrow> relay \<Rightarrow> bool" where
  "cursor_ok cfg r \<longleftrightarrow>
     (case rcursor r of
        None \<Rightarrow> through r = None \<and> \<not> caughtUp r
      | Some c \<Rightarrow> seq c \<le> max_seq cfg \<and> HASH_test (stream c)
          \<and> (case through r of
               None \<Rightarrow> \<not> caughtUp r
             | Some th \<Rightarrow> th \<le> max_seq cfg \<and> (if caughtUp r then th \<le> seq c else seq c \<le> th)))"

definition awaits_next :: "config \<Rightarrow> relay \<Rightarrow> nat \<Rightarrow> bool" where
  "awaits_next cfg r n \<longleftrightarrow>
     (case (rcursor r, through r) of
        (Some c, Some th) \<Rightarrow> n = seq c + 1 \<and> n \<le> max_seq cfg \<and> (caughtUp r \<or> n \<le> th)
      | _ \<Rightarrow> False)"

definition receipt_ok :: "config \<Rightarrow> receipt \<Rightarrow> bool" where
  "receipt_ok cfg rc \<longleftrightarrow> bond rc \<in> set (bonds cfg) \<and> HASH_test (txid rc) \<and> hex_test 128 (signature rc)"

definition phase_ok :: "config \<Rightarrow> (receipt \<Rightarrow> bool) \<Rightarrow> relay \<Rightarrow> phase \<Rightarrow> bool" where
  "phase_ok cfg verify r ph \<longleftrightarrow>
     (case ph of
        AwaitReceipt n rc cw \<Rightarrow> awaits_next cfg r n \<and> receipt_ok cfg rc
      | AwaitConflict n rc rc' \<Rightarrow>
          awaits_next cfg r n \<and> receipt_ok cfg rc \<and> receipt_ok cfg rc' \<and> verify rc
      | _ \<Rightarrow> True)"

definition chain_ok :: "config \<Rightarrow> (receipt \<Rightarrow> bool) \<Rightarrow> relay \<Rightarrow> bool" where
  "chain_ok cfg verify r \<longleftrightarrow>
     (case queue r of
        [] \<Rightarrow> True
      | j # js \<Rightarrow> phase_ok cfg verify r (job_phase j) \<and> (\<forall>j' \<in> set js. \<exists>t. job_phase j' = Queued t))"

definition jobs_ok :: "relay \<Rightarrow> bool" where
  "jobs_ok r \<longleftrightarrow>
     pending r = length (queue r) \<and> pending r \<le> MAX_PENDING
     \<and> (\<forall>j \<in> set (queue r). job_generation j = generation r)
     \<and> (\<forall>c \<in> set (orphans r). \<forall>j \<in> set c. job_generation j < generation r)"

definition socket_ok :: "bool \<Rightarrow> relay \<Rightarrow> bool" where
  "socket_ok run r \<longleftrightarrow>
     (\<forall>g \<in> set (listeners r). g \<le> generation r) \<and> (retry r \<longrightarrow> run)
     \<and> (case rsocket r of
          None \<Rightarrow> queue r = [] \<and> through r = None \<and> \<not> caughtUp r \<and> generation r \<notin> set (listeners r)
        | Some s \<Rightarrow> run \<and> \<not> retry r \<and> socket_generation s = generation r \<and> generation r \<in> set (listeners r))"

definition relay_inv :: "config \<Rightarrow> (receipt \<Rightarrow> bool) \<Rightarrow> bool \<Rightarrow> relay \<Rightarrow> bool" where
  "relay_inv cfg verify run r \<longleftrightarrow>
     jobs_ok r \<and> socket_ok run r \<and> cursor_ok cfg r \<and> chain_ok cfg verify r"

definition monitor_inv :: "config \<Rightarrow> (receipt \<Rightarrow> bool) \<Rightarrow> monitor \<Rightarrow> bool" where
  "monitor_inv cfg verify m \<longleftrightarrow> (\<forall>r \<in> set (relays m). relay_inv cfg verify (running m) r)"

lemmas inv_defs = relay_inv_def jobs_ok_def socket_ok_def cursor_ok_def chain_ok_def

section \<open>Preservation by the operations on one relay\<close>

lemma phase_ok_simps [simp]:
  "phase_ok cfg verify r (Queued t)"
  "phase_ok cfg verify r Returned"
  "phase_ok cfg verify r Rejected"
  "phase_ok cfg verify r (AwaitReceipt n rc cw) \<longleftrightarrow> awaits_next cfg r n \<and> receipt_ok cfg rc"
  "phase_ok cfg verify r (AwaitConflict n rc rc') \<longleftrightarrow>
     awaits_next cfg r n \<and> receipt_ok cfg rc \<and> receipt_ok cfg rc' \<and> verify rc"
  by (simp_all add: phase_ok_def)

text \<open>Which fields the parts of the invariant do not read.\<close>

lemma jobs_ok_frame [simp]:
  "jobs_ok (r\<lparr>rcursor := x_rcursor\<rparr>) = jobs_ok r"
  "jobs_ok (r\<lparr>through := x_through\<rparr>) = jobs_ok r"
  "jobs_ok (r\<lparr>caughtUp := x_caughtUp\<rparr>) = jobs_ok r"
  "jobs_ok (r\<lparr>lastMessage := x_lastMessage\<rparr>) = jobs_ok r"
  "jobs_ok (r\<lparr>opened := x_opened\<rparr>) = jobs_ok r"
  "jobs_ok (r\<lparr>rsocket := x_rsocket\<rparr>) = jobs_ok r"
  "jobs_ok (r\<lparr>retry := x_retry\<rparr>) = jobs_ok r"
  "jobs_ok (r\<lparr>rerror := x_rerror\<rparr>) = jobs_ok r"
  "jobs_ok (r\<lparr>seen := x_seen\<rparr>) = jobs_ok r"
  "jobs_ok (r\<lparr>listeners := x_listeners\<rparr>) = jobs_ok r"
  "jobs_ok (r\<lparr>sent := x_sent\<rparr>) = jobs_ok r"
  "jobs_ok (r\<lparr>changes := x_changes\<rparr>) = jobs_ok r"
  by (simp_all add: jobs_ok_def)

lemma cursor_ok_frame [simp]:
  "cursor_ok cfg (r\<lparr>lastMessage := x_lastMessage\<rparr>) = cursor_ok cfg r"
  "cursor_ok cfg (r\<lparr>opened := x_opened\<rparr>) = cursor_ok cfg r"
  "cursor_ok cfg (r\<lparr>generation := x_generation\<rparr>) = cursor_ok cfg r"
  "cursor_ok cfg (r\<lparr>pending := x_pending\<rparr>) = cursor_ok cfg r"
  "cursor_ok cfg (r\<lparr>queue := x_queue\<rparr>) = cursor_ok cfg r"
  "cursor_ok cfg (r\<lparr>orphans := x_orphans\<rparr>) = cursor_ok cfg r"
  "cursor_ok cfg (r\<lparr>rsocket := x_rsocket\<rparr>) = cursor_ok cfg r"
  "cursor_ok cfg (r\<lparr>retry := x_retry\<rparr>) = cursor_ok cfg r"
  "cursor_ok cfg (r\<lparr>rerror := x_rerror\<rparr>) = cursor_ok cfg r"
  "cursor_ok cfg (r\<lparr>seen := x_seen\<rparr>) = cursor_ok cfg r"
  "cursor_ok cfg (r\<lparr>listeners := x_listeners\<rparr>) = cursor_ok cfg r"
  "cursor_ok cfg (r\<lparr>sent := x_sent\<rparr>) = cursor_ok cfg r"
  "cursor_ok cfg (r\<lparr>changes := x_changes\<rparr>) = cursor_ok cfg r"
  by (simp_all add: cursor_ok_def split: option.split)

lemma awaits_next_frame [simp]:
  "awaits_next cfg (r\<lparr>lastMessage := x_lastMessage\<rparr>) n = awaits_next cfg r n"
  "awaits_next cfg (r\<lparr>opened := x_opened\<rparr>) n = awaits_next cfg r n"
  "awaits_next cfg (r\<lparr>generation := x_generation\<rparr>) n = awaits_next cfg r n"
  "awaits_next cfg (r\<lparr>pending := x_pending\<rparr>) n = awaits_next cfg r n"
  "awaits_next cfg (r\<lparr>queue := x_queue\<rparr>) n = awaits_next cfg r n"
  "awaits_next cfg (r\<lparr>orphans := x_orphans\<rparr>) n = awaits_next cfg r n"
  "awaits_next cfg (r\<lparr>rsocket := x_rsocket\<rparr>) n = awaits_next cfg r n"
  "awaits_next cfg (r\<lparr>retry := x_retry\<rparr>) n = awaits_next cfg r n"
  "awaits_next cfg (r\<lparr>rerror := x_rerror\<rparr>) n = awaits_next cfg r n"
  "awaits_next cfg (r\<lparr>seen := x_seen\<rparr>) n = awaits_next cfg r n"
  "awaits_next cfg (r\<lparr>listeners := x_listeners\<rparr>) n = awaits_next cfg r n"
  "awaits_next cfg (r\<lparr>sent := x_sent\<rparr>) n = awaits_next cfg r n"
  "awaits_next cfg (r\<lparr>changes := x_changes\<rparr>) n = awaits_next cfg r n"
  by (simp_all add: awaits_next_def split: option.split)

lemma phase_ok_frame [simp]:
  "phase_ok cfg verify (r\<lparr>lastMessage := x_lastMessage\<rparr>) ph = phase_ok cfg verify r ph"
  "phase_ok cfg verify (r\<lparr>opened := x_opened\<rparr>) ph = phase_ok cfg verify r ph"
  "phase_ok cfg verify (r\<lparr>generation := x_generation\<rparr>) ph = phase_ok cfg verify r ph"
  "phase_ok cfg verify (r\<lparr>pending := x_pending\<rparr>) ph = phase_ok cfg verify r ph"
  "phase_ok cfg verify (r\<lparr>queue := x_queue\<rparr>) ph = phase_ok cfg verify r ph"
  "phase_ok cfg verify (r\<lparr>orphans := x_orphans\<rparr>) ph = phase_ok cfg verify r ph"
  "phase_ok cfg verify (r\<lparr>rsocket := x_rsocket\<rparr>) ph = phase_ok cfg verify r ph"
  "phase_ok cfg verify (r\<lparr>retry := x_retry\<rparr>) ph = phase_ok cfg verify r ph"
  "phase_ok cfg verify (r\<lparr>rerror := x_rerror\<rparr>) ph = phase_ok cfg verify r ph"
  "phase_ok cfg verify (r\<lparr>seen := x_seen\<rparr>) ph = phase_ok cfg verify r ph"
  "phase_ok cfg verify (r\<lparr>listeners := x_listeners\<rparr>) ph = phase_ok cfg verify r ph"
  "phase_ok cfg verify (r\<lparr>sent := x_sent\<rparr>) ph = phase_ok cfg verify r ph"
  "phase_ok cfg verify (r\<lparr>changes := x_changes\<rparr>) ph = phase_ok cfg verify r ph"
  by (cases ph; simp add: phase_ok_def)+

lemma chain_ok_frame [simp]:
  "chain_ok cfg verify (r\<lparr>lastMessage := x_lastMessage\<rparr>) = chain_ok cfg verify r"
  "chain_ok cfg verify (r\<lparr>opened := x_opened\<rparr>) = chain_ok cfg verify r"
  "chain_ok cfg verify (r\<lparr>generation := x_generation\<rparr>) = chain_ok cfg verify r"
  "chain_ok cfg verify (r\<lparr>pending := x_pending\<rparr>) = chain_ok cfg verify r"
  "chain_ok cfg verify (r\<lparr>orphans := x_orphans\<rparr>) = chain_ok cfg verify r"
  "chain_ok cfg verify (r\<lparr>rsocket := x_rsocket\<rparr>) = chain_ok cfg verify r"
  "chain_ok cfg verify (r\<lparr>retry := x_retry\<rparr>) = chain_ok cfg verify r"
  "chain_ok cfg verify (r\<lparr>rerror := x_rerror\<rparr>) = chain_ok cfg verify r"
  "chain_ok cfg verify (r\<lparr>seen := x_seen\<rparr>) = chain_ok cfg verify r"
  "chain_ok cfg verify (r\<lparr>listeners := x_listeners\<rparr>) = chain_ok cfg verify r"
  "chain_ok cfg verify (r\<lparr>sent := x_sent\<rparr>) = chain_ok cfg verify r"
  "chain_ok cfg verify (r\<lparr>changes := x_changes\<rparr>) = chain_ok cfg verify r"
  by (simp_all add: chain_ok_def split: list.split)

lemma socket_ok_frame [simp]:
  "socket_ok run (r\<lparr>rcursor := x_rcursor\<rparr>) = socket_ok run r"
  "socket_ok run (r\<lparr>lastMessage := x_lastMessage\<rparr>) = socket_ok run r"
  "socket_ok run (r\<lparr>opened := x_opened\<rparr>) = socket_ok run r"
  "socket_ok run (r\<lparr>pending := x_pending\<rparr>) = socket_ok run r"
  "socket_ok run (r\<lparr>orphans := x_orphans\<rparr>) = socket_ok run r"
  "socket_ok run (r\<lparr>rerror := x_rerror\<rparr>) = socket_ok run r"
  "socket_ok run (r\<lparr>seen := x_seen\<rparr>) = socket_ok run r"
  "socket_ok run (r\<lparr>sent := x_sent\<rparr>) = socket_ok run r"
  "socket_ok run (r\<lparr>changes := x_changes\<rparr>) = socket_ok run r"
  by (simp_all add: socket_ok_def split: option.split)

lemma inv_new_relay: "relay_inv cfg verify run (new_relay u)"
  by (simp add: inv_defs new_relay_def MAX_PENDING_def)

lemma jobs_ok_lose: "jobs_ok r \<Longrightarrow> jobs_ok (lose run r reason again)"
  by (auto simp: lose_def changed_def jobs_ok_def Let_def less_Suc_eq)

lemma inv_lose:
  assumes "relay_inv cfg verify run' r" and "again \<longrightarrow> run = run'" 
  shows "relay_inv cfg verify run (lose run r reason again)"
proof -
  have "jobs_ok (lose run r reason again)"
    using assms(1) by (simp add: relay_inv_def jobs_ok_lose)
  moreover have "socket_ok run (lose run r reason again)"
    using assms(1) by (auto simp: lose_def changed_def Let_def relay_inv_def socket_ok_def)
  moreover have "cursor_ok cfg (lose run r reason again)"
    using assms(1) by (auto simp: lose_def changed_def Let_def relay_inv_def cursor_ok_def split: option.splits)
  moreover have "chain_ok cfg verify (lose run r reason again)"
    by (auto simp: lose_def changed_def Let_def chain_ok_def)
  ultimately show ?thesis by (simp add: relay_inv_def)
qed


lemma inv_connect:
  assumes "relay_inv cfg verify run r" and "rsocket r = None"
  shows "relay_inv cfg verify True (connect True now refused (r\<lparr>retry := False\<rparr>))"
proof -
  let ?r = "r\<lparr>retry := False, generation := Suc (generation r), opened := Some now, lastMessage := None,
              rerror := Some ''synchronizing''\<rparr>"
  have base: "relay_inv cfg verify True ?r"
    using assms by (auto simp: relay_inv_def jobs_ok_def socket_ok_def chain_ok_def less_SucI)
  show ?thesis
  proof (cases "url r \<in> set refused")
    case True
    then show ?thesis
      using inv_lose [OF base, of True True] by (simp add: connect_def Let_def)
  next
    case False
    then show ?thesis
      using base assms by (simp add: connect_def Let_def relay_inv_def socket_ok_def)
  qed
qed

lemma inv_checkStaleness_relay:
  assumes "relay_inv cfg verify run r"
  shows "relay_inv cfg verify run (checkStaleness_relay cfg run now r)"
  using assms inv_lose [OF assms]
  by (auto simp: checkStaleness_relay_def Let_def split: option.splits)

lemma inv_set_ready: "relay_inv cfg verify run r \<Longrightarrow> relay_inv cfg verify run (set_ready g st r)"
  by (auto simp: set_ready_def relay_inv_def socket_ok_def split: option.splits)

lemma inv_on_open: "relay_inv cfg verify run r \<Longrightarrow> relay_inv cfg verify run (on_open cfg run ok g r)"
  using inv_lose [of cfg verify run r True run]
  by (auto simp: on_open_def relay_inv_def)

lemma inv_on_close: "relay_inv cfg verify run r \<Longrightarrow> relay_inv cfg verify run (on_close run g r)"
  using inv_lose [of cfg verify run r True run] by (simp add: on_close_def)

lemma inv_on_error: "relay_inv cfg verify run r \<Longrightarrow> relay_inv cfg verify run (on_error run g r)"
  using inv_lose [of cfg verify run r True run] by (simp add: on_error_def)

text \<open>Losing a relay does not read the pending counter or the queue, so it restores the invariant
  from a relay in which only these are out of step.\<close>

lemma lose_pending: "lose run (r\<lparr>pending := n\<rparr>) reason again = lose run r reason again"
  by (simp add: lose_def changed_def Let_def)

lemma inv_on_message:
  assumes inv: "relay_inv cfg verify run r" and g: "g \<in> set (listeners r)"
  shows "relay_inv cfg verify run (on_message run now g data r)"
proof (cases "current run r g")
  case False
  with inv show ?thesis by (simp add: on_message_def)
next
  case cur: True
  note lost = inv_lose [OF inv, of False run]
  show ?thesis
  proof (cases data)
    case BinaryFrame
    with cur lost show ?thesis by (simp add: on_message_def)
  next
    case (TextFrame t)
    show ?thesis
    proof (cases "MAX_FRAME < length t \<or> MAX_PENDING \<le> pending r")
      case True
      with cur TextFrame lost show ?thesis
        by (auto simp: on_message_def lose_pending Let_def)
    next
      case False
      with cur TextFrame inv g show ?thesis
        by (auto simp: on_message_def changed_def current_def relay_inv_def jobs_ok_def socket_ok_def
            chain_ok_def Let_def split: option.splits list.splits)
    qed
  qed
qed

section \<open>What an accepted message does\<close>

lemma sequenceD:
  assumes "sequence v n"
  shows "v = Some (jnat (num_nat (the v)))" and "num_nat (the v) \<le> n"
proof -
  from assms obtain r where r: "v = Some (JNum r)" "is_safe_integer (JNum r)" "0 \<le> r" "r \<le> of_nat n"
    by (auto simp: sequence_def split: option.splits json.splits)
  have j: "JNum r = jnat (num_nat (JNum r))"
    by (rule safe_integer_nonneg [OF r(2) refl r(3)])
  then show "v = Some (jnat (num_nat (the v)))"
    using r by simp
  from j r have "(of_nat (num_nat (JNum r)) :: rat) \<le> of_nat n" by simp
  then show "num_nat (the v) \<le> n"
    using r by (simp only: of_nat_le_iff option.sel)
qed

lemma sameCursor_iff: "sameCursor a b \<Longrightarrow> a = Some b"
  by (cases a) (auto simp: sameCursor_def dest: strict_eq_imp_eq)

lemma check_receiptD:
  assumes "check_receipt cfg v = Inr rc"
  shows "receipt_ok cfg rc"
  using assms by (auto simp: check_receipt_def receipt_ok_def res_simps split: option.splits json.splits)

lemma process_beginD:
  assumes "process_begin cfg r m = Inr r'"
  obtains c th where "r' = r\<lparr>rcursor := Some c, through := Some th, caughtUp := False\<rparr>"
    and "through r = None" and "seq c \<le> th" and "th \<le> max_seq cfg" and "HASH_test (stream c)"
    and "case rcursor r of None \<Rightarrow> seq c = 0 | Some c' \<Rightarrow> c' = c"
proof
  let ?c = "\<lparr>stream = the (jget m ''stream''), seq = num_nat (the (jget m ''from''))\<rparr>"
  from assms show "r' = r\<lparr>rcursor := Some ?c, through := Some (num_nat (the (jget m ''through''))), caughtUp := False\<rparr>"
    and "through r = None" and "seq ?c \<le> num_nat (the (jget m ''through''))"
    and "num_nat (the (jget m ''through'')) \<le> max_seq cfg" and "HASH_test (stream ?c)"
    by (auto simp: process_begin_def res_simps Let_def dest: sequenceD split: option.splits)
  show "case rcursor r of None \<Rightarrow> seq ?c = 0 | Some c' \<Rightarrow> c' = ?c"
    using assms
    by (auto simp: process_begin_def res_simps Let_def dest!: sameCursor_iff split: option.splits)
qed

lemma process_eventD:
  assumes "process_event cfg r m = Inr ph"
  obtains n rc cw where "ph = AwaitReceipt n rc cw" and "awaits_next cfg r n"
    and "receipt_ok cfg rc"
  using assms
  by (fastforce simp: process_event_def res_simps Let_def awaits_next_def
      dest: sequenceD check_receiptD split: option.splits)

lemma process_caught_upD:
  assumes "process_caught_up cfg r m = Inr r'"
  obtains c where "r' = r\<lparr>caughtUp := True\<rparr>" and "\<not> caughtUp r" and "rcursor r = Some c" and "through r = Some (seq c)"
  using assms by (auto simp: process_caught_up_def res_simps dest!: sameCursor_iff)

lemma process_heartbeatD: "process_heartbeat cfg r m = Inr r' \<Longrightarrow> r' = r \<and> caughtUp r"
  by (auto simp: process_heartbeat_def res_simps)

lemma dispatch_cases:
  "(if a then x1 else if b then x2 else if c then x3 else if d then x4 else Inl err) = Inr y \<Longrightarrow>
     x1 = Inr y \<or> x2 = Inr y \<or> x3 = Inr y \<or> x4 = Inr y"
  by (auto split: if_splits)

lemma process_cases:
  assumes "process cfg r m = Inr (r', ph)"
  obtains (beginning) "process_begin cfg r m = Inr r'" "ph = Returned"
    | (event) "process_event cfg r m = Inr ph" "r' = r"
    | (caught_up) "process_caught_up cfg r m = Inr r'" "ph = Returned"
    | (heartbeat) "process_heartbeat cfg r m = Inr r'" "ph = Returned"
  using dispatch_cases [OF assms [unfolded process_def Let_def]] by (auto simp: res_simps)

lemma processD:
  assumes "process cfg r m = Inr (r', ph)" and "cursor_ok cfg r"
  shows "cursor_ok cfg r'" and "phase_ok cfg verify r' ph"
    and "\<exists>c th b. r' = r\<lparr>rcursor := c, through := th, caughtUp := b\<rparr>"
proof -
  from assms(1) have "cursor_ok cfg r' \<and> phase_ok cfg verify r' ph \<and> (\<exists>c th b. r' = r\<lparr>rcursor := c, through := th, caughtUp := b\<rparr>)"
  proof (cases rule: process_cases)
    case beginning
    from beginning(1) show ?thesis
      by (rule process_beginD) (use beginning(2) in \<open>auto simp: cursor_ok_def\<close>)
  next
    case event
    have "r = r\<lparr>rcursor := rcursor r, through := through r, caughtUp := caughtUp r\<rparr>" by simp
    moreover from event(1) have "phase_ok cfg verify r ph" by (rule process_eventD) simp
    ultimately show ?thesis using event(2) assms(2) by blast
  next
    case caught_up
    from caught_up(1) show ?thesis
    proof (rule process_caught_upD)
      fix c'
      assume "r' = r\<lparr>caughtUp := True\<rparr>" and "rcursor r = Some c'" and "through r = Some (seq c')"
      moreover from this have "r' = r\<lparr>rcursor := rcursor r, through := through r, caughtUp := True\<rparr>" by simp
      ultimately show ?thesis using caught_up(2) assms(2) by (auto simp: cursor_ok_def)
    qed
  next
    case heartbeat
    have "r = r\<lparr>rcursor := rcursor r, through := through r, caughtUp := caughtUp r\<rparr>" by simp
    moreover have "r' = r" using process_heartbeatD [OF heartbeat(1)] by simp
    moreover have "phase_ok cfg verify r' ph" using heartbeat(2) by simp
    ultimately show ?thesis using assms(2) by blast
  qed
  then show "cursor_ok cfg r'" and "phase_ok cfg verify r' ph"
    and "\<exists>c th b. r' = r\<lparr>rcursor := c, through := th, caughtUp := b\<rparr>" by blast+
qed

section \<open>Preservation by the promise chain\<close>

lemma remember_eq:
  "remember ev r rc = (ev', r') \<Longrightarrow> \<exists>s. r' = r\<lparr>seen := s\<rparr>"
  by (auto simp: remember_def Let_def)

lemma accept_event_eq:
  assumes "accept_event run ev r g n rc other = (ev', r')" and "current run r g"
  obtains s where "r' = r\<lparr>rcursor := map_option (\<lambda>c. c\<lparr>seq := n\<rparr>) (rcursor r), seen := s\<rparr>"
proof -
  have "\<exists>s. r' = r\<lparr>seen := s, rcursor := map_option (\<lambda>c. c\<lparr>seq := n\<rparr>) (rcursor r)\<rparr>"
    using assms by (fastforce simp: accept_event_def split: prod.splits option.splits dest!: remember_eq)
  then obtain s where "r' = r\<lparr>seen := s, rcursor := map_option (\<lambda>c. c\<lparr>seq := n\<rparr>) (rcursor r)\<rparr>" ..
  then show thesis by (intro that [of s]) simp
qed

lemma accept_event_late: "\<not> current run r g \<Longrightarrow> accept_event run ev r g n rc other = (ev, r)"
  by (simp add: accept_event_def)

lemma cursor_ok_advance:
  assumes "cursor_ok cfg r" and "awaits_next cfg r n"
  shows "cursor_ok cfg (r\<lparr>rcursor := map_option (\<lambda>c. c\<lparr>seq := n\<rparr>) (rcursor r)\<rparr>)"
  using assms by (auto simp: cursor_ok_def awaits_next_def split: option.splits if_splits)

lemma inv_queue_head:
  assumes "relay_inv cfg verify run r" and "queue r = j # js"
  shows "current run r (job_generation j)" and "phase_ok cfg verify r (job_phase j)"
    and "relay_inv cfg verify run (r\<lparr>queue := js, pending := pending r - 1\<rparr>)"
    and "\<forall>j' \<in> set js. \<exists>t. job_phase j' = Queued t" and "rsocket r \<noteq> None"
proof -
  show sock: "rsocket r \<noteq> None"
    using assms by (auto simp: relay_inv_def socket_ok_def split: option.splits)
  show "current run r (job_generation j)" and "phase_ok cfg verify r (job_phase j)"
    and tail: "\<forall>j' \<in> set js. \<exists>t. job_phase j' = Queued t"
    using assms sock by (auto simp: current_def relay_inv_def jobs_ok_def socket_ok_def chain_ok_def)
  have "chain_ok cfg verify (r\<lparr>queue := js\<rparr>)"
    using tail by (fastforce simp: chain_ok_def split: list.splits)
  then show "relay_inv cfg verify run (r\<lparr>queue := js, pending := pending r - 1\<rparr>)"
    using assms sock by (auto simp: relay_inv_def jobs_ok_def socket_ok_def split: option.splits)
qed

text \<open>The job at the head of the live chain moves to its next phase and leaves the rest in place.\<close>

lemma inv_next_phase:
  assumes "relay_inv cfg verify run r" and "queue r = j # js" and "cursor_ok cfg r'" and "phase_ok cfg verify r' ph"
    and "r' = r\<lparr>rcursor := c, through := th, caughtUp := b, seen := s\<rparr>"
  shows "relay_inv cfg verify run (r'\<lparr>queue := j\<lparr>job_phase := ph\<rparr> # js\<rparr>)"
  using assms inv_queue_head [OF assms(1,2)]
  by (auto simp: relay_inv_def jobs_ok_def socket_ok_def chain_ok_def split: option.splits)

lemma inv_same_phase:
  assumes "relay_inv cfg verify run r" and "queue r = j # js" and "phase_ok cfg verify r ph"
  shows "relay_inv cfg verify run (r\<lparr>queue := j\<lparr>job_phase := ph\<rparr> # js\<rparr>)"
  by (rule inv_next_phase [OF assms(1,2) _ assms(3), where s = "seen r" and c = "rcursor r" and th = "through r"
        and b = "caughtUp r"]) (use assms(1) in \<open>simp_all add: relay_inv_def\<close>)

lemma inv_accept:
  assumes inv: "relay_inv cfg verify run r" and q: "queue r = j # js" and nxt: "awaits_next cfg r n"
    and acc: "accept_event run ev (r\<lparr>queue := js\<rparr>) (job_generation j) n rc other = (ev', r')"
  shows "relay_inv cfg verify run (r'\<lparr>queue := j\<lparr>job_phase := Returned\<rparr> # queue r'\<rparr>)"
proof -
  have "current run (r\<lparr>queue := js\<rparr>) (job_generation j)"
    using inv_queue_head(1) [OF inv q] by (simp add: current_def)
  from accept_event_eq [OF acc this] obtain s
    where r': "r' = r\<lparr>queue := js, rcursor := map_option (\<lambda>c. c\<lparr>seq := n\<rparr>) (rcursor r), seen := s\<rparr>" by auto
  have "relay_inv cfg verify run (r\<lparr>rcursor := map_option (\<lambda>c. c\<lparr>seq := n\<rparr>) (rcursor r),
      through := through r, caughtUp := caughtUp r, seen := s, queue := j\<lparr>job_phase := Returned\<rparr> # js\<rparr>)"
    by (rule inv_next_phase [OF inv q _ _ refl])
      (use cursor_ok_advance [OF _ nxt] inv in \<open>simp_all add: relay_inv_def\<close>)
  then show ?thesis using r' by simp
qed

lemma inv_run_queue:
  assumes inv: "relay_inv cfg verify run r" and run: "run_queue cfg verify run now ev r = (ev', r')"
  shows "relay_inv cfg verify run r'"
proof (cases "queue r")
  case Nil
  with inv run show ?thesis by (simp add: run_queue_def)
next
  case (Cons j js)
  note q = Cons and head = inv_queue_head [OF inv Cons]
  have cur: "current run (r\<lparr>queue := js\<rparr>) (job_generation j)"
    using head(1) by (simp add: current_def)
  note reject = inv_same_phase [OF inv q, of Rejected]
  note defs = run_queue_def run_job_def continue_chain_def Let_def
  show ?thesis
  proof (cases "job_phase j")
    case (Queued t)
    show ?thesis
    proof (cases "\<exists>m r1 ph. json_parse t = Some m \<and> process cfg (r\<lparr>queue := js\<rparr>) m = Inr (r1, ph)
        \<and> now - receivedAt j < staleMs cfg")
      case False
      with run q cur Queued reject show ?thesis
        by (auto simp: defs split: if_splits option.splits sum.splits prod.splits)
    next
      case True
      then obtain m r1 ph where ok: "json_parse t = Some m" "process cfg (r\<lparr>queue := js\<rparr>) m = Inr (r1, ph)"
        "now - receivedAt j < staleMs cfg" by blast
      have c: "cursor_ok cfg (r\<lparr>queue := js\<rparr>)" using inv by (simp add: relay_inv_def)
      from processD(3) [OF ok(2) c] obtain c th b
        where "r1 = r\<lparr>queue := js, rcursor := c, through := th, caughtUp := b\<rparr>" by auto
      then have r1: "r1 = r\<lparr>rcursor := c, through := th, caughtUp := b, queue := js\<rparr>" by simp
      have "relay_inv cfg verify run (r\<lparr>rcursor := c, through := th, caughtUp := b, seen := seen r,
          queue := j\<lparr>job_phase := ph\<rparr> # js\<rparr>)"
        by (rule inv_next_phase [OF inv q _ _ refl])
          (use processD(1) [OF ok(2) c] processD(2) [OF ok(2) c, of verify] r1 in \<open>simp_all\<close>)
      moreover have "r' = r1\<lparr>queue := j\<lparr>job_phase := ph\<rparr> # queue r1\<rparr>"
        using run q cur Queued ok by (simp add: defs)
      ultimately show ?thesis using r1 by simp
    qed
  next
    case (AwaitReceipt n rc cw)
    with head have nxt: "awaits_next cfg r n" "receipt_ok cfg rc" by simp_all
    from run q AwaitReceipt nxt inv_accept [OF inv q nxt(1), of _ rc None] reject
      inv_same_phase [OF inv q, of "AwaitConflict n rc _"]
    show ?thesis
      by (auto simp: defs dest: check_receiptD split: if_splits sum.splits prod.splits)
  next
    case (AwaitConflict n rc other)
    with head have nxt: "awaits_next cfg r n" by simp
    from run q AwaitConflict inv_accept [OF inv q nxt, of _ rc "Some other"] reject
    show ?thesis
      by (auto simp: defs split: if_splits prod.splits)
  next
    case Returned
    show ?thesis
    proof (cases "now - receivedAt j < staleMs cfg")
      case True
      then have "r' = (r\<lparr>queue := js, pending := pending r - 1\<rparr>)\<lparr>lastMessage := Some (receivedAt j),
          rerror := (if caughtUp r then None else Some ''synchronizing''), changes := Suc (changes r)\<rparr>"
        using run q Returned cur by (auto simp: defs changed_def)
      with head(3) show ?thesis by (simp add: relay_inv_def)
    next
      case False
      with run q Returned cur reject show ?thesis by (simp add: defs)
    qed
  next
    case Rejected
    have "r' = lose run (r\<lparr>queue := js, pending := pending r - 1\<rparr>)
        ''invalid protocol/evidence; revalidation required'' False"
      using run q cur Rejected by (auto simp: defs lose_def changed_def)
    then show ?thesis using inv_lose [OF head(3), of False run] by simp
  qed
qed

section \<open>Abandoned chains\<close>

text \<open>A job of an older generation changes neither the evidence nor the relay.\<close>

lemma run_job_late:
  assumes "\<not> current run r (job_generation j)"
  shows "\<exists>ph. run_job cfg verify run now ev r j = (ev, r, ph) \<and> (\<forall>n rc cw. ph \<noteq> Some (AwaitReceipt n rc cw))"
  using assms
  by (auto simp: run_job_def accept_event_late Let_def split: phase.splits option.splits sum.splits if_splits)

lemma orphan_not_current:
  assumes "relay_inv cfg verify run r" and "c \<in> set (orphans r)" and "j \<in> set c"
  shows "\<not> current run r (job_generation j)"
  using assms by (fastforce simp: current_def relay_inv_def jobs_ok_def)

lemma run_orphan_eq:
  assumes "relay_inv cfg verify run r"
  shows "\<exists>os. run_orphan cfg verify run now k ev r = (ev, r\<lparr>orphans := os\<rparr>)
    \<and> (\<forall>c \<in> set os. \<forall>j \<in> set c. job_generation j < generation r)"
proof (cases "k < length (orphans r) \<and> orphans r ! k \<noteq> []")
  case False
  have "r = r\<lparr>orphans := orphans r\<rparr>" by simp
  with False assms show ?thesis
    by (intro exI [of _ "orphans r"]) (auto simp: run_orphan_def relay_inv_def jobs_ok_def split: list.splits)
next
  case True
  then obtain j js where c: "orphans r ! k = j # js" by (cases "orphans r ! k") auto
  then have mem: "j # js \<in> set (orphans r)" using True by (metis nth_mem)
  then have "\<not> current run r (job_generation j)"
    using orphan_not_current [OF assms mem] by simp
  from run_job_late [OF this] obtain ph where job: "run_job cfg verify run now ev r j = (ev, r, ph)" by blast
  have old: "\<forall>c \<in> set (orphans r). \<forall>j \<in> set c. job_generation j < generation r"
    using assms by (simp add: relay_inv_def jobs_ok_def)
  have "\<forall>j' \<in> set (continue_chain j ph js). job_generation j' < generation r"
    using old mem by (fastforce simp: continue_chain_def split: option.splits)
  with old have "\<forall>c \<in> set ((orphans r)[k := continue_chain j ph js]). \<forall>j \<in> set c. job_generation j < generation r"
    by (metis set_update_subset_insert insert_iff subsetD)
  with True c job show ?thesis by (auto simp: run_orphan_def)
qed

lemma inv_run_orphan:
  assumes "relay_inv cfg verify run r" and "run_orphan cfg verify run now k ev r = (ev', r')"
  shows "relay_inv cfg verify run r'"
  using run_orphan_eq [OF assms(1), of now k ev] assms
  by (auto simp: relay_inv_def jobs_ok_def)

section \<open>Preservation by every turn\<close>

lemma inv_relay_step:
  assumes inv: "relay_inv cfg verify run r" and step: "relay_step cfg verify run ev r e = (ev', r')"
  shows "relay_inv cfg verify run r'"
proof (cases e)
  case (RetryTimer i now refused)
  show ?thesis
  proof (cases "retry r")
    case True
    with inv have "rsocket r = None" and "run"
      by (auto simp: relay_inv_def socket_ok_def split: option.splits)
    with inv_connect [OF inv, of now refused] RetryTimer step True show ?thesis
      by (simp add: relay_step_def)
  next
    case False
    with RetryTimer step inv show ?thesis by (simp add: relay_step_def)
  qed
qed (use inv step inv_run_queue [OF inv] inv_run_orphan [OF inv] in
    \<open>auto simp: relay_step_def listened_def inv_on_open inv_on_close inv_on_error inv_on_message inv_set_ready\<close>)

lemma inv_start:
  assumes "monitor_inv cfg verify m"
  shows "monitor_inv cfg verify (start now refused m)"
proof (cases "running m")
  case True
  with assms show ?thesis by (simp add: start_def)
next
  case False
  { fix r assume "r \<in> set (relays m)"
    with assms False have inv: "relay_inv cfg verify False r"
      by (auto simp: monitor_inv_def)
    with False have "rsocket r = None" and "\<not> retry r"
      by (auto simp: relay_inv_def socket_ok_def split: option.splits)
    moreover from this have "r = r\<lparr>retry := False\<rparr>" by simp
    ultimately have "relay_inv cfg verify True (connect True now refused r)"
      using inv_connect [OF inv, of now refused] by metis }
  with False show ?thesis by (auto simp: start_def monitor_inv_def)
qed

lemma inv_step: "monitor_inv cfg verify m \<Longrightarrow> monitor_inv cfg verify (step cfg verify m e)"
proof (cases "event_relay e")
  case None
  assume inv: "monitor_inv cfg verify m"
  have "monitor_inv cfg verify (stop m)"
    using inv inv_lose [of cfg verify "running m" _ False False]
    by (auto simp: stop_def monitor_inv_def)
  moreover have "monitor_inv cfg verify (checkStaleness cfg now m)" for now
    using inv inv_checkStaleness_relay by (auto simp: checkStaleness_def monitor_inv_def)
  ultimately show ?thesis
    using None inv_start [OF inv] by (cases e) (auto simp: step_def)
next
  case (Some i)
  assume inv: "monitor_inv cfg verify m"
  then have "step cfg verify m e =
      (if i < length (relays m) then
         (case relay_step cfg verify (running m) (evidence m) (relays m ! i) e of
            (ev, r) \<Rightarrow> m\<lparr>evidence := ev, relays := (relays m)[i := r]\<rparr>)
       else m)"
    using Some by (cases e) (auto simp: step_def)
  with inv show ?thesis
    by (auto simp: monitor_inv_def split: prod.splits dest!: subsetD [OF set_update_subset_insert]
        intro: inv_relay_step)
qed

lemma inv_run_turns: "monitor_inv cfg verify m \<Longrightarrow> monitor_inv cfg verify (run_turns cfg verify m es)"
  by (induction es arbitrary: m) (simp_all add: inv_step)

lemma inv_new_monitor: "new_monitor new_URL a = Inr (cfg, m) \<Longrightarrow> monitor_inv cfg verify m"
  by (auto simp: new_monitor_def res_simps monitor_inv_def inv_new_relay)

end
