(* ===== verification/Monitor_History.thy ===== *)
theory Monitor_History
  imports Monitor_Inv
begin

text \<open>
  What the monitor keeps is a function of what it accepted. The history of a run lists, turn by
  turn, the relay index and the event that the turn accepted: its number, its receipt and the
  conflicting receipt it carried. The retained evidence of \<^verbatim>\<open>client/monitor.mjs\<close> is the
  replay of all accepted receipts, the \<open>seen\<close> sets of a relay are the replay of its own, and
  its cursor is the number of its last accepted event.
\<close>

type_synonym accepted = "nat \<times> receipt \<times> receipt option"

definition job_accepts :: "(receipt \<Rightarrow> bool) \<Rightarrow> bool \<Rightarrow> relay \<Rightarrow> job \<Rightarrow> accepted list" where
  "job_accepts verify run r j =
     (if \<not> current run r (job_generation j) then []
      else (case job_phase j of
          AwaitReceipt n rc cw \<Rightarrow> if verify rc \<and> cw = Some JNull then [(n, rc, None)] else []
        | AwaitConflict n rc rc' \<Rightarrow>
            if verify rc' \<and> bond rc' = bond rc \<and> \<not> strict_eq (txid rc') (txid rc)
            then [(n, rc, Some rc')] else []
        | _ \<Rightarrow> []))"

definition chain_accepts :: "(receipt \<Rightarrow> bool) \<Rightarrow> bool \<Rightarrow> relay \<Rightarrow> job list \<Rightarrow> accepted list" where
  "chain_accepts verify run r js = (case js of [] \<Rightarrow> [] | j # _ \<Rightarrow> job_accepts verify run r j)"

definition relay_accepts :: "(receipt \<Rightarrow> bool) \<Rightarrow> bool \<Rightarrow> relay \<Rightarrow> event \<Rightarrow> accepted list" where
  "relay_accepts verify run r e =
     (case e of
        RunQueue _ _ \<Rightarrow> chain_accepts verify run r (queue r)
      | RunOrphan _ k _ \<Rightarrow> if k < length (orphans r) then chain_accepts verify run r (orphans r ! k) else []
      | _ \<Rightarrow> [])"

definition turn_accepts :: "(receipt \<Rightarrow> bool) \<Rightarrow> monitor \<Rightarrow> event \<Rightarrow> (nat \<times> accepted) list" where
  "turn_accepts verify m e =
     (case event_relay e of
        Some i \<Rightarrow> if i < length (relays m)
                   then map (Pair i) (relay_accepts verify (running m) (relays m ! i) e) else []
      | None \<Rightarrow> [])"

fun history :: "config \<Rightarrow> (receipt \<Rightarrow> bool) \<Rightarrow> monitor \<Rightarrow> event list \<Rightarrow> (nat \<times> accepted) list" where
  "history cfg verify m [] = []"
| "history cfg verify m (e # es) = turn_accepts verify m e @ history cfg verify (step cfg verify m e) es"

definition accepted_receipts :: "accepted list \<Rightarrow> receipt list" where
  "accepted_receipts as = concat (map (\<lambda>(n, rc, oth). rc # (case oth of None \<Rightarrow> [] | Some rc' \<Rightarrow> [rc'])) as)"

definition at_relay :: "nat \<Rightarrow> (nat \<times> accepted) list \<Rightarrow> accepted list" where
  "at_relay i h = map snd (filter (\<lambda>x. fst x = i) h)"

text \<open>\<open>#remember\<close>, one side at a time.\<close>

definition remember_evidence :: "evidence_map \<Rightarrow> receipt \<Rightarrow> evidence_map" where
  "remember_evidence ev rc =
     (let e = bond_evidence ev (bond rc)
      in map_set (=) ev (bond rc) (if length e < 2 then map_set strict_eq e (txid rc) rc else e))"

definition remember_seen :: "(string \<times> json list) list \<Rightarrow> receipt \<Rightarrow> (string \<times> json list) list" where
  "remember_seen sn rc =
     (let s = (case map_get (=) sn (bond rc) of None \<Rightarrow> [] | Some s \<Rightarrow> s)
      in map_set (=) sn (bond rc) (if length s < 2 then set_add strict_eq s (txid rc) else s))"

definition last_seq :: "relay \<Rightarrow> nat" where
  "last_seq r = (case rcursor r of None \<Rightarrow> 0 | Some c \<Rightarrow> seq c)"

text \<open>A relay's cursor never goes back and never moves to another stream.\<close>

definition cursor_extends :: "cursor option \<Rightarrow> cursor option \<Rightarrow> bool" where
  "cursor_extends a b = (case a of None \<Rightarrow> True | Some c \<Rightarrow> (\<exists>c'. b = Some c' \<and> stream c' = stream c \<and> seq c \<le> seq c'))"

lemma remember_split: "remember ev r rc = (remember_evidence ev rc, r\<lparr>seen := remember_seen (seen r) rc\<rparr>)"
  by (simp add: remember_def remember_evidence_def remember_seen_def bond_seen_def Let_def)

lemma accept_event_split:
  assumes "current run r g"
  shows "accept_event run ev r g n rc oth =
    (foldl remember_evidence ev (accepted_receipts [(n, rc, oth)]),
     r\<lparr>rcursor := map_option (\<lambda>c. c\<lparr>seq := n\<rparr>) (rcursor r),
       seen := foldl remember_seen (seen r) (accepted_receipts [(n, rc, oth)])\<rparr>)"
  using assms by (auto simp: accept_event_def remember_split accepted_receipts_def split: option.split)

lemma lose_keeps [simp]:
  "rcursor (lose run r reason again) = rcursor r"
  "seen (lose run r reason again) = seen r"
  "url (lose run r reason again) = url r"
  by (simp_all add: lose_def changed_def Let_def)

lemma connect_keeps [simp]:
  "rcursor (connect run now refused r) = rcursor r"
  "seen (connect run now refused r) = seen r"
  "url (connect run now refused r) = url r"
  by (simp_all add: connect_def Let_def)

lemma socket_events_keep [simp]:
  "rcursor (set_ready g st r) = rcursor r" "seen (set_ready g st r) = seen r" "url (set_ready g st r) = url r"
  "rcursor (on_open cfg run ok g r) = rcursor r" "seen (on_open cfg run ok g r) = seen r" "url (on_open cfg run ok g r) = url r"
  "rcursor (on_close run g r) = rcursor r" "seen (on_close run g r) = seen r" "url (on_close run g r) = url r"
  "rcursor (on_error run g r) = rcursor r" "seen (on_error run g r) = seen r" "url (on_error run g r) = url r"
  "rcursor (on_message run now g d r) = rcursor r" "seen (on_message run now g d r) = seen r" "url (on_message run now g d r) = url r"
  "rcursor (checkStaleness_relay cfg run now r) = rcursor r"
  "seen (checkStaleness_relay cfg run now r) = seen r"
  "url (checkStaleness_relay cfg run now r) = url r"
  by (auto simp: set_ready_def on_open_def on_close_def on_error_def on_message_def checkStaleness_relay_def
      changed_def Let_def split: option.split ws_data.split)

text \<open>The effect of one turn on one relay: what it accepted accounts for every change of the
  retained state.\<close>

definition effect_ok :: "evidence_map \<Rightarrow> relay \<Rightarrow> accepted list \<Rightarrow> evidence_map \<Rightarrow> relay \<Rightarrow> bool" where
  "effect_ok ev r as ev' r' \<longleftrightarrow>
     ev' = foldl remember_evidence ev (accepted_receipts as)
     \<and> seen r' = foldl remember_seen (seen r) (accepted_receipts as)
     \<and> map fst as = [Suc (last_seq r)..<Suc (last_seq r')]
     \<and> cursor_extends (rcursor r) (rcursor r') \<and> url r' = url r"

lemma cursor_extends_refl [simp]: "cursor_extends a a"
  by (simp add: cursor_extends_def split: option.split)

lemma effect_ok_idle:
  "rcursor r' = rcursor r \<Longrightarrow> seen r' = seen r \<Longrightarrow> url r' = url r \<Longrightarrow> effect_ok ev r [] ev r'"
  by (simp add: effect_ok_def accepted_receipts_def last_seq_def)

lemma effect_ok_begin:
  assumes "process cfg r m = Inr (r', ph)"
  shows "effect_ok ev r [] ev r'" and "queue r' = queue r"
proof -
  from assms have "effect_ok ev r [] ev r' \<and> queue r' = queue r"
  proof (cases rule: process_cases)
    case beginning
    from beginning(1) show ?thesis
      by (rule process_beginD)
        (auto simp: effect_ok_def accepted_receipts_def last_seq_def cursor_extends_def split: option.splits)
  next
    case event
    then show ?thesis by (simp add: effect_ok_idle)
  next
    case caught_up
    from caught_up(1) show ?thesis by (rule process_caught_upD) (simp add: effect_ok_idle)
  next
    case heartbeat
    then show ?thesis using process_heartbeatD [OF heartbeat(1)] by (simp add: effect_ok_idle)
  qed
  then show "effect_ok ev r [] ev r'" and "queue r' = queue r" by auto
qed

lemma effect_ok_accept:
  assumes "awaits_next cfg r n" and "current run r g"
    and "accept_event run ev r g n rc oth = (ev', r')"
  shows "effect_ok ev r [(n, rc, oth)] ev' r'"
  using assms
  by (auto simp: accept_event_split effect_ok_def awaits_next_def last_seq_def cursor_extends_def split: option.splits)

lemma effect_ok_queue [simp]:
  "effect_ok ev (r\<lparr>queue := q\<rparr>) as ev' r' = effect_ok ev r as ev' r'"
  "effect_ok ev r as ev' (r'\<lparr>queue := q\<rparr>) = effect_ok ev r as ev' r'"
  by (simp_all add: effect_ok_def last_seq_def)

lemma run_job_effect:
  assumes "current run r (job_generation j)" and "phase_ok cfg verify r (job_phase j)"
    and "run_job cfg verify run now ev r j = (ev', r', ph)"
  shows "effect_ok ev r (job_accepts verify run r j) ev' r'"
proof (cases "job_phase j")
  case (Queued t)
  with assms effect_ok_begin(1) [of cfg r _ r'] show ?thesis
    by (auto simp: run_job_def job_accepts_def Let_def effect_ok_idle
        split: if_splits option.splits sum.splits prod.splits)
next
  case (AwaitReceipt n rc cw)
  then have "awaits_next cfg r n" using assms(2) by simp
  with AwaitReceipt assms effect_ok_accept [of cfg r n run _ ev rc None] show ?thesis
    by (auto simp: run_job_def job_accepts_def Let_def effect_ok_idle
        split: if_splits sum.splits prod.splits)
next
  case (AwaitConflict n rc rc')
  then have "awaits_next cfg r n" using assms(2) by simp
  with AwaitConflict assms effect_ok_accept [of cfg r n run _ ev rc "Some rc'"] show ?thesis
    by (auto simp: run_job_def job_accepts_def Let_def effect_ok_idle split: if_splits prod.splits)
next
  case Returned
  with assms show ?thesis
    by (auto simp: run_job_def job_accepts_def changed_def Let_def effect_ok_idle split: if_splits)
next
  case Rejected
  with assms show ?thesis
    by (auto simp: run_job_def job_accepts_def Let_def effect_ok_idle split: if_splits)
qed

lemma job_accepts_queue [simp]: "job_accepts verify run (r\<lparr>queue := q\<rparr>) j = job_accepts verify run r j"
  by (simp add: job_accepts_def current_def)

lemma run_queue_effect:
  assumes inv: "relay_inv cfg verify run r" and run: "run_queue cfg verify run now ev r = (ev', r')"
  shows "effect_ok ev r (chain_accepts verify run r (queue r)) ev' r'"
proof (cases "queue r")
  case Nil
  with run show ?thesis by (simp add: run_queue_def chain_accepts_def effect_ok_idle)
next
  case (Cons j js)
  obtain r1 ph where job: "run_job cfg verify run now ev (r\<lparr>queue := js\<rparr>) j = (ev', r1, ph)"
    and r': "\<exists>q. r' = r1\<lparr>queue := q\<rparr>"
    using run Cons by (auto simp: run_queue_def split: prod.splits)
  have "effect_ok ev (r\<lparr>queue := js\<rparr>) (job_accepts verify run (r\<lparr>queue := js\<rparr>) j) ev' r1"
    by (rule run_job_effect [OF _ _ job])
      (use inv_queue_head(1,2) [OF inv Cons] in \<open>simp_all add: current_def\<close>)
  with r' Cons show ?thesis by (auto simp: chain_accepts_def)
qed

lemma orphan_accepts_nothing:
  assumes "relay_inv cfg verify run r"
  shows "relay_accepts verify run r (RunOrphan i k now) = []"
proof (cases "k < length (orphans r)")
  case True
  then have "orphans r ! k \<in> set (orphans r)" by simp
  then have "j \<in> set (orphans r ! k) \<Longrightarrow> \<not> current run r (job_generation j)" for j
    by (rule orphan_not_current [OF assms])
  then show ?thesis
    by (auto simp: relay_accepts_def chain_accepts_def job_accepts_def split: list.splits)
qed (simp add: relay_accepts_def)

lemma run_orphan_effect:
  assumes inv: "relay_inv cfg verify run r" and run: "run_orphan cfg verify run now k ev r = (ev', r')"
  shows "effect_ok ev r (relay_accepts verify run r (RunOrphan i k now)) ev' r'"
proof -
  have "effect_ok ev r [] ev' r'"
    using run_orphan_eq [OF inv, of now k ev] run by (auto intro: effect_ok_idle)
  then show ?thesis by (simp add: orphan_accepts_nothing [OF inv])
qed

lemma relay_step_effect:
  assumes inv: "relay_inv cfg verify run r" and step: "relay_step cfg verify run ev r e = (ev', r')"
  shows "effect_ok ev r (relay_accepts verify run r e) ev' r'"
proof (cases e)
  case (RunQueue i now)
  with step run_queue_effect [OF inv] show ?thesis by (simp add: relay_step_def relay_accepts_def)
next
  case (RunOrphan i k now)
  with step run_orphan_effect [OF inv] show ?thesis by (simp add: relay_step_def)
qed (use step in \<open>auto simp: relay_step_def relay_accepts_def listened_def effect_ok_idle split: if_splits\<close>)

section \<open>Runs\<close>

lemma step_relays_length: "length (relays (step cfg verify m e)) = length (relays m)"
  by (cases e) (auto simp: step_def start_def stop_def checkStaleness_def split: prod.splits)

definition replay_ok :: "monitor \<Rightarrow> (nat \<times> accepted) list \<Rightarrow> monitor \<Rightarrow> bool" where
  "replay_ok m h m' \<longleftrightarrow>
     length (relays m') = length (relays m)
     \<and> evidence m' = foldl remember_evidence (evidence m) (accepted_receipts (map snd h))
     \<and> (\<forall>i < length (relays m).
          seen (relays m' ! i) = foldl remember_seen (seen (relays m ! i)) (accepted_receipts (at_relay i h))
          \<and> map fst (at_relay i h) = [Suc (last_seq (relays m ! i))..<Suc (last_seq (relays m' ! i))]
          \<and> cursor_extends (rcursor (relays m ! i)) (rcursor (relays m' ! i))
          \<and> url (relays m' ! i) = url (relays m ! i))"

lemma accepted_receipts_append: "accepted_receipts (as @ bs) = accepted_receipts as @ accepted_receipts bs"
  by (simp add: accepted_receipts_def)

lemma at_relay_append: "at_relay i (h @ h') = at_relay i h @ at_relay i h'"
  by (simp add: at_relay_def)

lemma at_relay_Pair: "at_relay i (map (Pair k) as) = (if i = k then as else [])"
  by (simp add: at_relay_def filter_map o_def)

lemma cursor_extends_last_seq: "cursor_extends (rcursor r) (rcursor r') \<Longrightarrow> last_seq r \<le> last_seq r'"
  by (auto simp: cursor_extends_def last_seq_def split: option.splits)

lemma cursor_extends_trans: "cursor_extends a b \<Longrightarrow> cursor_extends b c \<Longrightarrow> cursor_extends a c"
  by (force simp: cursor_extends_def split: option.splits)

lemma replay_ok_trans:
  assumes "replay_ok m h m'" and "replay_ok m' h' m''"
  shows "replay_ok m (h @ h') m''"
  unfolding replay_ok_def
proof (intro conjI allI impI)
  fix i assume i: "i < length (relays m)"
  with assms have a: "cursor_extends (rcursor (relays m ! i)) (rcursor (relays m' ! i))"
    and b: "cursor_extends (rcursor (relays m' ! i)) (rcursor (relays m'' ! i))"
    by (auto simp: replay_ok_def)
  show "map fst (at_relay i (h @ h')) = [Suc (last_seq (relays m ! i))..<Suc (last_seq (relays m'' ! i))]"
    using assms i cursor_extends_last_seq [OF a] cursor_extends_last_seq [OF b]
    by (simp add: replay_ok_def at_relay_append upt_split del: upt_Suc)
  show "cursor_extends (rcursor (relays m ! i)) (rcursor (relays m'' ! i))"
    using a b by (rule cursor_extends_trans)
qed (use assms in \<open>auto simp: replay_ok_def accepted_receipts_append at_relay_append\<close>)

lemma replay_ok_step:
  assumes inv: "monitor_inv cfg verify m"
  shows "replay_ok m (turn_accepts verify m e) (step cfg verify m e)"
proof (cases "event_relay e")
  case None
  then show ?thesis
    by (cases e) (auto simp: step_def turn_accepts_def replay_ok_def start_def stop_def checkStaleness_def
        accepted_receipts_def at_relay_def last_seq_def)
next
  case (Some i)
  then have eq: "step cfg verify m e =
      (if i < length (relays m) then
         (case relay_step cfg verify (running m) (evidence m) (relays m ! i) e of
            (ev, r) \<Rightarrow> m\<lparr>evidence := ev, relays := (relays m)[i := r]\<rparr>)
       else m)"
    by (cases e) (auto simp: step_def)
  show ?thesis
  proof (cases "i < length (relays m)")
    case False
    with Some eq show ?thesis by (simp add: turn_accepts_def replay_ok_def accepted_receipts_def at_relay_def)
  next
    case True
    obtain ev r where rs: "relay_step cfg verify (running m) (evidence m) (relays m ! i) e = (ev, r)"
      by fastforce
    have "relay_inv cfg verify (running m) (relays m ! i)"
      using inv True by (simp add: monitor_inv_def)
    from relay_step_effect [OF this rs] True Some eq rs show ?thesis
      by (auto simp: turn_accepts_def replay_ok_def effect_ok_def at_relay_Pair o_def nth_list_update
          accepted_receipts_def)
  qed
qed

lemma replay_ok_run: "monitor_inv cfg verify m \<Longrightarrow> replay_ok m (history cfg verify m es) (run_turns cfg verify m es)"
proof (induction es arbitrary: m)
  case Nil
  then show ?case by (simp add: replay_ok_def accepted_receipts_def at_relay_def)
next
  case (Cons e es)
  from replay_ok_trans [OF replay_ok_step [OF Cons.prems] Cons.IH [OF inv_step [OF Cons.prems]]]
  show ?case by simp
qed

section \<open>Only verified receipts are accepted\<close>

lemma relay_accepts_verified:
  assumes "relay_inv cfg verify run r" and "rc \<in> set (accepted_receipts (relay_accepts verify run r e))"
  shows "receipt_ok cfg rc \<and> verify rc"
proof -
  have chain: "receipt_ok cfg rc \<and> verify rc"
    if "rc \<in> set (accepted_receipts (chain_accepts verify run r (queue r)))"
    using that assms(1)
    by (auto simp: chain_accepts_def job_accepts_def accepted_receipts_def relay_inv_def chain_ok_def
        split: list.splits if_splits phase.splits)
  show ?thesis
  proof (cases e)
    case (RunQueue i now)
    with assms(2) chain show ?thesis by (simp add: relay_accepts_def)
  next
    case (RunOrphan i k now)
    with assms show ?thesis by (simp add: orphan_accepts_nothing accepted_receipts_def)
  qed (use assms(2) in \<open>simp_all add: relay_accepts_def accepted_receipts_def\<close>)
qed

lemma accepted_receipts_Nil [simp]: "accepted_receipts [] = []"
  by (simp add: accepted_receipts_def)

lemma history_verified:
  assumes "monitor_inv cfg verify m" and "rc \<in> set (accepted_receipts (map snd (history cfg verify m es)))"
  shows "receipt_ok cfg rc \<and> verify rc"
  using assms
proof (induction es arbitrary: m)
  case Nil
  then show ?case by (simp add: accepted_receipts_def)
next
  case (Cons e es)
  from Cons.prems(2) consider "rc \<in> set (accepted_receipts (map snd (turn_accepts verify m e)))"
    | "rc \<in> set (accepted_receipts (map snd (history cfg verify (step cfg verify m e) es)))"
    by (auto simp: accepted_receipts_append)
  then show ?case
  proof cases
    case 1
    then obtain i where "i < length (relays m)"
      and "rc \<in> set (accepted_receipts (relay_accepts verify (running m) (relays m ! i) e))"
      by (auto simp: turn_accepts_def o_def split: option.splits if_splits)
    with Cons.prems(1) show ?thesis
      by (intro relay_accepts_verified) (auto simp: monitor_inv_def)
  next
    case 2
    then show ?thesis using Cons.IH inv_step [OF Cons.prems(1)] by blast
  qed
qed

section \<open>The first two transactions of a bond\<close>

definition keep_two :: "(json \<times> receipt) list \<Rightarrow> receipt \<Rightarrow> (json \<times> receipt) list" where
  "keep_two e rc = (if length e < 2 then map_set strict_eq e (txid rc) rc else e)"

lemma keep_two_simps:
  "keep_two [] rc = [(txid rc, rc)]"
  "keep_two [(k, r)] rc = (if strict_eq k (txid rc) then [(k, rc)] else [(k, r), (txid rc, rc)])"
  "2 \<le> length e \<Longrightarrow> keep_two e rc = e"
  by (simp_all add: keep_two_def)

lemma bond_evidence_remember:
  "bond_evidence (remember_evidence ev rc) b =
     (if bond rc = b then keep_two (bond_evidence ev b) rc else bond_evidence ev b)"
  by (simp add: remember_evidence_def bond_evidence_def keep_two_def map_simps Let_def)

lemma bond_evidence_foldl:
  "bond_evidence (foldl remember_evidence ev rcs) b =
     foldl keep_two (bond_evidence ev b) (filter (\<lambda>rc. bond rc = b) rcs)"
  by (induction rcs arbitrary: ev) (simp_all add: bond_evidence_remember)

abbreviation same_txid :: "receipt \<Rightarrow> receipt \<Rightarrow> bool" where
  "same_txid a b \<equiv> strict_eq (txid a) (txid b)"

lemma keep_two_inv:
  "length (foldl keep_two [] rcs) \<le> 2
   \<and> (length (foldl keep_two [] rcs) \<le> 1 \<longleftrightarrow> sorted_wrt same_txid rcs)
   \<and> (rcs \<noteq> [] \<longrightarrow> foldl keep_two [] rcs \<noteq> [] \<and> fst (hd (foldl keep_two [] rcs)) = txid (hd rcs))"
proof (induction rcs rule: rev_induct)
  case Nil
  then show ?case by simp
next
  case (snoc rc rcs)
  let ?e = "foldl keep_two [] rcs"
  consider "rcs = []" | k r where "rcs \<noteq> []" "?e = [(k, r)]" | "length ?e = 2"
    using snoc.IH by (cases ?e rule: list.exhaust; cases "tl ?e"; force)
  then show ?case
  proof cases
    case 1
    then show ?thesis by (simp add: keep_two_simps)
  next
    case 2
    then have k: "k = txid (hd rcs)" and same: "sorted_wrt same_txid rcs" using snoc.IH by auto
    have "sorted_wrt same_txid (rcs @ [rc]) \<longleftrightarrow> strict_eq k (txid rc)"
    proof
      assume "sorted_wrt same_txid (rcs @ [rc])"
      with 2(1) k show "strict_eq k (txid rc)" by (simp add: sorted_wrt_append)
    next
      assume eq: "strict_eq k (txid rc)"
      have "txid r' = k" if "r' \<in> set rcs" for r'
        using that same k 2(1) by (cases rcs) (auto dest!: bspec strict_eq_imp_eq)
      with eq have "\<forall>r' \<in> set rcs. same_txid r' rc" by simp
      with same show "sorted_wrt same_txid (rcs @ [rc])" by (simp add: sorted_wrt_append)
    qed
    with 2 k show ?thesis by (simp add: keep_two_simps)
  next
    case 3
    moreover from this have "rcs \<noteq> []" by auto
    ultimately show ?thesis using snoc.IH by (auto simp: keep_two_simps sorted_wrt_append)
  qed
qed

lemma keep_two_mono: "set (map fst e) \<subseteq> set (map fst (keep_two e rc))" "length e \<le> length (keep_two e rc)"
  by (auto simp: keep_two_def map_set_keys set_add_def length_map_set simp flip: set_map)

lemma keep_two_sound:
  "(k, r) \<in> set (foldl keep_two [] rcs) \<Longrightarrow> r \<in> set rcs \<and> k = txid r"
proof (induction rcs arbitrary: k r rule: rev_induct)
  case (snoc rc rcs)
  have "(k, r) \<in> set (map_set strict_eq e (txid rc) rc) \<Longrightarrow> (k, r) \<in> set e \<or> (k = txid rc \<and> r = rc)" for e
    by (induction e) (auto split: if_splits dest: strict_eq_imp_eq)
  with snoc show ?case by (fastforce simp: keep_two_def [of _ rc] split: if_splits)
qed simp

end
