(* ===== verification/Json_Print.thy ===== *)
theory Json_Print
  imports Json
begin

text \<open>
  The compact text that \<open>serde_json::to_string\<close> (the relay) and \<open>JSON.stringify\<close> (the client)
  write for the messages of the protocol, and the round trip through \<open>JSON.parse\<close>: reading what
  was written gives the value back, for every value whose numbers are safe integers and whose
  objects have distinct keys. The protocol's messages are such values.
\<close>

section \<open>Printer\<close>

definition digit_char :: "nat \<Rightarrow> char" where
  "digit_char d = ''0123456789'' ! d"

fun show_nat :: "nat \<Rightarrow> string" where
  "show_nat n = (if n < 10 then [digit_char n] else show_nat (n div 10) @ [digit_char (n mod 10)])"

declare show_nat.simps [simp del]

definition show_int :: "int \<Rightarrow> string" where
  "show_int i = (if i < 0 then CHR ''-'' # show_nat (nat (- i)) else show_nat (nat i))"

definition hex_digit :: "nat \<Rightarrow> char" where
  "hex_digit d = ''0123456789abcdef'' ! d"

definition short_escape :: "char \<Rightarrow> char option" where
  "short_escape c =
     map_of [(CHR 0x22, CHR 0x22), (CHR 0x5C, CHR 0x5C), (CHR 0x08, CHR ''b''), (CHR 0x0C, CHR ''f''),
             (CHR 0x0A, CHR ''n''), (CHR 0x0D, CHR ''r''), (CHR 0x09, CHR ''t'')] c"

definition escape_char :: "char \<Rightarrow> string" where
  "escape_char c =
     (case short_escape c of
        Some d \<Rightarrow> [CHR 0x5C, d]
      | None \<Rightarrow>
          if of_char c < (32 :: nat)
          then [CHR 0x5C, CHR ''u'', CHR ''0'', CHR ''0'', hex_digit (of_char c div 16), hex_digit (of_char c mod 16)]
          else [c])"

definition quote :: "string \<Rightarrow> string" where
  "quote s = CHR 0x22 # concat (map escape_char s) @ [CHR 0x22]"

fun commas :: "string list \<Rightarrow> string" where
  "commas [] = []"
| "commas [s] = s"
| "commas (s # ss) = s @ CHR '','' # commas ss"

fun json_print :: "json \<Rightarrow> string" where
  "json_print JNull = ''null''"
| "json_print (JBool b) = (if b then ''true'' else ''false'')"
| "json_print (JNum r) = show_int \<lfloor>r\<rfloor>"
| "json_print (JInf _) = ''null''"
| "json_print (JStr s) = quote s"
| "json_print (JArr vs) = CHR ''['' # commas (map json_print vs) @ [CHR '']'']"
| "json_print (JObj kvs) = CHR ''{'' # commas (map (\<lambda>(k, v). quote k @ CHR '':'' # json_print v) kvs) @ [CHR ''}'']"

fun wire_ok :: "json \<Rightarrow> bool" where
  "wire_ok (JNum r) \<longleftrightarrow> of_int \<lfloor>r\<rfloor> = r \<and> \<bar>\<lfloor>r\<rfloor>\<bar> \<le> 9007199254740991"
| "wire_ok (JInf _) \<longleftrightarrow> False"
| "wire_ok (JArr vs) \<longleftrightarrow> (\<forall>v \<in> set vs. wire_ok v)"
| "wire_ok (JObj kvs) \<longleftrightarrow> distinct (map fst kvs) \<and> (\<forall>kv \<in> set kvs. wire_ok (snd kv))"
| "wire_ok _ \<longleftrightarrow> True"

section \<open>Numbers\<close>

lemma is_digit_digit_char: "d < 10 \<Longrightarrow> is_digit (digit_char d)"
proof -
  assume "d < 10"
  then have "d \<in> {0, 1, 2, 3, 4, 5, 6, 7, 8, 9}" by auto
  then show ?thesis by (auto simp: is_digit_def digit_char_def)
qed

lemma digit_value_digit_char: "d < 10 \<Longrightarrow> digit_value (digit_char d) = d"
proof -
  assume "d < 10"
  then have "d \<in> {0, 1, 2, 3, 4, 5, 6, 7, 8, 9}" by auto
  then show ?thesis by (auto simp: digit_value_def digit_char_def)
qed

lemma digit_char_zero: "d < 10 \<Longrightarrow> digit_char d = CHR ''0'' \<longleftrightarrow> d = 0"
proof -
  assume "d < 10"
  then have "d \<in> {0, 1, 2, 3, 4, 5, 6, 7, 8, 9}" by auto
  then show ?thesis by (auto simp: digit_char_def)
qed

lemma show_nat_digits: "list_all is_digit (show_nat n)"
proof (induction n rule: show_nat.induct)
  case (1 n)
  then show ?case by (subst show_nat.simps) (auto simp: is_digit_digit_char)
qed

lemma show_nat_nonempty: "show_nat n \<noteq> []"
  by (subst show_nat.simps) simp

lemma decimal_value_snoc: "decimal_value (s @ [c]) = 10 * decimal_value s + digit_value c"
  by (simp add: decimal_value_def)

lemma decimal_value_show: "decimal_value (show_nat n) = n"
proof (induction n rule: show_nat.induct)
  case (1 n)
  show ?case
  proof (cases "n < 10")
    case True
    then show ?thesis by (subst show_nat.simps) (simp add: decimal_value_def digit_value_digit_char)
  next
    case False
    with 1 show ?thesis
      by (subst show_nat.simps) (simp add: decimal_value_snoc digit_value_digit_char)
  qed
qed

lemma show_nat_hd: "n \<noteq> 0 \<Longrightarrow> hd (show_nat n) \<noteq> CHR ''0''"
proof (induction n rule: show_nat.induct)
  case (1 n)
  then show ?case
    by (subst show_nat.simps) (auto simp: digit_char_zero show_nat_nonempty)
qed

lemma show_nat_single: "length (show_nat n) \<le> 1 \<or> n \<noteq> 0"
  by (cases n) (simp_all add: show_nat.simps)

lemma not_minus_show: "\<not> starts CHR ''-'' (show_nat n)"
  using show_nat_digits [of n] show_nat_nonempty [of n]
  by (cases "show_nat n") (auto simp: starts_def is_digit_def)

lemma magnitude_value_show: "magnitude_value (show_nat n) = Some (of_nat n)"
proof -
  let ?s = "show_nat n"
  have "list_all is_digit ?s" by (rule show_nat_digits)
  then have tw: "takeWhile is_digit ?s = ?s" and dw: "dropWhile is_digit ?s = []"
    by (simp_all add: list_all_iff)
  have zero: "\<not> (1 < length ?s \<and> starts CHR ''0'' ?s)"
    using show_nat_single [of n] show_nat_hd [of n] by (auto simp: starts_def)
  then show ?thesis
    by (auto simp: magnitude_value_def tw dw starts_def exponent_value_def scale10_def decimal_value_show
        show_nat_nonempty Let_def)
qed

lemma number_value_show:
  "number_value (show_nat n) = Some (round_double (of_nat n))"
  "number_value (CHR ''-'' # show_nat n) = Some (round_double (- of_nat n))"
  by (simp_all add: number_value_def not_minus_show magnitude_value_show) (simp add: starts_def magnitude_value_show)

lemma pow2_int: "0 \<le> e \<Longrightarrow> pow2 e = of_int (2 ^ nat e)"
  by (simp add: pow2_def)

lemma round_half_even_int [simp]: "round_half_even (of_int i) = i"
  by (simp add: round_half_even_def Let_def)

lemma ulp_exponent_nat:
  assumes "0 < n" and "n < 2 ^ 53"
  shows "ulp_exponent (of_nat n) = bitlen (int n) - 53" and "bitlen (int n) \<le> 53" and "0 < bitlen (int n)"
proof -
  have b: "2 ^ nat (bitlen (int n) - 1) \<le> int n" and pos: "0 < bitlen (int n)"
    using assms bitlen_bounds [of "int n"] by (auto simp: bitlen_alt_def)
  have "int n < 2 ^ 53"
    using assms(2) by (metis of_nat_less_iff of_nat_numeral of_nat_power)
  then show "bitlen (int n) \<le> 53"
    by (simp add: bitlen_le_iff_power)
  show "0 < bitlen (int n)" by (rule pos)
  have "pow2 (bitlen (int n) - 1) \<le> of_nat n"
  proof -
    have "(of_int (2 ^ nat (bitlen (int n) - 1)) :: rat) \<le> of_int (int n)"
      using b by (simp only: of_int_le_iff)
    with pos show ?thesis by (simp add: pow2_int)
  qed
  moreover have "bitlen 1 = 1" by (simp add: bitlen_alt_def)
  ultimately show "ulp_exponent (of_nat n) = bitlen (int n) - 53"
    using pos by (simp add: ulp_exponent_def Let_def)
qed

lemma round_double_nat:
  assumes "n \<le> 9007199254740991"
  shows "round_double (of_nat n) = jnat n"
proof (cases "n = 0")
  case True
  then show ?thesis by (simp add: round_double_def)
next
  case False
  then have n: "0 < n" and small: "n < 2 ^ 53" using assms by auto
  let ?k = "nat (53 - bitlen (int n))"
  note e = ulp_exponent_nat [OF n small]
  have p: "pow2 (bitlen (int n) - 53) = 1 / 2 ^ ?k"
    using e(2) by (cases "bitlen (int n) = 53") (simp_all add: pow2_def)
  have scaled: "(of_nat n :: rat) / pow2 (bitlen (int n) - 53) = of_int (int n * 2 ^ ?k)"
    by (simp add: p)
  have "of_int (round_half_even ((of_nat n :: rat) / pow2 (bitlen (int n) - 53))) * pow2 (bitlen (int n) - 53) = of_nat n"
    unfolding scaled round_half_even_int by (simp add: p)
  moreover have "\<not> pow2 1024 \<le> of_nat n"
  proof -
    have "(of_nat n :: rat) < of_nat (2 ^ 53)" using small by (simp only: of_nat_less_iff)
    also have "\<dots> \<le> pow2 1024" by (simp add: pow2_def)
    finally show ?thesis by simp
  qed
  ultimately show ?thesis
    using n e(1) by (simp add: round_double_def Let_def)
qed

lemma round_double_minus: "round_double (- x) = (case round_double x of JNum y \<Rightarrow> JNum (- y) | JInf b \<Rightarrow> JInf (\<not> b) | v \<Rightarrow> v)"
  by (auto simp: round_double_def Let_def)

lemma round_double_int:
  assumes "\<bar>i\<bar> \<le> 9007199254740991"
  shows "number_value (show_int i) = Some (JNum (of_int i))"
proof (cases "i < 0")
  case True
  then have "round_double (of_nat (nat (- i))) = jnat (nat (- i))" using assms by (intro round_double_nat) simp
  then have "round_double (- of_nat (nat (- i))) = JNum (- of_nat (nat (- i)))"
    by (simp only: round_double_minus json.case)
  with True show ?thesis by (simp add: show_int_def number_value_show)
next
  case False
  then have "round_double (of_nat (nat i)) = jnat (nat i)" using assms by (intro round_double_nat) simp
  with False show ?thesis by (simp add: show_int_def number_value_show)
qed

section \<open>Lexing printed text\<close>

definition delim :: "string \<Rightarrow> bool" where
  "delim rest \<longleftrightarrow> rest = [] \<or> hd rest \<in> {CHR '','', CHR '']'', CHR ''}'', CHR 0x0A}"

definition emit :: "token list \<Rightarrow> token list option \<Rightarrow> token list option" where
  "emit ts r = map_option ((@) ts) r"

lemma emit_emit [simp]: "emit ts (emit us r) = emit (ts @ us) r" "emit [] r = r"
  by (cases r; simp add: emit_def)+

lemma lex_Cons: "lex m (c # cs) = (case lex_char m c of None \<Rightarrow> None | Some (ts, m') \<Rightarrow> emit ts (lex m' cs))"
  by (simp add: emit_def split: option.split)

declare lex.simps(2) [simp del]

lemma lex_punct:
  "lex Plain (CHR '','' # cs) = emit [Comma] (lex Plain cs)"
  "lex Plain (CHR '':'' # cs) = emit [Colon] (lex Plain cs)"
  "lex Plain (CHR ''['' # cs) = emit [LBrack] (lex Plain cs)"
  "lex Plain (CHR '']'' # cs) = emit [RBrack] (lex Plain cs)"
  "lex Plain (CHR ''{'' # cs) = emit [LBrace] (lex Plain cs)"
  "lex Plain (CHR ''}'' # cs) = emit [RBrace] (lex Plain cs)"
  by (simp_all add: lex_Cons lex_char_def plain_char_def is_ws_def)

lemma delim_char:
  assumes "c = CHR '','' \<or> c = CHR '']'' \<or> c = CHR ''}'' \<or> c = CHR 0x0A"
  shows "\<exists>ts. plain_char c = Some (ts, Plain)" and "\<not> is_num_char c" and "\<not> is_word_char c"
  using assms
  by (elim disjE; simp add: plain_char_def is_ws_def is_num_char_def is_word_char_def)+

lemma delim_cases:
  assumes "delim rest"
  obtains "rest = []" | c cs ts where "rest = c # cs" "plain_char c = Some (ts, Plain)"
    "\<not> is_num_char c" "\<not> is_word_char c"
proof (cases rest)
  case Nil
  then show thesis by (rule that(1))
next
  case (Cons c cs)
  with assms have "c = CHR '','' \<or> c = CHR '']'' \<or> c = CHR ''}'' \<or> c = CHR 0x0A" by (simp add: delim_def)
  note d = delim_char [OF this]
  from d(1) obtain ts where "plain_char c = Some (ts, Plain)" ..
  from Cons this d(2,3) show thesis by (rule that(2))
qed

lemma lex_InNum:
  "list_all is_num_char ds \<Longrightarrow> lex (InNum s) (ds @ rest) = lex (InNum (s @ ds)) rest"
  by (induction ds arbitrary: s) (simp_all add: lex_Cons lex_char_def)

lemma lex_InNum_end:
  assumes "delim rest" and "num_token s = Some t"
  shows "lex (InNum s) rest = emit [t] (lex Plain rest)"
  using assms(1)
proof (cases rule: delim_cases)
  case 1
  with assms(2) show ?thesis by (simp add: lex_end_def emit_def)
next
  case (2 c cs t')
  with assms(2) show ?thesis by (simp add: lex_Cons lex_char_def)
qed

lemma lex_InWord:
  "list_all is_word_char ds \<Longrightarrow> lex (InWord s) (ds @ rest) = lex (InWord (s @ ds)) rest"
  by (induction ds arbitrary: s) (simp_all add: lex_Cons lex_char_def)

lemma lex_InWord_end:
  assumes "delim rest" and "word_value s = Some t"
  shows "lex (InWord s) rest = emit [t] (lex Plain rest)"
  using assms(1)
proof (cases rule: delim_cases)
  case 1
  with assms(2) show ?thesis by (simp add: lex_end_def emit_def)
next
  case (2 c cs t')
  with assms(2) show ?thesis by (simp add: lex_Cons lex_char_def)
qed

lemma is_num_char_digit: "is_digit c \<Longrightarrow> is_num_char c"
  by (auto simp: is_digit_def is_num_char_def)

lemma plain_char_digit:
  assumes "is_digit c"
  shows "plain_char c = Some ([], InNum [c])"
proof -
  from assms have "c = CHR ''0'' \<or> c = CHR ''1'' \<or> c = CHR ''2'' \<or> c = CHR ''3'' \<or> c = CHR ''4''
      \<or> c = CHR ''5'' \<or> c = CHR ''6'' \<or> c = CHR ''7'' \<or> c = CHR ''8'' \<or> c = CHR ''9''"
    by (simp add: is_digit_def)
  then show ?thesis by (elim disjE; simp add: plain_char_def is_ws_def is_digit_def)
qed

lemma show_int_chars:
  obtains c cs where "show_int i = c # cs" "plain_char c = Some ([], InNum [c])" "list_all is_num_char cs"
proof -
  have digits: "list_all is_num_char (show_nat n)" for n
    using show_nat_digits [of n] by (auto simp: list_all_iff is_num_char_digit)
  have minus: "plain_char CHR ''-'' = Some ([], InNum ''-'')" by (simp add: plain_char_def is_ws_def is_digit_def)
  show thesis
  proof (cases "i < 0")
    case True
    with digits minus show ?thesis by (intro that) (simp_all add: show_int_def)
  next
    case False
    obtain c cs where s: "show_nat (nat i) = c # cs"
      using show_nat_nonempty [of "nat i"] by (cases "show_nat (nat i)") auto
    then have "is_digit c" "list_all is_num_char cs"
      using show_nat_digits [of "nat i"] digits [of "nat i"] by simp_all
    with False s show ?thesis by (intro that [of c cs]) (simp_all add: show_int_def plain_char_digit)
  qed
qed

lemma lex_show_int:
  assumes "delim rest" and "\<bar>i\<bar> \<le> 9007199254740991"
  shows "lex Plain (show_int i @ rest) = emit [TLit (JNum (of_int i))] (lex Plain rest)"
proof -
  obtain c cs where s: "show_int i = c # cs" "plain_char c = Some ([], InNum [c])" "list_all is_num_char cs"
    by (rule show_int_chars)
  have "num_token (show_int i) = Some (TLit (JNum (of_int i)))"
    by (simp add: num_token_def round_double_int assms(2))
  with s assms(1) show ?thesis
    by (simp add: lex_Cons lex_char_def lex_InNum lex_InNum_end)
qed

lemma lex_word:
  assumes "delim rest" and "w = ''null'' \<or> w = ''true'' \<or> w = ''false''" and "word_value w = Some t"
  shows "lex Plain (w @ rest) = emit [t] (lex Plain rest)"
proof -
  obtain c cs where w: "w = c # cs" using assms(2) by (cases w) auto
  have "plain_char c = Some ([], InWord [c])" and "list_all is_word_char cs"
    using assms(2) unfolding w list.inject
    by (elim disjE conjE; simp add: plain_char_def is_ws_def is_digit_def is_word_char_def)+
  with w assms(1,3) show ?thesis
    by (simp add: lex_Cons lex_char_def lex_InWord lex_InWord_end)
qed


text \<open>A printed string is read back unit by unit.\<close>

definition unit_of :: "char \<Rightarrow> strunit" where
  "unit_of c = (if short_escape c = None \<and> of_char c < (32 :: nat) then Code (of_char c) else Raw c)"

lemma hex_value_hex_digit:
  assumes "d < 16"
  shows "hex_value (hex_digit d) = Some d"
proof -
  have "list_all (\<lambda>d. hex_value (hex_digit d) = Some d) [0..<16]" by code_simp
  with assms show ?thesis by (simp add: list_all_iff)
qed

lemma short_escapeD:
  assumes "short_escape c = Some d"
  shows "escape_value d = Some c" and "d \<noteq> CHR ''u''"
  using assms by (auto simp: short_escape_def escape_value_def split: if_splits)

lemma short_escape_NoneD:
  assumes "short_escape c = None"
  shows "c \<noteq> CHR 0x22" and "c \<noteq> CHR 0x5C"
  using assms by (auto simp: short_escape_def)

lemma lex_escape:
  "lex (InStr us) (escape_char c @ rest) = lex (InStr (us @ [unit_of c])) rest"
proof (cases "short_escape c")
  case None
  show ?thesis
  proof (cases "of_char c < (32 :: nat)")
    case True
    then have "of_char c div 16 < (16 :: nat)" and "of_char c mod 16 < (16 :: nat)" by simp_all
    note h = this [THEN hex_value_hex_digit]
    have "hex_value CHR ''0'' = Some 0" by (simp add: hex_value_def)
    with True None h show ?thesis
      by (simp add: escape_char_def unit_of_def lex_Cons lex_char_def)
  next
    case False
    with None show ?thesis
      by (simp add: escape_char_def unit_of_def lex_Cons lex_char_def short_escape_NoneD)
  qed
next
  case (Some d)
  with short_escapeD [OF this] show ?thesis
    by (simp add: escape_char_def unit_of_def lex_Cons lex_char_def)
qed

lemma lex_escapes:
  "lex (InStr us) (concat (map escape_char s) @ rest) = lex (InStr (us @ map unit_of s)) rest"
  by (induction s arbitrary: us) (simp_all add: lex_escape)

lemma utf8_small: "u < 32 \<Longrightarrow> utf8 u = [char_of u]"
  by (simp add: utf8_def)

lemma encode_Code_small:
  "u < 32 \<Longrightarrow> encode_units (Code u # us) = char_of u # encode_units us"
  by (cases "(Code u # us)" rule: encode_units.cases) (auto simp: utf8_small high_surrogate_def)

lemma encode_units_of: "encode_units (map unit_of s) = s"
  by (induction s) (simp_all add: unit_of_def encode_Code_small)

lemma lex_quote: "lex Plain (quote s @ rest) = emit [TStr s] (lex Plain rest)"
proof -
  have "plain_char CHR 0x22 = Some ([], InStr [])" by (simp add: plain_char_def is_ws_def)
  then show ?thesis
    by (simp add: quote_def lex_Cons lex_char_def lex_escapes encode_units_of)
qed

text \<open>The tokens of a printed value.\<close>

fun seps :: "token list list \<Rightarrow> token list" where
  "seps [] = []"
| "seps (ts # tss) = ts @ concat (map ((#) Comma) tss)"

fun tokens_of :: "json \<Rightarrow> token list" where
  "tokens_of (JStr s) = [TStr s]"
| "tokens_of (JArr vs) = LBrack # seps (map tokens_of vs) @ [RBrack]"
| "tokens_of (JObj kvs) = LBrace # seps (map (\<lambda>(k, v). TStr k # Colon # tokens_of v) kvs) @ [RBrace]"
| "tokens_of v = [TLit v]"

definition lexes :: "string \<Rightarrow> token list \<Rightarrow> bool" where
  "lexes s ts \<longleftrightarrow> (\<forall>rest. delim rest \<longrightarrow> lex Plain (s @ rest) = emit ts (lex Plain rest))"

lemma lexesD: "lexes s ts \<Longrightarrow> delim rest \<Longrightarrow> lex Plain (s @ rest) = emit ts (lex Plain rest)"
  by (simp add: lexes_def)

lemma delim_Cons [simp]: "delim (CHR '','' # cs)" "delim (CHR '']'' # cs)" "delim (CHR ''}'' # cs)" "delim []"
  by (simp_all add: delim_def)

lemma lexes_commas:
  assumes "list_all2 lexes ss tss"
  shows "lexes (commas ss) (seps tss)"
  using assms
proof (induction ss arbitrary: tss rule: commas.induct)
  case 1
  then show ?case by (simp add: lexes_def)
next
  case (2 s)
  then show ?case by (auto simp: list_all2_Cons1)
next
  case (3 s s' ss)
  then obtain ts ts' tss' where t: "tss = ts # ts' # tss'" and l: "lexes s ts"
    and r: "list_all2 lexes (s' # ss) (ts' # tss')"
    by (auto simp: list_all2_Cons1)
  from 3(1) [OF r] l t show ?case
    by (simp add: lexes_def lex_punct)
qed


lemma lexes_word:
  "w = ''null'' \<or> w = ''true'' \<or> w = ''false'' \<Longrightarrow> word_value w = Some t \<Longrightarrow> lexes w [t]"
  by (simp add: lexes_def lex_word)

lemma lexes_print: "wire_ok v \<Longrightarrow> lexes (json_print v) (tokens_of v)"
proof (induction v rule: json_print.induct)
  case 1
  show ?case by (simp add: lexes_word word_value_def)
next
  case (2 b)
  show ?case by (cases b) (simp_all add: lexes_word word_value_def)
next
  case (3 r)
  then have i: "\<bar>\<lfloor>r\<rfloor>\<bar> \<le> 9007199254740991" and r: "of_int \<lfloor>r\<rfloor> = r" by simp_all
  show ?case using lex_show_int [OF _ i] r by (simp add: lexes_def)
next
  case (6 vs)
  then have "list_all2 lexes (map json_print vs) (map tokens_of vs)"
    by (simp add: list_all2_map1 list_all2_map2 list_all2_same)
  from lexes_commas [OF this] show ?case by (simp add: lexes_def lex_punct)
next
  case (7 kvs)
  have "lexes (quote k @ CHR '':'' # json_print v) (TStr k # Colon # tokens_of v)"
    if "(k, v) \<in> set kvs" for k v
    using 7(1) [OF that refl] 7(2) that by (auto simp: lexes_def lex_quote lex_punct)
  then have "list_all2 lexes (map (\<lambda>(k, v). quote k @ CHR '':'' # json_print v) kvs)
      (map (\<lambda>(k, v). TStr k # Colon # tokens_of v) kvs)"
    by (auto simp: list_all2_map1 list_all2_map2 list_all2_same)
  from lexes_commas [OF this] show ?case by (simp add: lexes_def lex_punct)
qed (simp_all add: lexes_def lex_quote)

section \<open>Parsing printed tokens\<close>

definition parses :: "token list \<Rightarrow> json \<Rightarrow> bool" where
  "parses ts v \<longleftrightarrow> (\<forall>stk rest. parse_tokens (PVal, stk) (ts @ rest) = parse_tokens (PAfter v, stk) rest)"

lemma parsesD:
  "parses (tokens_of v) v \<Longrightarrow>
     parse_tokens (PVal, stk) (tokens_of v @ rest) = parse_tokens (PAfter v, stk) rest"
  by (simp add: parses_def)

lemma tokens_of_hd: "\<exists>t ts. tokens_of v = t # ts \<and> t \<noteq> RBrack"
  by (cases v) simp_all

lemma parse_first:
  assumes "parses (tokens_of v) v"
  shows "parse_tokens (PValOrEnd, stk) (tokens_of v @ rest) = parse_tokens (PAfter v, stk) rest"
proof -
  obtain t ts where t: "tokens_of v = t # ts" "t \<noteq> RBrack" using tokens_of_hd by blast
  then have "parse_token (PValOrEnd, stk) t = parse_token (PVal, stk) t"
    by (cases t) (simp_all add: parse_token_def)
  with t(1) parsesD [OF assms, of stk rest] show ?thesis by simp
qed

lemma parse_elements:
  assumes "\<forall>v \<in> set vs. parses (tokens_of v) v"
  shows "parse_tokens (PAfter u, FArr us # stk) (concat (map (\<lambda>v. Comma # tokens_of v) vs) @ RBrack # rest)
    = parse_tokens (PAfter (JArr (us @ u # vs)), stk) rest"
  using assms
  by (induction vs arbitrary: u us) (simp_all add: parse_token_def parsesD)

lemma map_set_fresh: "k \<notin> fst ` set kvs \<Longrightarrow> map_set (=) kvs k v = kvs @ [(k, v)]"
  by (induction kvs) auto

lemma parse_members:
  assumes "\<forall>kv \<in> set kvs. parses (tokens_of (snd kv)) (snd kv)"
    and "distinct (map fst (us @ (k, u) # kvs))"
  shows "parse_tokens (PAfter u, FKey us k # stk)
      (concat (map (\<lambda>(k, v). Comma # TStr k # Colon # tokens_of v) kvs) @ RBrace # rest)
    = parse_tokens (PAfter (JObj (us @ (k, u) # kvs)), stk) rest"
  using assms
proof (induction kvs arbitrary: us k u)
  case Nil
  then show ?case by (simp add: parse_token_def map_set_fresh)
next
  case (Cons kv kvs)
  obtain k' v where kv: "kv = (k', v)" by (cases kv)
  have m: "map_set (=) us k u = us @ [(k, u)]"
    using Cons.prems(2) by (auto simp: map_set_fresh)
  have "parses (tokens_of v) v" using Cons.prems(1) kv by simp
  then show ?case
    using Cons.IH [of "us @ [(k, u)]" k' v] Cons.prems kv by (simp add: parse_token_def m parsesD)
qed

lemma parses_tokens: "wire_ok v \<Longrightarrow> parses (tokens_of v) v"
proof (induction v rule: tokens_of.induct)
  case (2 vs)
  then have all: "\<forall>v \<in> set vs. parses (tokens_of v) v" by simp
  show ?case
  proof (cases vs)
    case Nil
    then show ?thesis by (simp add: parses_def parse_token_def open_value_def)
  next
    case (Cons w ws)
    with all show ?thesis
      using parse_elements [of ws w "[]"]
      by (simp add: parses_def [of "LBrack # _"] parse_token_def [of "(PVal, _)"] open_value_def
          parse_first comp_def)
  qed
next
  case (3 kvs)
  then have all: "\<forall>kv \<in> set kvs. parses (tokens_of (snd kv)) (snd kv)" by auto
  show ?case
  proof (cases kvs)
    case Nil
    then show ?thesis by (simp add: parses_def parse_token_def open_value_def)
  next
    case (Cons kw kws)
    obtain k w where kw: "kw = (k, w)" by (cases kw)
    with all Cons have "parses (tokens_of w) w" by simp
    moreover have "concat (map ((#) Comma \<circ> (\<lambda>(k, v). TStr k # Colon # tokens_of v)) kws)
        = concat (map (\<lambda>(k, v). Comma # TStr k # Colon # tokens_of v) kws)"
      by (rule arg_cong [where f = concat]) (auto intro: map_cong)
    moreover have "distinct (map fst ([] @ (k, w) # kws))" using 3(2) Cons kw by simp
    ultimately show ?thesis
      using parse_members [of kws "[]" k w] all Cons kw
      by (simp add: parses_def [of "LBrace # _"] parse_token_def open_value_def parsesD)
  qed
qed (simp_all add: parses_def parse_token_def open_value_def)

theorem json_round_trip:
  assumes "wire_ok v"
  shows "json_parse (json_print v) = Some v"
proof -
  have "lex Plain (json_print v) = Some (tokens_of v)"
    using lexesD [OF lexes_print [OF assms], of "[]"] by (simp add: lex_end_def emit_def)
  moreover have "parse_tokens (PVal, []) (tokens_of v) = Some v"
    using parsesD [OF parses_tokens [OF assms], of "[]" "[]"] by simp
  ultimately show ?thesis by (simp add: json_parse_def)
qed

lemma json_round_trip_line:
  assumes "wire_ok v"
  shows "json_parse (json_print v @ [CHR 0x0A]) = Some v"
proof -
  have "lex Plain [CHR 0x0A] = Some []"
    by (simp add: lex_Cons lex_char_def plain_char_def is_ws_def lex_end_def)
  then have "lex Plain (json_print v @ [CHR 0x0A]) = Some (tokens_of v)"
    using lexesD [OF lexes_print [OF assms], of "[CHR 0x0A]"] by (simp add: delim_def emit_def)
  moreover have "parse_tokens (PVal, []) (tokens_of v) = Some v"
    using parsesD [OF parses_tokens [OF assms], of "[]" "[]"] by simp
  ultimately show ?thesis by (simp add: json_parse_def)
qed

end
