(* ===== verification/Monitor_Session.thy ===== *)
theory Monitor_Session
  imports Monitor_History Json_Print
begin

text \<open>
  One message at a time. When a relay's promise chain is empty, a text frame runs through
  \<open>message\<close> listener, \<open>#process\<close>, \<open>#receipt\<close> and \<open>#remember\<close> of \<^verbatim>\<open>client/monitor.mjs\<close>
  to its end before the next frame arrives. \<open>handle\<close> is the composite of these parts on the
  parsed message; \<open>deliver\<close> is the sequence of turns, and the lemma \<open>deliver_handle\<close> shows that
  the turns compute the composite. Sessions of whole message sequences are folds of it.
\<close>

definition handle :: "config \<Rightarrow> (receipt \<Rightarrow> bool) \<Rightarrow> evidence_map \<Rightarrow> relay \<Rightarrow> json
    \<Rightarrow> (evidence_map \<times> relay) option" where
  "handle cfg verify ev r v =
     (case process cfg r v of
        Inl _ \<Rightarrow> None
      | Inr (r', AwaitReceipt n rc cw) \<Rightarrow>
          if \<not> verify rc then None
          else if cw = Some JNull then Some (accept_event True ev r' (generation r') n rc None)
          else (case check_receipt cfg cw of
                  Inl _ \<Rightarrow> None
                | Inr rc' \<Rightarrow>
                    if verify rc' \<and> bond rc' = bond rc \<and> \<not> strict_eq (txid rc') (txid rc)
                    then Some (accept_event True ev r' (generation r') n rc (Some rc')) else None)
      | Inr (r', _) \<Rightarrow> Some (ev, r'))"

definition deliver :: "nat \<Rightarrow> nat \<Rightarrow> time \<Rightarrow> json \<Rightarrow> event list" where
  "deliver i g now v = SocketMessage i g now (TextFrame (json_print v)) # replicate 4 (RunQueue i now)"

definition settled :: "time \<Rightarrow> relay \<Rightarrow> relay" where
  "settled now r =
     r\<lparr>lastMessage := Some now, rerror := (if caughtUp r then None else Some ''synchronizing''),
       changes := changes r + 2\<rparr>"

definition ready_for :: "nat \<Rightarrow> relay \<Rightarrow> bool" where
  "ready_for g r \<longleftrightarrow> generation r = g \<and> g \<in> set (listeners r) \<and> queue r = [] \<and> pending r = 0"

section \<open>Fields the message handlers do not touch\<close>

lemma map_guard: "map_sum id f (guard ok msg k) = guard ok msg (map_sum id f k)"
  by (simp add: guard_def)

lemma map_bind_res: "map_sum id f (bind_res x k) = bind_res x (\<lambda>y. map_sum id f (k y))"
  by (cases x) (simp_all add: bind_res_def)

abbreviation (input) busy :: "nat \<Rightarrow> job list \<Rightarrow> nat \<Rightarrow> relay \<Rightarrow> relay" where
  "busy p q c r \<equiv> r\<lparr>pending := p, queue := q, changes := c\<rparr>"

lemma process_busy:
  "process cfg (busy p q c r) v = map_sum id (map_prod (busy p q c) id) (process cfg r v)"
proof -
  have "process_begin cfg (busy p q c r) v = map_sum id (busy p q c) (process_begin cfg r v)"
    and "process_event cfg (busy p q c r) v = process_event cfg r v"
    and "process_caught_up cfg (busy p q c r) v = map_sum id (busy p q c) (process_caught_up cfg r v)"
    and "process_heartbeat cfg (busy p q c r) v = map_sum id (busy p q c) (process_heartbeat cfg r v)"
    by (simp_all add: process_begin_def process_event_def process_caught_up_def process_heartbeat_def
        guard_def bind_res_def Let_def split: option.split sum.split)
  moreover have "bind_res (map_sum id f x) (\<lambda>r'. Inr (r', ph))
      = map_sum id (map_prod f id) (bind_res x (\<lambda>r'. Inr (r', ph)))" for f :: "relay \<Rightarrow> relay" and x :: "relay res" and ph :: phase
    by (cases x) simp_all
  ultimately show ?thesis
    by (simp add: process_def map_bind_res Let_def)
qed

lemma accept_event_busy:
  "accept_event True ev (busy p q c r) (generation r) n rc other
     = map_prod id (busy p q c) (accept_event True ev r (generation r) n rc other)"
  by (simp add: accept_event_split current_def)

lemma process_keeps:
  assumes "process cfg r v = Inr (r', ph)"
  shows "\<exists>c th b. r' = r\<lparr>rcursor := c, through := th, caughtUp := b\<rparr>"
  using assms
proof (cases rule: process_cases)
  case beginning
  from beginning(1) show ?thesis by (rule process_beginD) auto
next
  case event
  then have "r' = r\<lparr>rcursor := rcursor r, through := through r, caughtUp := caughtUp r\<rparr>" by simp
  then show ?thesis by blast
next
  case caught_up
  then have "r' = r\<lparr>rcursor := rcursor r, through := through r, caughtUp := True\<rparr>"
    by (auto elim: process_caught_upD)
  then show ?thesis by blast
next
  case heartbeat
  then have "r' = r\<lparr>rcursor := rcursor r, through := through r, caughtUp := caughtUp r\<rparr>"
    using process_heartbeatD [OF heartbeat(1)] by simp
  then show ?thesis by blast
qed

lemma process_phase:
  assumes "process cfg r v = Inr (r', ph)"
  obtains "ph = Returned" | n rc cw where "ph = AwaitReceipt n rc cw" and "r' = r"
  using assms by (cases rule: process_cases) (auto elim: process_eventD)

section \<open>The turns of one message\<close>

lemma process_requeued:
  "process cfg (r\<lparr>pending := Suc 0, changes := c, queue := []\<rparr>) v
     = map_sum id (map_prod (busy (Suc 0) [] c) id) (process cfg r v)"
proof -
  have "r\<lparr>pending := Suc 0, changes := c, queue := []\<rparr> = busy (Suc 0) [] c r" by simp
  then show ?thesis by (simp only: process_busy)
qed

lemma run_queue_phases:
  assumes "job_generation j = generation r" and "receivedAt j = now" and "0 < staleMs cfg"
  shows "job_phase j = Queued t \<Longrightarrow> json_parse t = Some v \<Longrightarrow> process cfg r v = Inr (r', ph) \<Longrightarrow>
      run_queue cfg verify True now ev (busy (Suc 0) [j] c r) = (ev, busy (Suc 0) [j\<lparr>job_phase := ph\<rparr>] c r')"
    and "job_phase j = AwaitReceipt n rc (Some JNull) \<Longrightarrow> verify rc \<Longrightarrow>
      run_queue cfg verify True now ev (busy (Suc 0) [j] c r)
        = map_prod id (busy (Suc 0) [j\<lparr>job_phase := Returned\<rparr>] c) (accept_event True ev r (generation r) n rc None)"
    and "job_phase j = AwaitReceipt n rc cw \<Longrightarrow> verify rc \<Longrightarrow> cw \<noteq> Some JNull \<Longrightarrow>
      check_receipt cfg cw = Inr rc' \<Longrightarrow>
      run_queue cfg verify True now ev (busy (Suc 0) [j] c r)
        = (ev, busy (Suc 0) [j\<lparr>job_phase := AwaitConflict n rc rc'\<rparr>] c r)"
    and "job_phase j = AwaitConflict n rc rc' \<Longrightarrow> verify rc' \<Longrightarrow> bond rc' = bond rc \<Longrightarrow>
      \<not> strict_eq (txid rc') (txid rc) \<Longrightarrow>
      run_queue cfg verify True now ev (busy (Suc 0) [j] c r)
        = map_prod id (busy (Suc 0) [j\<lparr>job_phase := Returned\<rparr>] c) (accept_event True ev r (generation r) n rc (Some rc'))"
    and "job_phase j = Returned \<Longrightarrow>
      run_queue cfg verify True now ev (busy (Suc 0) [j] c r)
        = (ev, r\<lparr>lastMessage := Some now, pending := 0, queue := [],
             rerror := (if caughtUp r then None else Some ''synchronizing''), changes := Suc c\<rparr>)"
  using assms process_requeued [where c = c]
  by (auto simp: run_queue_def run_job_def current_def continue_chain_def changed_def accept_event_split
      split: option.splits)

lemma run_queue_empty: "queue r = [] \<Longrightarrow> run_queue cfg verify run now ev r = (ev, r)"
  by (simp add: run_queue_def)

lemma steps_RunQueue:
  assumes "i < length (relays m)" and "running m"
  shows "run_turns cfg verify m (replicate n (RunQueue i now)) =
    (case ((\<lambda>(ev, r). run_queue cfg verify True now ev r) ^^ n) (evidence m, relays m ! i) of
       (ev, r) \<Rightarrow> m\<lparr>evidence := ev, relays := (relays m)[i := r]\<rparr>)"
  using assms
proof (induction n arbitrary: m)
  case 0
  then show ?case by simp
next
  case (Suc n)
  obtain ev r where q: "run_queue cfg verify True now (evidence m) (relays m ! i) = (ev, r)" by fastforce
  have "step cfg verify m (RunQueue i now) = m\<lparr>evidence := ev, relays := (relays m)[i := r]\<rparr>"
    using Suc.prems q by (simp add: step_def relay_step_def)
  with Suc.IH [of "m\<lparr>evidence := ev, relays := (relays m)[i := r]\<rparr>"] Suc.prems q show ?case
    by (simp add: funpow_swap1 split: prod.split)
qed

lemma handle_cases:
  assumes "handle cfg verify ev r v = Some (ev', r')"
  obtains (plain) "process cfg r v = Inr (r', Returned)" "ev' = ev"
    | (receipt) n rc where "process cfg r v = Inr (r, AwaitReceipt n rc (Some JNull))" "verify rc"
        "accept_event True ev r (generation r) n rc None = (ev', r')"
    | (conflict) n rc cw rc' where "process cfg r v = Inr (r, AwaitReceipt n rc cw)" "verify rc"
        "cw \<noteq> Some JNull" "check_receipt cfg cw = Inr rc'" "verify rc'" "bond rc' = bond rc"
        "\<not> strict_eq (txid rc') (txid rc)"
        "accept_event True ev r (generation r) n rc (Some rc') = (ev', r')"
proof -
  obtain r1 ph where p: "process cfg r v = Inr (r1, ph)"
    using assms by (cases "process cfg r v") (auto simp: handle_def)
  from p show thesis
  proof (cases rule: process_phase)
    case 1
    with p assms show ?thesis by (intro plain) (auto simp: handle_def)
  next
    case (2 n rc cw)
    with p assms show ?thesis
      by (auto simp: handle_def intro: receipt conflict split: if_splits sum.splits)
  qed
qed

lemma handle_keeps:
  assumes "handle cfg verify ev r v = Some (ev', r')"
  shows "generation r' = generation r" and "queue r' = queue r" and "pending r' = pending r"
    and "listeners r' = listeners r" and "changes r' = changes r" and "rsocket r' = rsocket r"
    and "url r' = url r" and "sent r' = sent r" and "retry r' = retry r"
proof -
  from assms have "\<exists>c th b s. r' = r\<lparr>rcursor := c, through := th, caughtUp := b, seen := s\<rparr>"
  proof (cases rule: handle_cases)
    case plain
    then obtain c th b where "r' = r\<lparr>rcursor := c, through := th, caughtUp := b\<rparr>"
      using process_keeps by blast
    then have "r' = r\<lparr>rcursor := c, through := th, caughtUp := b, seen := seen r\<rparr>" by simp
    then show ?thesis by blast
  next
    case (receipt n rc)
    have "current True r (generation r)" by (simp add: current_def)
    from accept_event_eq [OF receipt(3) this] obtain s
      where "r' = r\<lparr>rcursor := map_option (\<lambda>c. c\<lparr>seq := n\<rparr>) (rcursor r), seen := s\<rparr>" .
    then have "r' = r\<lparr>rcursor := map_option (\<lambda>c. c\<lparr>seq := n\<rparr>) (rcursor r), through := through r,
        caughtUp := caughtUp r, seen := s\<rparr>" by simp
    then show ?thesis by blast
  next
    case (conflict n rc cw rc')
    have "current True r (generation r)" by (simp add: current_def)
    from accept_event_eq [OF conflict(8) this] obtain s
      where "r' = r\<lparr>rcursor := map_option (\<lambda>c. c\<lparr>seq := n\<rparr>) (rcursor r), seen := s\<rparr>" .
    then have "r' = r\<lparr>rcursor := map_option (\<lambda>c. c\<lparr>seq := n\<rparr>) (rcursor r), through := through r,
        caughtUp := caughtUp r, seen := s\<rparr>" by simp
    then show ?thesis by blast
  qed
  then show "generation r' = generation r" and "queue r' = queue r" and "pending r' = pending r"
    and "listeners r' = listeners r" and "changes r' = changes r" and "rsocket r' = rsocket r"
    and "url r' = url r" and "sent r' = sent r" and "retry r' = retry r"
    by auto
qed

lemma run_handle:
  fixes j :: job
  assumes h: "handle cfg verify ev r v = Some (ev', r')"
    and j: "job_generation j = generation r" "receivedAt j = now" "job_phase j = Queued t"
    and parse: "json_parse t = Some v" and stale: "0 < staleMs cfg"
  shows "((\<lambda>(ev, r). run_queue cfg verify True now ev r) ^^ 4) (ev, busy (Suc 0) [j] c r)
    = (ev', r'\<lparr>lastMessage := Some now, pending := 0, queue := [],
         rerror := (if caughtUp r' then None else Some ''synchronizing''), changes := Suc c\<rparr>)"
proof -
  note phase = run_queue_phases [OF _ _ stale]
  note gen = handle_keeps(1) [OF h]
  from h show ?thesis
  proof (cases rule: handle_cases)
    case plain
    with j parse gen show ?thesis by (simp add: eval_nat_numeral phase run_queue_empty)
  next
    case (receipt n rc)
    with j parse gen show ?thesis by (simp add: eval_nat_numeral phase run_queue_empty)
  next
    case (conflict n rc cw rc')
    with j parse gen show ?thesis by (simp add: eval_nat_numeral phase)
  qed
qed

definition frame_ok :: "json \<Rightarrow> bool" where
  "frame_ok v \<longleftrightarrow> wire_ok v \<and> length (json_print v) \<le> MAX_FRAME"

lemma deliver_handle:
  assumes i: "i < length (relays m)" "running m" and ready: "ready_for g (relays m ! i)"
    and v: "frame_ok v" and stale: "0 < staleMs cfg"
    and h: "handle cfg verify (evidence m) (relays m ! i) v = Some (ev', r')"
  shows "run_turns cfg verify m (deliver i g now v) =
    m\<lparr>evidence := ev', relays := (relays m)[i := settled now r']\<rparr>"
proof -
  let ?r = "relays m ! i" and ?t = "json_print v"
  let ?j = "\<lparr>job_generation = g, receivedAt = now, job_phase = Queued ?t\<rparr>"
  let ?m = "m\<lparr>relays := (relays m)[i := busy (Suc 0) [?j] (Suc (changes ?r)) ?r]\<rparr>"
  note k = handle_keeps [OF h]
  have "on_message True now g (TextFrame ?t) ?r = busy (Suc 0) [?j] (Suc (changes ?r)) ?r"
    using ready v by (simp add: ready_for_def frame_ok_def on_message_def current_def changed_def MAX_PENDING_def)
  then have first: "step cfg verify m (SocketMessage i g now (TextFrame ?t)) = ?m"
    using i ready by (simp add: step_def relay_step_def listened_def ready_for_def)
  have "r'\<lparr>lastMessage := Some now, pending := 0, queue := [],
      rerror := (if caughtUp r' then None else Some ''synchronizing''), changes := Suc (Suc (changes ?r))\<rparr>
      = settled now r'"
    using ready k by (simp add: settled_def ready_for_def)
  moreover note run_handle [OF h, of ?j now ?t "Suc (changes ?r)"] json_round_trip [of v] stale
  ultimately have "((\<lambda>(ev, r). run_queue cfg verify True now ev r) ^^ 4) (evidence ?m, relays ?m ! i)
      = (ev', settled now r')"
    using i ready v by (simp add: ready_for_def frame_ok_def)
  with first i steps_RunQueue [of i ?m cfg verify 4 now] show ?thesis
    by (simp add: deliver_def)
qed

fun handle_all :: "config \<Rightarrow> (receipt \<Rightarrow> bool) \<Rightarrow> time \<Rightarrow> evidence_map \<Rightarrow> relay \<Rightarrow> json list
    \<Rightarrow> (evidence_map \<times> relay) option" where
  "handle_all cfg verify now ev r [] = Some (ev, r)"
| "handle_all cfg verify now ev r (v # vs) =
     (case handle cfg verify ev r v of
        None \<Rightarrow> None
      | Some (ev', r') \<Rightarrow> handle_all cfg verify now ev' (settled now r') vs)"

definition deliver_all :: "nat \<Rightarrow> nat \<Rightarrow> time \<Rightarrow> json list \<Rightarrow> event list" where
  "deliver_all i g now vs = concat (map (deliver i g now) vs)"

lemma run_turns_append: "run_turns cfg verify m (es @ es') = run_turns cfg verify (run_turns cfg verify m es) es'"
  by (induction es arbitrary: m) simp_all

lemma settled_ready [simp]: "ready_for g (settled now r) = ready_for g r"
  by (simp add: ready_for_def settled_def)

lemma handle_ready: "handle cfg verify ev r v = Some (ev', r') \<Longrightarrow> ready_for g r' = ready_for g r"
  by (simp add: ready_for_def handle_keeps)

lemma deliver_handle_all:
  assumes "i < length (relays m)" "running m" and "ready_for g (relays m ! i)"
    and "list_all frame_ok vs" and "0 < staleMs cfg"
    and "handle_all cfg verify now (evidence m) (relays m ! i) vs = Some (ev', r')"
  shows "run_turns cfg verify m (deliver_all i g now vs) = m\<lparr>evidence := ev', relays := (relays m)[i := r']\<rparr>"
  using assms
proof (induction vs arbitrary: m)
  case Nil
  then have "ev' = evidence m" and "r' = relays m ! i" by simp_all
  then show ?case by (simp add: deliver_all_def)
next
  case (Cons v vs)
  obtain ev1 r1 where h: "handle cfg verify (evidence m) (relays m ! i) v = Some (ev1, r1)"
    and rest: "handle_all cfg verify now ev1 (settled now r1) vs = Some (ev', r')"
    using Cons.prems(6) by (auto split: option.splits)
  let ?m = "m\<lparr>evidence := ev1, relays := (relays m)[i := settled now r1]\<rparr>"
  have "run_turns cfg verify m (deliver i g now v) = ?m"
    using Cons.prems h by (intro deliver_handle) simp_all
  moreover have "run_turns cfg verify ?m (deliver_all i g now vs) = ?m\<lparr>evidence := ev', relays := (relays ?m)[i := r']\<rparr>"
    using Cons.prems rest handle_ready [OF h] by (intro Cons.IH) simp_all
  ultimately show ?case by (simp add: deliver_all_def run_turns_append)
qed

end
