(* ===== verification/Wire.thy ===== *)
theory Wire
  imports Json_Print
begin

text \<open>
  The JSON layout of the relay protocol: what \<open>serde\<close> writes for the message types of
  \<^verbatim>\<open>src/relay/mod.rs\<close> and \<^verbatim>\<open>src/operator.rs\<close>. Enums are internally tagged with \<open>type\<close> in
  snake case, struct fields follow in declaration order, an absent option is \<open>null\<close>; bonds,
  transaction ids and signatures are strings.
\<close>

definition wire_receipt :: "string \<Rightarrow> string \<Rightarrow> string \<Rightarrow> json" where
  "wire_receipt b t s = JObj [(''bond'', JStr b), (''txid'', JStr t), (''signature'', JStr s)]"

definition wire_option :: "json option \<Rightarrow> json" where
  "wire_option v = (case v of None \<Rightarrow> JNull | Some w \<Rightarrow> w)"

definition wire_cursor :: "string \<Rightarrow> nat \<Rightarrow> json" where
  "wire_cursor s n = JObj [(''stream'', JStr s), (''seq'', jnat n)]"

definition wire_record :: "nat \<Rightarrow> json \<Rightarrow> json option \<Rightarrow> json" where
  "wire_record n rc oth = JObj [(''seq'', jnat n), (''receipt'', rc), (''conflict_with'', wire_option oth)]"

definition wire_begin :: "string \<Rightarrow> string \<Rightarrow> nat \<Rightarrow> nat \<Rightarrow> json" where
  "wire_begin p s f t =
     JObj [(''type'', JStr ''begin''), (''profile'', JStr p), (''stream'', JStr s),
           (''from'', jnat f), (''through'', jnat t)]"

definition wire_event :: "json \<Rightarrow> json" where
  "wire_event e = JObj [(''type'', JStr ''event''), (''event'', e)]"

definition wire_caught_up :: "json \<Rightarrow> json" where
  "wire_caught_up c = JObj [(''type'', JStr ''caught_up''), (''cursor'', c)]"

definition wire_heartbeat :: "json \<Rightarrow> json" where
  "wire_heartbeat c = JObj [(''type'', JStr ''heartbeat''), (''cursor'', c)]"

definition wire_published :: "nat \<Rightarrow> string \<Rightarrow> json" where
  "wire_published n st = JObj [(''type'', JStr ''published''), (''seq'', jnat n), (''status'', JStr st)]"

definition wire_error :: "string \<Rightarrow> json" where
  "wire_error r = JObj [(''type'', JStr ''error''), (''reason'', JStr r)]"

definition wire_subscribe :: "string \<Rightarrow> json option \<Rightarrow> json" where
  "wire_subscribe p c =
     JObj [(''type'', JStr ''subscribe''), (''profile'', JStr p), (''cursor'', wire_option c)]"

definition wire_publish :: "json \<Rightarrow> json" where
  "wire_publish rc = JObj [(''type'', JStr ''publish''), (''receipt'', rc)]"

text \<open>Every message of the protocol survives printing and parsing.\<close>

lemma wire_ok_messages [simp]:
  "wire_ok (wire_receipt b t s)"
  "wire_ok (wire_option v) \<longleftrightarrow> (\<forall>w. v = Some w \<longrightarrow> wire_ok w)"
  "n \<le> 9007199254740991 \<Longrightarrow> wire_ok (wire_cursor s n)"
  "n \<le> 9007199254740991 \<Longrightarrow> wire_ok rc \<Longrightarrow> wire_ok (wire_option oth) \<Longrightarrow> wire_ok (wire_record n rc oth)"
  "f \<le> 9007199254740991 \<Longrightarrow> th \<le> 9007199254740991 \<Longrightarrow> wire_ok (wire_begin p s f th)"
  "wire_ok (wire_event e) \<longleftrightarrow> wire_ok e"
  "wire_ok (wire_caught_up c) \<longleftrightarrow> wire_ok c"
  "wire_ok (wire_heartbeat c) \<longleftrightarrow> wire_ok c"
  "n \<le> 9007199254740991 \<Longrightarrow> wire_ok (wire_published n st)"
  "wire_ok (wire_error r)"
  "wire_ok (wire_subscribe p (Some c)) \<longleftrightarrow> wire_ok c"
  "wire_ok (wire_subscribe p None)"
  "wire_ok (wire_publish rc) \<longleftrightarrow> wire_ok rc"
  by (auto simp: wire_receipt_def wire_option_def wire_cursor_def wire_record_def wire_begin_def wire_event_def
      wire_caught_up_def wire_heartbeat_def wire_published_def wire_error_def wire_subscribe_def wire_publish_def
      split: option.splits)

section \<open>Sizes\<close>

text \<open>Strings that print without escapes: hexadecimal digits, decimal digits and the colon.\<close>

definition plain_string :: "string \<Rightarrow> bool" where
  "plain_string s \<longleftrightarrow> list_all (\<lambda>c. c = CHR '':'' \<or> is_lower_hex c) s"

lemma plain_string_simps [simp]:
  "plain_string []"
  "plain_string (s @ t) \<longleftrightarrow> plain_string s \<and> plain_string t"
  "plain_string (CHR '':'' # s) \<longleftrightarrow> plain_string s"
  by (auto simp: plain_string_def)

lemma plain_hex: "hex_string n s \<Longrightarrow> plain_string s"
  by (auto simp: hex_string_def plain_string_def list_all_iff)

lemma escape_char_plain:
  assumes "c = CHR '':'' \<or> is_lower_hex c"
  shows "escape_char c = [c]"
proof -
  have "c \<in> set '':0123456789abcdef''" using assms by (auto simp: is_lower_hex_def)
  moreover have "list_all (\<lambda>c. escape_char c = [c]) '':0123456789abcdef''"
    by (simp add: escape_char_def short_escape_def)
  ultimately show ?thesis unfolding list_all_iff by blast
qed

lemma quote_plain: "plain_string s \<Longrightarrow> quote s = CHR 0x22 # s @ [CHR 0x22]"
proof -
  assume "plain_string s"
  then have "concat (map escape_char s) = s"
    by (induction s) (simp_all add: plain_string_def escape_char_plain)
  then show ?thesis by (simp add: quote_def)
qed

lemma length_show_nat: "n < 10 ^ Suc k \<Longrightarrow> length (show_nat n) \<le> Suc k"
proof (induction k arbitrary: n)
  case 0
  then show ?case by (subst show_nat.simps) simp
next
  case (Suc k)
  show ?case
  proof (cases "n < 10")
    case True
    then show ?thesis by (subst show_nat.simps) simp
  next
    case False
    from Suc.prems have "n div 10 < 10 ^ Suc k" by (simp add: less_mult_imp_div_less mult.commute)
    with Suc.IH [of "n div 10"] False show ?thesis by (subst show_nat.simps) simp
  qed
qed

lemma length_jnat: "n \<le> 9007199254740991 \<Longrightarrow> length (json_print (jnat n)) \<le> 16"
  using length_show_nat [of n 15] by (simp add: show_int_def)

lemma length_wire_receipt:
  assumes "plain_string b" "plain_string t" "plain_string g"
  shows "length (json_print (wire_receipt b t g)) = length b + length t + length g + 36"
  using assms
  by (simp add: wire_receipt_def quote_plain) (simp add: quote_def escape_char_def short_escape_def)

lemma length_wire_cursor:
  assumes "plain_string s" "n \<le> 9007199254740991"
  shows "length (json_print (wire_cursor s n)) \<le> length s + 36"
  using assms length_jnat [of n]
  by (simp add: wire_cursor_def quote_plain) (simp add: quote_def escape_char_def short_escape_def)

lemma length_wire_event:
  assumes "n \<le> 9007199254740991"
  shows "length (json_print (wire_event (wire_record n rc oth))) \<le>
    length (json_print rc) + length (json_print (wire_option oth)) + 80"
  using length_jnat [OF assms]
  by (simp add: wire_event_def wire_record_def) (simp add: quote_def escape_char_def short_escape_def)

lemma length_wire_begin:
  assumes "plain_string p" "plain_string s" "f \<le> 9007199254740991" "th \<le> 9007199254740991"
  shows "length (json_print (wire_begin p s f th)) \<le> length p + length s + 110"
  using assms length_jnat [of f] length_jnat [of th]
  by (simp add: wire_begin_def quote_plain) (simp add: quote_def escape_char_def short_escape_def)

lemma length_wire_status:
  "length (json_print (wire_caught_up c)) = length (json_print c) + 30"
  "length (json_print (wire_heartbeat c)) = length (json_print c) + 30"
  by (simp_all add: wire_caught_up_def wire_heartbeat_def) (simp_all add: quote_def escape_char_def short_escape_def)

end
