(* ===== verification/Monitor_Wire.thy ===== *)
theory Monitor_Wire
  imports Monitor_Session Wire
begin

text \<open>
  What \<^verbatim>\<open>client/monitor.mjs\<close> does with the messages a relay sends in the protocol's layout:
  for each message the exact condition under which it is accepted and the new state.
\<close>

lemma exact_same: "map fst kvs = keys \<Longrightarrow> exact (Some (JObj kvs)) keys"
  by (simp add: exact_def)

lemma sequence_jnat: "limit \<le> 9007199254740991 \<Longrightarrow> sequence (Some (jnat n)) limit \<longleftrightarrow> n \<le> limit"
  by (auto simp: sequence_def safe_integer_jnat)

lemma jget_wire:
  "jget (wire_begin p s f th) ''type'' = Some (JStr ''begin'')"
  "jget (wire_begin p s f th) ''profile'' = Some (JStr p)"
  "jget (wire_begin p s f th) ''stream'' = Some (JStr s)"
  "jget (wire_begin p s f th) ''from'' = Some (jnat f)"
  "jget (wire_begin p s f th) ''through'' = Some (jnat th)"
  "jget (wire_event e) ''type'' = Some (JStr ''event'')"
  "jget (wire_event e) ''event'' = Some e"
  "jget (wire_record n rc oth) ''seq'' = Some (jnat n)"
  "jget (wire_record n rc oth) ''receipt'' = Some rc"
  "jget (wire_record n rc oth) ''conflict_with'' = Some (wire_option oth)"
  "jget (wire_receipt b t g) ''bond'' = Some (JStr b)"
  "jget (wire_receipt b t g) ''txid'' = Some (JStr t)"
  "jget (wire_receipt b t g) ''signature'' = Some (JStr g)"
  "jget (wire_cursor s n) ''stream'' = Some (JStr s)"
  "jget (wire_cursor s n) ''seq'' = Some (jnat n)"
  "jget (wire_caught_up c) ''type'' = Some (JStr ''caught_up'')"
  "jget (wire_caught_up c) ''cursor'' = Some c"
  "jget (wire_heartbeat c) ''type'' = Some (JStr ''heartbeat'')"
  "jget (wire_heartbeat c) ''cursor'' = Some c"
  "jget (wire_error r) ''type'' = Some (JStr ''error'')"
  "jget (wire_published n st) ''type'' = Some (JStr ''published'')"
  by (simp_all add: jget_def wire_begin_def wire_event_def wire_record_def wire_receipt_def wire_cursor_def
      wire_caught_up_def wire_heartbeat_def wire_error_def wire_published_def)

lemma exact_wire:
  "exact (Some (wire_begin p s f th)) [''type'', ''profile'', ''stream'', ''from'', ''through'']"
  "exact (Some (wire_event e)) [''type'', ''event'']"
  "exact (Some (wire_record n rc oth)) [''seq'', ''receipt'', ''conflict_with'']"
  "exact (Some (wire_receipt b t g)) [''bond'', ''txid'', ''signature'']"
  "exact (Some (wire_cursor s n)) [''stream'', ''seq'']"
  "exact (Some (wire_caught_up c)) [''type'', ''cursor'']"
  "exact (Some (wire_heartbeat c)) [''type'', ''cursor'']"
  by (simp_all add: exact_same wire_begin_def wire_event_def wire_record_def wire_receipt_def wire_cursor_def
      wire_caught_up_def wire_heartbeat_def)

lemmas wire_fields = jget_wire exact_wire jfield_def

text \<open>A configuration within the constructor's bounds.\<close>

definition small_config :: "config \<Rightarrow> bool" where
  "small_config cfg \<longleftrightarrow> max_seq cfg \<le> 9007199254740991 \<and> 0 < staleMs cfg"

definition wire_receipt_ok :: "config \<Rightarrow> string \<Rightarrow> string \<Rightarrow> string \<Rightarrow> bool" where
  "wire_receipt_ok cfg b t g \<longleftrightarrow> b \<in> set (bonds cfg) \<and> hex_string 64 t \<and> hex_string 128 g"

lemma check_receipt_wire:
  assumes "wire_receipt_ok cfg b t g"
  shows "check_receipt cfg (Some (wire_receipt b t g)) = Inr \<lparr>bond = b, txid = JStr t, signature = JStr g\<rparr>"
  using assms by (simp add: check_receipt_def wire_fields wire_receipt_ok_def)

lemma process_type:
  assumes "jget v ''type'' = Some (JStr ty)"
  shows "process cfg r v =
    (if ty = ''begin'' then bind_res (process_begin cfg r v) (\<lambda>r'. Inr (r', Returned))
     else if ty = ''event'' then bind_res (process_event cfg r v) (\<lambda>ph. Inr (r, ph))
     else if ty = ''caught_up'' then bind_res (process_caught_up cfg r v) (\<lambda>r'. Inr (r', Returned))
     else if ty = ''heartbeat'' then bind_res (process_heartbeat cfg r v) (\<lambda>r'. Inr (r', Returned))
     else Inl ''relay error/unknown message'')"
  by (simp add: process_def assms)

lemma handle_begin:
  assumes "small_config cfg" and "through r = None" and "hex_string 64 s" and "f \<le> th" and "th \<le> max_seq cfg"
    and "case rcursor r of None \<Rightarrow> f = 0 | Some c \<Rightarrow> c = \<lparr>stream = JStr s, seq = f\<rparr>"
  shows "handle cfg verify ev r (wire_begin (profile cfg) s f th) =
    Some (ev, r\<lparr>rcursor := Some \<lparr>stream = JStr s, seq = f\<rparr>, through := Some th, caughtUp := False\<rparr>)"
proof -
  have "process cfg r (wire_begin (profile cfg) s f th) =
      Inr (r\<lparr>rcursor := Some \<lparr>stream = JStr s, seq = f\<rparr>, through := Some th, caughtUp := False\<rparr>, Returned)"
    using assms
    by (auto simp: process_type [OF jget_wire(1)] process_begin_def wire_fields sequence_jnat small_config_def
        sameCursor_def Let_def split: option.splits)
  then show ?thesis by (simp add: handle_def)
qed

lemma handle_caught_up:
  assumes "small_config cfg" and "rcursor r = Some \<lparr>stream = JStr s, seq = n\<rparr>" and "through r = Some n"
    and "\<not> caughtUp r" and "hex_string 64 s" and "n \<le> max_seq cfg"
  shows "handle cfg verify ev r (wire_caught_up (wire_cursor s n)) = Some (ev, r\<lparr>caughtUp := True\<rparr>)"
  using assms
  by (simp add: handle_def process_type [OF jget_wire(16)] process_caught_up_def check_cursor_def as_cursor_def
      wire_fields sequence_jnat small_config_def sameCursor_def)

lemma handle_heartbeat:
  assumes "small_config cfg" and "rcursor r = Some \<lparr>stream = JStr s, seq = n\<rparr>" and "caughtUp r"
    and "hex_string 64 s" and "n \<le> max_seq cfg"
  shows "handle cfg verify ev r (wire_heartbeat (wire_cursor s n)) = Some (ev, r)"
  using assms
  by (simp add: handle_def process_type [OF jget_wire(18)] process_heartbeat_def check_cursor_def as_cursor_def
      wire_fields sequence_jnat small_config_def sameCursor_def)

definition client_receipt :: "string \<Rightarrow> string \<times> string \<Rightarrow> receipt" where
  "client_receipt b tg = \<lparr>bond = b, txid = JStr (fst tg), signature = JStr (snd tg)\<rparr>"

definition event_message :: "nat \<Rightarrow> string \<Rightarrow> string \<times> string \<Rightarrow> (string \<times> string) option \<Rightarrow> json" where
  "event_message n b tg oth =
     wire_event (wire_record n (wire_receipt b (fst tg) (snd tg))
       (map_option (\<lambda>tg'. wire_receipt b (fst tg') (snd tg')) oth))"

definition promise_ok :: "config \<Rightarrow> (receipt \<Rightarrow> bool) \<Rightarrow> string \<Rightarrow> string \<times> string \<Rightarrow> bool" where
  "promise_ok cfg verify b tg \<longleftrightarrow> wire_receipt_ok cfg b (fst tg) (snd tg) \<and> verify (client_receipt b tg)"

lemma process_event_message:
  assumes "small_config cfg" and "rcursor r = Some c" and "through r = Some th" and "Suc (seq c) = n"
    and "n \<le> max_seq cfg" and "caughtUp r \<or> n \<le> th" and "wire_receipt_ok cfg b (fst tg) (snd tg)"
  shows "process cfg r (event_message n b tg oth) =
    Inr (r, AwaitReceipt n (client_receipt b tg)
      (Some (wire_option (map_option (\<lambda>tg'. wire_receipt b (fst tg') (snd tg')) oth))))"
  using assms
  by (simp add: event_message_def process_type [OF jget_wire(6)] process_event_def wire_fields sequence_jnat
      small_config_def check_receipt_wire client_receipt_def Let_def)

lemma handle_event:
  assumes "small_config cfg" and "rcursor r = Some c" and "through r = Some th" and "Suc (seq c) = n"
    and "n \<le> max_seq cfg" and "caughtUp r \<or> n \<le> th" and "promise_ok cfg verify b tg"
    and "\<forall>tg'. oth = Some tg' \<longrightarrow> promise_ok cfg verify b tg' \<and> fst tg' \<noteq> fst tg"
  shows "handle cfg verify ev r (event_message n b tg oth) =
    Some (accept_event True ev r (generation r) n (client_receipt b tg) (map_option (client_receipt b) oth))"
proof (cases oth)
  case None
  then show ?thesis
    using assms process_event_message [of cfg r c th n b tg oth]
    by (simp add: handle_def wire_option_def promise_ok_def)
next
  case (Some tg')
  have "wire_receipt b (fst tg') (snd tg') \<noteq> JNull" by (simp add: wire_receipt_def)
  with Some show ?thesis
    using assms process_event_message [of cfg r c th n b tg oth]
    by (auto simp: handle_def wire_option_def promise_ok_def check_receipt_wire client_receipt_def)
qed

section \<open>Frames within the limit\<close>

lemma is_digit_hex: "is_digit c \<Longrightarrow> is_lower_hex c"
proof -
  have "set ''0123456789'' \<subseteq> set ''0123456789abcdef''" by simp
  then show "is_digit c \<Longrightarrow> is_lower_hex c" unfolding is_digit_def is_lower_hex_def by (rule subsetD)
qed

lemma plain_digits: "all_digits n \<Longrightarrow> plain_string n"
  by (auto simp: all_digits_def plain_string_def list_all_iff is_digit_hex)

lemma bond_ok_parts:
  assumes "bond_ok b"
  obtains h n where "b = h @ CHR '':'' # n" "hex_string 64 h" "n = ''0'' \<or> (all_digits n \<and> length n \<le> 10)"
proof
  show "hex_string 64 (take 64 b)"
    and "tl (drop 64 b) = ''0'' \<or> all_digits (tl (drop 64 b)) \<and> length (tl (drop 64 b)) \<le> 10"
    using assms unfolding bond_ok_def OUTPOINT_test_def Let_def by blast+
  have "drop 64 b \<noteq> []" and "hd (drop 64 b) = CHR '':''"
    using assms unfolding bond_ok_def OUTPOINT_test_def starts_def Let_def by blast+
  then have "drop 64 b = CHR '':'' # tl (drop 64 b)" by (cases "drop 64 b") simp_all
  then show "b = take 64 b @ CHR '':'' # tl (drop 64 b)" by (metis append_take_drop_id)
qed

lemma bond_ok_plain:
  assumes "bond_ok b"
  shows "plain_string b" and "length b \<le> 75"
proof -
  from assms obtain h n where b: "b = h @ CHR '':'' # n" and h: "hex_string 64 h"
    and n: "n = ''0'' \<or> (all_digits n \<and> length n \<le> 10)" by (rule bond_ok_parts)
  have "all_digits ''0'' \<and> length ''0'' \<le> 10" by (simp add: all_digits_def is_digit_def)
  with n have d: "all_digits n" "length n \<le> 10" by blast+
  show "plain_string b" using plain_hex [OF h] plain_digits [OF d(1)] b by simp
  show "length b \<le> 75" using h d(2) b by (simp add: hex_string_def)
qed

lemma hex_plain_length: "hex_string n s \<Longrightarrow> plain_string s \<and> length s = n"
  using plain_hex by (auto simp: hex_string_def)

lemma frame_ok_event:
  assumes "bond_ok b" and "n \<le> 9007199254740991" and "hex_string 64 (fst tg)" "hex_string 128 (snd tg)"
    and "\<forall>tg'. oth = Some tg' \<longrightarrow> hex_string 64 (fst tg') \<and> hex_string 128 (snd tg')"
  shows "frame_ok (event_message n b tg oth)"
proof -
  have rc: "length (json_print (wire_receipt b (fst x) (snd x))) \<le> 303"
    if "hex_string 64 (fst x)" "hex_string 128 (snd x)" for x
    using bond_ok_plain [OF assms(1)] that by (simp add: length_wire_receipt hex_plain_length)
  have "length (json_print (wire_option (map_option (\<lambda>tg'. wire_receipt b (fst tg') (snd tg')) oth))) \<le> 303"
    using rc assms(5) by (cases oth) (auto simp: wire_option_def)
  with rc [OF assms(3,4)]
    length_wire_event [OF assms(2), of "wire_receipt b (fst tg) (snd tg)"
      "map_option (\<lambda>tg'. wire_receipt b (fst tg') (snd tg')) oth"]
  have "length (json_print (event_message n b tg oth)) \<le> 4096" unfolding event_message_def by linarith
  moreover have "wire_ok (event_message n b tg oth)"
    unfolding event_message_def wire_ok_messages(6) using assms(2)
    by (intro wire_ok_messages(4)) auto
  ultimately show ?thesis by (simp add: frame_ok_def MAX_FRAME_def)
qed

lemma frame_ok_begin:
  assumes "hex_string 64 p" "hex_string 64 s" "f \<le> 9007199254740991" "th \<le> 9007199254740991"
  shows "frame_ok (wire_begin p s f th)"
  using assms length_wire_begin [of p s f th] by (simp add: frame_ok_def hex_plain_length MAX_FRAME_def)

lemma frame_ok_status:
  assumes "hex_string 64 s" "n \<le> 9007199254740991"
  shows "frame_ok (wire_caught_up (wire_cursor s n))" and "frame_ok (wire_heartbeat (wire_cursor s n))"
  using assms length_wire_cursor [of s n]
  by (simp_all add: frame_ok_def hex_plain_length MAX_FRAME_def length_wire_status)

end
