(* ===== verification/Monitor_Demo.thy ===== *)
theory Monitor_Demo
  imports Monitor_Wire
begin

text \<open>
  A concrete session of the monitor: two relays, one pinned bond, two conflicting promises.
  Both relays open, replay the two events and report that they have caught up. The properties
  of the monitor are applied to this run.
\<close>

definition demo_hash :: "char \<Rightarrow> string" where
  "demo_hash c = replicate 64 c"

definition demo_bond :: string where
  "demo_bond = demo_hash CHR ''b'' @ '':0''"

definition demo_signature :: string where
  "demo_signature = replicate 128 CHR ''5''"

definition demo_URL :: "string \<Rightarrow> url_parts option" where
  "demo_URL u = Some \<lparr>username = [], password = [], hash = [], protocol = ''wss:'', hostname = u, href = u\<rparr>"

definition demo_args :: ctor_args where
  "demo_args = \<lparr>arg_profile = demo_hash CHR ''a'', arg_bonds = [demo_bond], arg_relays = [''r1'', ''r2''],
     arg_verify = True, arg_WebSocket = True, arg_staleMs = Some 10000, arg_reconnectMs = Some 1000\<rparr>"

definition demo_cfg :: config where
  "demo_cfg = \<lparr>profile = demo_hash CHR ''a'', bonds = [demo_bond], staleMs = 10000, retryMs = 1000\<rparr>"

definition demo_monitor :: monitor where
  "demo_monitor = \<lparr>running = False, timer = False, relays = [new_relay ''r1'', new_relay ''r2''], evidence = []\<rparr>"

definition demo_verify :: "receipt \<Rightarrow> bool" where
  "demo_verify rc = (case txid rc of JStr _ \<Rightarrow> True | _ \<Rightarrow> False)"

definition demo_messages :: "json list" where
  "demo_messages =
     [wire_begin (demo_hash CHR ''a'') (demo_hash CHR ''e'') 0 2,
      event_message 1 demo_bond (demo_hash CHR ''c'', demo_signature) None,
      event_message 2 demo_bond (demo_hash CHR ''d'', demo_signature) (Some (demo_hash CHR ''c'', demo_signature)),
      wire_caught_up (wire_cursor (demo_hash CHR ''e'') 2)]"

definition demo_opening :: "event list" where
  "demo_opening = [Start 0 [], SocketOpen 0 1 True, SocketOpen 1 1 True]"

definition demo_run :: "event list" where
  "demo_run = demo_opening @ deliver_all 0 1 5 demo_messages @ deliver_all 1 1 5 demo_messages"

lemma demo_hash_hex: "is_lower_hex c \<Longrightarrow> hex_string 64 (demo_hash c)"
  by (simp add: hex_string_def demo_hash_def list_all_iff)

lemma demo_hashes [simp]:
  "hex_string 64 (demo_hash CHR ''a'')" "hex_string 64 (demo_hash CHR ''b'')" "hex_string 64 (demo_hash CHR ''c'')"
  "hex_string 64 (demo_hash CHR ''d'')" "hex_string 64 (demo_hash CHR ''e'')"
  by (simp_all add: demo_hash_hex is_lower_hex_def)

lemma demo_signature_hex [simp]: "hex_string 128 demo_signature"
  by (simp add: hex_string_def demo_signature_def list_all_iff is_lower_hex_def)

lemma demo_hash_inject [simp]: "demo_hash c = demo_hash d \<longleftrightarrow> c = d"
  by (simp add: demo_hash_def)

lemma demo_bond_ok [simp]: "bond_ok demo_bond"
proof -
  have "length (demo_hash CHR ''b'') = 64" by (simp add: demo_hash_def)
  then show ?thesis
    by (simp add: bond_ok_def OUTPOINT_test_def demo_bond_def starts_def Let_def decimal_value_def digit_value_def)
qed

lemma demo_new: "new_monitor demo_URL demo_args = Inr (demo_cfg, demo_monitor)"
  by (simp add: new_monitor_def demo_args_def demo_URL_def demo_cfg_def demo_monitor_def endpoint_def at_least_def)

lemma demo_small [simp]: "small_config demo_cfg"
  by (simp add: small_config_def max_seq_def demo_cfg_def)

lemma demo_cfg_simps [simp]:
  "profile demo_cfg = demo_hash CHR ''a''" "bonds demo_cfg = [demo_bond]" "max_seq demo_cfg = 2"
  "staleMs demo_cfg = 10000"
  by (simp_all add: demo_cfg_def max_seq_def)

lemma demo_promise [simp]:
  "promise_ok demo_cfg demo_verify demo_bond (demo_hash CHR ''c'', demo_signature)"
  "promise_ok demo_cfg demo_verify demo_bond (demo_hash CHR ''d'', demo_signature)"
  by (simp_all add: promise_ok_def wire_receipt_ok_def demo_verify_def client_receipt_def)

lemma demo_frames: "list_all frame_ok demo_messages"
  by (simp add: demo_messages_def frame_ok_event frame_ok_begin frame_ok_status)

abbreviation demo_receipt :: "char \<Rightarrow> receipt" where
  "demo_receipt c \<equiv> client_receipt demo_bond (demo_hash c, demo_signature)"

lemma demo_handle:
  assumes "rcursor r = None" and "through r = None"
  shows "handle_all demo_cfg demo_verify 5 ev r demo_messages =
    Some (foldl remember_evidence ev [demo_receipt CHR ''c'', demo_receipt CHR ''d'', demo_receipt CHR ''c''],
      r\<lparr>rcursor := Some \<lparr>stream = JStr (demo_hash CHR ''e''), seq = 2\<rparr>, through := Some 2, caughtUp := True,
        lastMessage := Some 5, rerror := None, 
        seen := foldl remember_seen (seen r) [demo_receipt CHR ''c'', demo_receipt CHR ''d'', demo_receipt CHR ''c''],
        changes := changes r + 8\<rparr>)"
  using assms handle_begin [of demo_cfg r "demo_hash CHR ''e''" 0 2]
  by (simp add: demo_messages_def handle_event handle_caught_up settled_def accept_event_split current_def
      accepted_receipts_def)

definition demo_opened :: "string \<Rightarrow> relay" where
  "demo_opened u = (new_relay u)\<lparr>opened := Some 0, generation := 1,
     rsocket := Some \<lparr>socket_generation = 1, readyState = OPEN\<rparr>, rerror := Some ''synchronizing'',
     listeners := [1], sent := [(1, subscribe_message demo_cfg (new_relay u))]\<rparr>"

definition demo_evidence :: evidence_map where
  "demo_evidence = [(demo_bond, [(JStr (demo_hash CHR ''c''), demo_receipt CHR ''c''),
                                 (JStr (demo_hash CHR ''d''), demo_receipt CHR ''d'')])]"

definition demo_synced :: "string \<Rightarrow> relay" where
  "demo_synced u = (demo_opened u)\<lparr>rcursor := Some \<lparr>stream = JStr (demo_hash CHR ''e''), seq = 2\<rparr>,
     through := Some 2, caughtUp := True, lastMessage := Some 5, rerror := None,
     seen := [(demo_bond, [JStr (demo_hash CHR ''c''), JStr (demo_hash CHR ''d'')])], changes := 8\<rparr>"

definition demo_end :: monitor where
  "demo_end = \<lparr>running = True, timer = True, relays = [demo_synced ''r1'', demo_synced ''r2''],
     evidence = demo_evidence\<rparr>"

lemma demo_opening_run:
  "run_turns demo_cfg demo_verify demo_monitor demo_opening =
     \<lparr>running = True, timer = True, relays = [demo_opened ''r1'', demo_opened ''r2''], evidence = []\<rparr>"
  by (simp add: demo_opening_def demo_monitor_def step_def start_def connect_def relay_step_def listened_def
      on_open_def current_def set_ready_def new_relay_def demo_opened_def subscribe_message_def Let_def)

lemma demo_remember:
  "foldl remember_evidence [] [demo_receipt CHR ''c'', demo_receipt CHR ''d'', demo_receipt CHR ''c''] = demo_evidence"
  "foldl remember_evidence demo_evidence [demo_receipt CHR ''c'', demo_receipt CHR ''d'', demo_receipt CHR ''c''] = demo_evidence"
  "foldl remember_seen [] [demo_receipt CHR ''c'', demo_receipt CHR ''d'', demo_receipt CHR ''c'']
     = [(demo_bond, [JStr (demo_hash CHR ''c''), JStr (demo_hash CHR ''d'')])]"
  by (simp_all add: remember_evidence_def remember_seen_def bond_evidence_def demo_evidence_def client_receipt_def
      Let_def set_add_def set_has_def)

lemma demo_relay_run:
  "handle_all demo_cfg demo_verify 5 [] (demo_opened u) demo_messages = Some (demo_evidence, demo_synced u)"
  "handle_all demo_cfg demo_verify 5 demo_evidence (demo_opened u) demo_messages = Some (demo_evidence, demo_synced u)"
proof -
  have "rcursor (demo_opened u) = None" "through (demo_opened u) = None" "seen (demo_opened u) = []"
    "changes (demo_opened u) = 0"
    by (simp_all add: demo_opened_def new_relay_def)
  note eq = demo_handle [OF this(1,2), unfolded this(3) demo_remember(3), unfolded this(4)]
  show "handle_all demo_cfg demo_verify 5 [] (demo_opened u) demo_messages = Some (demo_evidence, demo_synced u)"
    unfolding eq demo_remember(1) by (simp add: demo_synced_def)
  show "handle_all demo_cfg demo_verify 5 demo_evidence (demo_opened u) demo_messages = Some (demo_evidence, demo_synced u)"
    unfolding eq demo_remember(2) by (simp add: demo_synced_def)
qed

lemma demo_final: "run_turns demo_cfg demo_verify demo_monitor demo_run = demo_end"
proof -
  let ?m = "\<lparr>running = True, timer = True, relays = [demo_opened ''r1'', demo_opened ''r2''], evidence = []\<rparr>"
  have ready: "ready_for (Suc 0) (demo_opened u)" for u
    by (simp add: ready_for_def demo_opened_def new_relay_def)
  have "run_turns demo_cfg demo_verify ?m (deliver_all 0 1 5 demo_messages)
      = ?m\<lparr>evidence := demo_evidence, relays := [demo_synced ''r1'', demo_opened ''r2'']\<rparr>"
    using deliver_handle_all [of 0 ?m 1 demo_messages demo_cfg demo_verify 5 demo_evidence "demo_synced ''r1''"]
    by (simp add: ready demo_frames demo_relay_run)
  moreover
  let ?n = "?m\<lparr>evidence := demo_evidence, relays := [demo_synced ''r1'', demo_opened ''r2'']\<rparr>"
  have "run_turns demo_cfg demo_verify ?n (deliver_all 1 1 5 demo_messages)
      = ?n\<lparr>relays := [demo_synced ''r1'', demo_synced ''r2'']\<rparr>"
    using deliver_handle_all [of 1 ?n 1 demo_messages demo_cfg demo_verify 5 demo_evidence "demo_synced ''r2''"]
    by (simp add: ready demo_frames demo_relay_run)
  ultimately show ?thesis
    by (simp add: demo_run_def run_turns_append demo_opening_run demo_end_def)
qed

end
