(* ===== verification/Monitor_Lift.thy ===== *)
theory Monitor_Lift
  imports Monitor_Session
begin

text \<open>
  From one relay object to runs of the whole monitor of \<^verbatim>\<open>client/monitor.mjs\<close>: what the
  constructor establishes, how a property that each operation on a relay keeps extends to every
  sequence of turns, and the invariant that a synchronized relay reports no error.
\<close>

section \<open>The constructor\<close>

lemma new_monitorD:
  assumes "new_monitor new_URL a = Inr (cfg, m)"
  shows "2 \<le> length (relays m)" and "length (relays m) \<le> 8" and "evidence m = []" and "\<not> running m"
    and "\<forall>r \<in> set (relays m). \<exists>u. r = new_relay u" and "1 \<le> length (bonds cfg)" and "length (bonds cfg) \<le> 128"
    and "100 \<le> staleMs cfg" and "distinct (map url (relays m))" and "distinct (bonds cfg)"
    and "list_all bond_ok (bonds cfg)" and "hex_string 64 (profile cfg)"
proof -
  have len: "map_res f xs = Inr ys \<Longrightarrow> length ys = length xs" for f :: "string \<Rightarrow> string res" and xs ys
    by (induction xs arbitrary: ys) (auto simp: res_simps)
  have url: "map (\<lambda>u. url (new_relay u)) us = us" for us
    by (simp add: new_relay_def)
  show "2 \<le> length (relays m)" and "length (relays m) \<le> 8" and "evidence m = []" and "\<not> running m"
    and "\<forall>r \<in> set (relays m). \<exists>u. r = new_relay u" and "1 \<le> length (bonds cfg)" and "length (bonds cfg) \<le> 128"
    and "100 \<le> staleMs cfg" and "list_all bond_ok (bonds cfg)" and "hex_string 64 (profile cfg)"
    using assms
    by (auto simp: new_monitor_def res_simps at_least_def split: option.splits dest: len)
  show "distinct (bonds cfg)"
    using assms by (auto simp: new_monitor_def res_simps distinct_card card_distinct length_remdups_card_conv)
  show "distinct (map url (relays m))"
    using assms
    by (auto simp: new_monitor_def res_simps o_def url card_distinct length_remdups_card_conv)
qed

lemma after_inv: "new_monitor new_URL a = Inr (cfg, m) \<Longrightarrow> monitor_inv cfg verify (run_turns cfg verify m es)"
  by (intro inv_run_turns inv_new_monitor)

lemma after_replay: "new_monitor new_URL a = Inr (cfg, m) \<Longrightarrow>
    replay_ok m (history cfg verify m es) (run_turns cfg verify m es)"
  by (intro replay_ok_run inv_new_monitor)

lemma history_append:
  "history cfg verify m (es @ es') = history cfg verify m es @ history cfg verify (run_turns cfg verify m es) es'"
  by (induction es arbitrary: m) simp_all

section \<open>A synchronized relay reports no error\<close>

definition error_clear :: "relay \<Rightarrow> bool" where
  "error_clear r \<longleftrightarrow> (caughtUp r \<and> queue r = [] \<longrightarrow> rerror r = None)"

lemma error_clear_lose [simp]: "error_clear (lose run r reason again)"
  by (simp add: error_clear_def lose_def changed_def Let_def)

lemma error_clear_frame [simp]:
  "error_clear (r\<lparr>rsocket := s\<rparr>) = error_clear r"
  "error_clear (r\<lparr>sent := ms\<rparr>) = error_clear r"
  by (simp_all add: error_clear_def)

lemma error_clear_connect: "\<not> caughtUp r \<Longrightarrow> error_clear (connect run now refused r)"
  by (simp add: connect_def Let_def) (simp add: error_clear_def)

lemma error_clear_run_queue:
  assumes "relay_inv cfg verify run r" and "error_clear r" and "run_queue cfg verify run now ev r = (ev', r')"
  shows "error_clear r'"
proof (cases "queue r")
  case Nil
  with assms show ?thesis by (simp add: run_queue_empty)
next
  case (Cons j js)
  with assms inv_queue_head(1) [OF assms(1) Cons] show ?thesis
    by (auto simp: run_queue_def run_job_def current_def continue_chain_def changed_def error_clear_def lose_def Let_def
        split: phase.splits if_splits option.splits sum.splits prod.splits)
qed

lemma error_clear_step:
  assumes inv: "relay_inv cfg verify run r" and "error_clear r" and "relay_step cfg verify run ev r e = (ev', r')"
  shows "error_clear r'"
proof (cases e)
  case (RetryTimer i now refused)
  have "retry r \<Longrightarrow> \<not> caughtUp r" using inv by (auto simp: relay_inv_def socket_ok_def split: option.splits)
  with RetryTimer assms show ?thesis by (auto simp: relay_step_def error_clear_connect split: if_splits)
next
  case (RunQueue i now)
  with assms error_clear_run_queue show ?thesis by (simp add: relay_step_def)
next
  case (RunOrphan i k now)
  with assms run_orphan_eq [OF inv, of now k ev] show ?thesis
    by (auto simp: relay_step_def error_clear_def)
next
  case (SocketMessage i g now data)
  with assms(2,3) show ?thesis
    by (auto simp: relay_step_def listened_def on_message_def changed_def error_clear_def lose_def Let_def
        split: ws_data.splits if_splits)
qed (use assms in \<open>auto simp: relay_step_def listened_def on_open_def on_close_def on_error_def set_ready_def
      split: option.splits if_splits\<close>)

text \<open>A property of relay objects that every operation on one relay keeps holds after every turn.\<close>

lemma relays_step:
  assumes inv: "monitor_inv cfg verify m" and all: "\<forall>r \<in> set (relays m). P r"
    and step: "\<And>r ev e ev' r'. relay_inv cfg verify (running m) r \<Longrightarrow> P r \<Longrightarrow>
      relay_step cfg verify (running m) ev r e = (ev', r') \<Longrightarrow> P r'"
    and lose: "\<And>r run reason again. P r \<Longrightarrow> P (lose run r reason again)"
    and connect: "\<And>r now refused. relay_inv cfg verify False r \<Longrightarrow> P r \<Longrightarrow> P (connect True now refused r)"
  shows "\<forall>r \<in> set (relays (Monitor.step cfg verify m e)). P r"
proof (cases "event_relay e")
  case None
  have "P (checkStaleness_relay cfg (running m) now r)" if "r \<in> set (relays m)" for now r
    using all lose that by (auto simp: checkStaleness_relay_def Let_def split: option.splits)
  moreover have "P (connect True now refused r)" if "r \<in> set (relays m)" "\<not> running m" for now refused r
    using all inv connect that by (auto simp: monitor_inv_def)
  ultimately show ?thesis
    using None all lose
    by (cases e) (auto simp: step_def start_def stop_def checkStaleness_def)
next
  case (Some i)
  obtain ev r where rs: "relay_step cfg verify (running m) (evidence m) (relays m ! i) e = (ev, r)"
    by fastforce
  have "i < length (relays m) \<Longrightarrow> P r"
    using step [OF _ _ rs] inv all by (simp add: monitor_inv_def)
  with Some all rs show ?thesis
    by (cases e) (auto simp: step_def dest: set_update_subset_insert [THEN subsetD])
qed

lemma relays_run:
  assumes "monitor_inv cfg verify m" and "\<forall>r \<in> set (relays m). P r"
    and "\<And>run r ev e ev' r'. relay_inv cfg verify run r \<Longrightarrow> P r \<Longrightarrow>
      relay_step cfg verify run ev r e = (ev', r') \<Longrightarrow> P r'"
    and "\<And>r run reason again. P r \<Longrightarrow> P (lose run r reason again)"
    and "\<And>r now refused. relay_inv cfg verify False r \<Longrightarrow> P r \<Longrightarrow> P (connect True now refused r)"
  shows "\<forall>r \<in> set (relays (run_turns cfg verify m es)). P r"
  using assms(1,2)
proof (induction es arbitrary: m)
  case (Cons e es)
  have "\<forall>r \<in> set (relays (Monitor.step cfg verify m e)). P r"
    using Cons.prems assms(3-5) by (intro relays_step)
  with Cons.IH [OF inv_step [OF Cons.prems(1)]] show ?case by simp
qed simp

lemma error_clear_run:
  assumes "new_monitor new_URL a = Inr (cfg, m)"
  shows "\<forall>r \<in> set (relays (run_turns cfg verify m es)). error_clear r"
proof (rule relays_run [OF inv_new_monitor [OF assms, of verify]])
  show "\<forall>r \<in> set (relays m). error_clear r"
    using new_monitorD(5) [OF assms] by (auto simp: error_clear_def new_relay_def)
  show "error_clear (connect True now refused r)" if "relay_inv cfg verify False r" for now refused r
    using that by (intro error_clear_connect) (auto simp: relay_inv_def socket_ok_def split: option.splits)
qed (use error_clear_step in auto)

end
