(* ===== verification/Monitor_Props.thy ===== *)
theory Monitor_Props
  imports Monitor_Demo Monitor_Lift
begin

text \<open>
  The properties of the browser monitor \<^verbatim>\<open>client/monitor.mjs\<close>, for every sequence of turns of
  the event loop after the constructor: what a reported readiness means, what the cursor and the
  retained evidence mean, what lost connections, late verifications and protocol violations can
  and cannot change.
\<close>

section \<open>Readiness\<close>

lemma healthyD:
  assumes "relay_inv cfg verify run r" and "error_clear r" and "healthy cfg run now r"
  shows "\<exists>s c th l. run \<and> rsocket r = Some s \<and> readyState s = OPEN \<and> socket_generation s = generation r
    \<and> queue r = [] \<and> \<not> retry r \<and> rerror r = None \<and> rcursor r = Some c \<and> through r = Some th \<and> th \<le> seq c
    \<and> lastMessage r = Some l \<and> l \<le> now \<and> now < l + staleMs cfg"
  using assms by (auto simp: healthy_def relay_inv_def jobs_ok_def socket_ok_def cursor_ok_def error_clear_def
      split: option.splits)

text \<open>
  C1. Readiness is sound: when \<open>health()\<close> reports \<open>monitoringReady\<close> in any reachable state, the
  monitor runs with at least two relays, and every relay has an open socket of its current
  generation, no queued or unverified message, no armed retry timer and no error, has replayed
  up to the high-water mark of its synchronization header, and its last processed message is
  younger than \<open>staleMs\<close> and not from the future.
\<close>

theorem monitoringReady_sound:
  assumes "new_monitor new_URL a = Inr (cfg, m0)"
    and "monitoringReady (health cfg now (run_turns cfg verify m0 es))"
  shows "running (run_turns cfg verify m0 es) \<and> 2 \<le> length (relays (run_turns cfg verify m0 es))
    \<and> (\<forall>r \<in> set (relays (run_turns cfg verify m0 es)). \<exists>s c th l.
          rsocket r = Some s \<and> readyState s = OPEN \<and> socket_generation s = generation r
          \<and> queue r = [] \<and> \<not> retry r \<and> rerror r = None
          \<and> rcursor r = Some c \<and> through r = Some th \<and> th \<le> seq c
          \<and> lastMessage r = Some l \<and> l \<le> now \<and> now < l + staleMs cfg)"
proof -
  let ?m = "run_turns cfg verify m0 es"
  have len: "2 \<le> length (relays ?m)"
    using after_replay [OF assms(1)] new_monitorD(1) [OF assms(1)] by (simp add: replay_ok_def)
  have h: "\<forall>r \<in> set (relays ?m). healthy cfg (running ?m) now r"
    using assms(2) by (simp add: health_def list_all_iff)
  have d: "\<exists>s c th l. running ?m \<and> rsocket r = Some s \<and> readyState s = OPEN \<and> socket_generation s = generation r
      \<and> queue r = [] \<and> \<not> retry r \<and> rerror r = None \<and> rcursor r = Some c \<and> through r = Some th \<and> th \<le> seq c
      \<and> lastMessage r = Some l \<and> l \<le> now \<and> now < l + staleMs cfg" if "r \<in> set (relays ?m)" for r
    using that h after_inv [OF assms(1), of verify es] error_clear_run [OF assms(1), of verify es]
    by (intro healthyD) (auto simp: monitor_inv_def)
  have "relays ?m ! 0 \<in> set (relays ?m)" using len by (intro nth_mem) linarith
  from d [OF this] have "running ?m" by blast
  with len d show ?thesis by blast
qed

lemma demo_ready: "monitoringReady (health demo_cfg 10 demo_end)"
  by (simp add: health_def demo_end_def healthy_def demo_synced_def demo_opened_def new_relay_def)

theorem monitoringReady_sound_witness:
  "new_monitor demo_URL demo_args = Inr (demo_cfg, demo_monitor)
   \<and> monitoringReady (health demo_cfg 10 (run_turns demo_cfg demo_verify demo_monitor demo_run))
   \<and> running (run_turns demo_cfg demo_verify demo_monitor demo_run)"
  using monitoringReady_sound [OF demo_new, of 10 demo_verify demo_run] demo_new demo_ready
  unfolding demo_final by blast

section \<open>The cursor\<close>

text \<open>
  C2. The cursor is an exact account: at every relay and in every reachable state, however often
  the connection was lost and reopened, the numbers of the events accepted from it are
  1, 2, ..., up to its cursor, in this order, without gap and without repetition, and later turns
  never move the cursor back or to another stream.
\<close>

theorem cursor_exact:
  assumes "new_monitor new_URL a = Inr (cfg, m0)" and "i < length (relays m0)"
  shows "map fst (at_relay i (history cfg verify m0 es)) = [1..<Suc (last_seq (relays (run_turns cfg verify m0 es) ! i))]
    \<and> cursor_extends (rcursor (relays (run_turns cfg verify m0 es) ! i))
        (rcursor (relays (run_turns cfg verify m0 (es @ es')) ! i))"
proof -
  have "replay_ok (run_turns cfg verify m0 es) (history cfg verify (run_turns cfg verify m0 es) es')
      (run_turns cfg verify m0 (es @ es'))"
    using replay_ok_run [OF after_inv [OF assms(1)]] by (simp add: run_turns_append)
  moreover have "last_seq (relays m0 ! i) = 0"
    using new_monitorD(5) [OF assms(1)] assms(2) nth_mem [of i "relays m0"]
    by (fastforce simp: last_seq_def new_relay_def)
  ultimately show ?thesis
    using after_replay [OF assms(1), of verify es] assms(2) by (simp add: replay_ok_def)
qed

theorem cursor_exact_witness:
  "map fst (at_relay 0 (history demo_cfg demo_verify demo_monitor demo_run)) = [1, 2]"
proof -
  have "0 < length (relays demo_monitor)" by (simp add: demo_monitor_def)
  moreover have "[1..<Suc (last_seq (relays demo_end ! 0))] = [1, 2]"
    by (simp add: last_seq_def demo_end_def demo_synced_def upt_rec)
  ultimately show ?thesis
    using cursor_exact [OF demo_new, of 0 demo_verify demo_run "[]"] unfolding demo_final by simp
qed

section \<open>Evidence\<close>

abbreviation accepted_for :: "config \<Rightarrow> (receipt \<Rightarrow> bool) \<Rightarrow> monitor \<Rightarrow> event list \<Rightarrow> string \<Rightarrow> receipt list" where
  "accepted_for cfg verify m es b \<equiv>
     filter (\<lambda>rc. bond rc = b) (accepted_receipts (map snd (history cfg verify m es)))"

lemma bond_evidence_after:
  assumes "new_monitor new_URL a = Inr (cfg, m)"
  shows "bond_evidence (evidence (run_turns cfg verify m es)) b = foldl keep_two [] (accepted_for cfg verify m es b)"
proof -
  have "bond_evidence [] b = []" by (simp add: bond_evidence_def)
  then show ?thesis
    using after_replay [OF assms, of verify es] new_monitorD(3) [OF assms]
    by (simp add: replay_ok_def bond_evidence_foldl)
qed

lemma observationD:
  assumes "observation cfg now m b t = Inr rep"
  shows "b \<in> set (bonds cfg)" and "hex_string 64 t" and "o_evidence rep = map snd (bond_evidence (evidence m) b)"
    and "conflicted rep \<longleftrightarrow> 1 < length (bond_evidence (evidence m) b)"
    and "monitoringReady rep = monitoringReady (health cfg now m)"
    and "observedEverywhere rep \<longleftrightarrow>
      (\<forall>r \<in> set (relays m). healthy cfg (running m) now r \<and> set_has strict_eq (bond_seen r b) (JStr t))"
proof -
  have "length (filter P xs) = length xs \<longleftrightarrow> (\<forall>x \<in> set xs. P x)" for P and xs :: "relay list"
    by (metis filter_True length_filter_less less_irrefl)
  then show "b \<in> set (bonds cfg)" and "hex_string 64 t" and "o_evidence rep = map snd (bond_evidence (evidence m) b)"
    and "conflicted rep \<longleftrightarrow> 1 < length (bond_evidence (evidence m) b)"
    and "monitoringReady rep = monitoringReady (health cfg now m)"
    and "observedEverywhere rep \<longleftrightarrow>
      (\<forall>r \<in> set (relays m). healthy cfg (running m) now r \<and> set_has strict_eq (bond_seen r b) (JStr t))"
    using assms
    by (auto simp: observation_def res_simps Let_def health_def health_report.extend_def observation_report.fields_def)
qed

lemma sorted_wrt_same:
  assumes "\<forall>rc \<in> set rcs. \<exists>t. txid rc = JStr t"
  shows "sorted_wrt same_txid rcs \<longleftrightarrow> (\<forall>rc \<in> set rcs. \<forall>rc' \<in> set rcs. txid rc = txid rc')"
  using assms
proof (induction rcs)
  case (Cons r rs)
  then obtain t where t: "txid r = JStr t" by auto
  have "sorted_wrt same_txid (r # rs) \<longleftrightarrow> (\<forall>rc \<in> set rs. txid rc = JStr t) \<and> sorted_wrt same_txid rs"
    by (simp add: t strict_eq_JStr)
  also have "\<dots> \<longleftrightarrow> (\<forall>rc \<in> set rs. txid rc = JStr t)" using Cons by auto
  finally show ?case using t by auto
qed simp

text \<open>
  C3. The conflict flag is exact: for a verifier that only accepts receipts whose transaction id
  is a string, \<open>observation\<close> reports \<open>conflicted\<close> for a bond if and only if the monitor accepted, from
  any of its relays at any time, two receipts for this bond with different transaction ids.
\<close>

theorem conflicted_iff:
  assumes "new_monitor new_URL a = Inr (cfg, m0)" and "\<forall>rc. verify rc \<longrightarrow> (\<exists>t. txid rc = JStr t)"
    and "observation cfg now (run_turns cfg verify m0 es) b t = Inr rep"
  shows "conflicted rep \<longleftrightarrow>
    (\<exists>rc rc'. rc \<in> set (accepted_receipts (map snd (history cfg verify m0 es))) \<and> bond rc = b
       \<and> rc' \<in> set (accepted_receipts (map snd (history cfg verify m0 es))) \<and> bond rc' = b
       \<and> txid rc \<noteq> txid rc')"
proof -
  let ?rcs = "accepted_for cfg verify m0 es b"
  have "\<forall>rc \<in> set ?rcs. \<exists>t. txid rc = JStr t"
    using history_verified [OF inv_new_monitor [OF assms(1)]] assms(2) by fastforce
  note same = sorted_wrt_same [OF this]
  have "conflicted rep \<longleftrightarrow> \<not> length (foldl keep_two [] ?rcs) \<le> 1"
    using observationD(4) [OF assms(3)] bond_evidence_after [OF assms(1), of verify es b] by auto
  also have "\<dots> \<longleftrightarrow> \<not> sorted_wrt same_txid ?rcs" using keep_two_inv [of ?rcs] by simp
  finally show ?thesis unfolding same by auto
qed

definition demo_report :: observation_report where
  "demo_report = (case observation demo_cfg 10 demo_end demo_bond (demo_hash CHR ''c'') of Inr rep \<Rightarrow> rep)"

lemma demo_observation:
  "observation demo_cfg 10 demo_end demo_bond (demo_hash CHR ''c'') = Inr demo_report"
  "conflicted demo_report" "observedEverywhere demo_report"
  "o_evidence demo_report = [demo_receipt CHR ''c'', demo_receipt CHR ''d'']"
proof -
  have h: "healthy demo_cfg True 10 (demo_synced u)" for u
    by (simp add: healthy_def demo_synced_def demo_opened_def new_relay_def)
  show eq: "observation demo_cfg 10 demo_end demo_bond (demo_hash CHR ''c'') = Inr demo_report"
    by (simp add: demo_report_def observation_def Let_def)
  note d = observationD [OF eq]
  have "bond_evidence (evidence demo_end) demo_bond =
      [(JStr (demo_hash CHR ''c''), demo_receipt CHR ''c''), (JStr (demo_hash CHR ''d''), demo_receipt CHR ''d'')]"
    by (simp add: demo_end_def demo_evidence_def bond_evidence_def)
  then show "conflicted demo_report" and "o_evidence demo_report = [demo_receipt CHR ''c'', demo_receipt CHR ''d'']"
    using d(3,4) by simp_all
  have "bond_seen (demo_synced u) demo_bond = [JStr (demo_hash CHR ''c''), JStr (demo_hash CHR ''d'')]" for u
    by (simp add: bond_seen_def demo_synced_def)
  then show "observedEverywhere demo_report"
    using d(6) h by (simp add: demo_end_def set_has_def)
qed

theorem conflicted_iff_witness:
  "\<exists>rc rc'. rc \<in> set (accepted_receipts (map snd (history demo_cfg demo_verify demo_monitor demo_run)))
     \<and> rc' \<in> set (accepted_receipts (map snd (history demo_cfg demo_verify demo_monitor demo_run)))
     \<and> bond rc = demo_bond \<and> bond rc' = demo_bond \<and> txid rc \<noteq> txid rc'"
proof -
  have "\<forall>rc. demo_verify rc \<longrightarrow> (\<exists>t. txid rc = JStr t)"
    by (auto simp: demo_verify_def split: json.splits)
  from conflicted_iff [OF demo_new this, of 10 demo_run demo_bond "demo_hash CHR ''c''" demo_report]
  show ?thesis unfolding demo_final using demo_observation by blast
qed

lemma keep_two_full: "2 \<le> length e \<Longrightarrow> foldl keep_two e rcs = e"
  by (induction rcs) (simp_all add: keep_two_simps)

text \<open>
  C4. A conflict is never forgotten: once \<open>observation\<close> reports \<open>conflicted\<close> for a bond, every later
  observation of this bond, after any further messages, losses, stops and restarts, reports
  \<open>conflicted\<close> with the same two retained receipts.
\<close>

theorem conflict_sticky:
  assumes "new_monitor new_URL a = Inr (cfg, m0)"
    and "observation cfg now (run_turns cfg verify m0 es) b t = Inr rep" and "conflicted rep"
    and "observation cfg now' (run_turns cfg verify m0 (es @ es')) b t' = Inr rep'"
  shows "conflicted rep' \<and> o_evidence rep' = o_evidence rep"
proof -
  let ?e = "bond_evidence (evidence (run_turns cfg verify m0 es)) b"
  have "bond_evidence (evidence (run_turns cfg verify m0 (es @ es'))) b
      = foldl keep_two ?e (accepted_for cfg verify (run_turns cfg verify m0 es) es' b)"
    by (simp add: bond_evidence_after [OF assms(1)] history_append accepted_receipts_append)
  moreover have "2 \<le> length ?e" using observationD(4) [OF assms(2)] assms(3) by simp
  ultimately show ?thesis
    using observationD(3,4) [OF assms(2)] observationD(3,4) [OF assms(4)] by (simp add: keep_two_full)
qed

theorem conflict_sticky_witness:
  "\<exists>rep. observation demo_cfg 99 (run_turns demo_cfg demo_verify demo_monitor (demo_run @ [Stop])) demo_bond
     (demo_hash CHR ''d'') = Inr rep \<and> conflicted rep
     \<and> o_evidence rep = [demo_receipt CHR ''c'', demo_receipt CHR ''d'']"
proof -
  obtain rep where rep: "observation demo_cfg 99 (run_turns demo_cfg demo_verify demo_monitor (demo_run @ [Stop]))
      demo_bond (demo_hash CHR ''d'') = Inr rep"
    by (simp add: observation_def Let_def)
  from conflict_sticky [OF demo_new, of 10 demo_verify demo_run demo_bond "demo_hash CHR ''c''" demo_report 99
      "[Stop]" "demo_hash CHR ''d''" rep] rep demo_observation
  show ?thesis unfolding demo_final by auto
qed

lemma keep_two_pair:
  assumes "foldl keep_two [] rcs = [x, y]"
  shows "\<not> strict_eq (fst x) (fst y)"
  using assms
proof (induction rcs rule: rev_induct)
  case (snoc rc rcs)
  let ?e = "foldl keep_two [] rcs"
  consider "?e = []" | k r where "?e = [(k, r)]" | "2 \<le> length ?e"
    by (cases ?e; cases "tl ?e") auto
  then show ?case
  proof cases
    case 2
    with snoc.prems show ?thesis by (auto simp: keep_two_simps split: if_splits)
  qed (use snoc in \<open>auto simp: keep_two_simps\<close>)
qed simp

lemma keep_two_receipts:
  assumes e: "e = foldl keep_two [] rcs"
  shows "length e \<le> 2" and "set (map snd e) \<subseteq> set rcs"
    and "1 < length e \<Longrightarrow> \<exists>rc rc'. map snd e = [rc, rc'] \<and> \<not> strict_eq (txid rc) (txid rc')"
proof -
  show len: "length e \<le> 2" using keep_two_inv [of rcs] unfolding e by blast
  have sound: "rc \<in> set rcs \<and> k = txid rc" if "(k, rc) \<in> set e" for k rc
    using keep_two_sound that unfolding e .
  then show "set (map snd e) \<subseteq> set rcs" by auto
  assume "1 < length e"
  with len have "length e = Suc (Suc 0)" by simp
  then obtain k rc k' rc' where two: "e = [(k, rc), (k', rc')]" by (auto simp: length_Suc_conv)
  then have "\<not> strict_eq k k'" using keep_two_pair [of rcs "(k, rc)" "(k', rc')"] e by simp
  moreover have "k = txid rc" "k' = txid rc'" using sound two by auto
  ultimately show "\<exists>rc rc'. map snd e = [rc, rc'] \<and> \<not> strict_eq (txid rc) (txid rc')" using two by simp
qed



section \<open>Abandoned promise chains\<close>

lemma map_filter_update:
  "i < length xs \<Longrightarrow> P y = P (xs ! i) \<Longrightarrow> f y = f (xs ! i) \<Longrightarrow>
     map f (filter P (xs[i := y])) = map f (filter P xs)"
  by (induction xs arbitrary: i) (auto split: nat.split simp: nth_Cons')

lemma map_update_same: "i < length xs \<Longrightarrow> f y = f (xs ! i) \<Longrightarrow> map f (xs[i := y]) = map f xs"
  by (metis list_update_id map_update)

lemma observation_orphans:
  assumes "i < length (relays m)"
  shows "observation cfg now (m\<lparr>relays := (relays m)[i := (relays m ! i)\<lparr>orphans := os\<rparr>]\<rparr>) b t = observation cfg now m b t"
    and "health cfg now (m\<lparr>relays := (relays m)[i := (relays m ! i)\<lparr>orphans := os\<rparr>]\<rparr>) = health cfg now m"
proof -
  let ?m = "m\<lparr>relays := (relays m)[i := (relays m ! i)\<lparr>orphans := os\<rparr>]\<rparr>"
  have h: "healthy cfg run now (r\<lparr>orphans := os\<rparr>) = healthy cfg run now r" for run and r :: relay
    by (simp add: healthy_def)
  have "list_all (healthy cfg run now) (relays ?m) = list_all (healthy cfg run now) (relays m)" for run
    using arg_cong [OF map_update_same [OF assms, of "healthy cfg run now" "(relays m ! i)\<lparr>orphans := os\<rparr>"],
        of "list_all id"] h
    by (simp add: list.pred_map)
  with assms h show eq: "health cfg now ?m = health cfg now m"
    by (simp add: health_def map_update_same)
  with assms h show "observation cfg now ?m b t = observation cfg now m b t"
    by (simp add: observation_def map_filter_update bond_seen_def Let_def)
qed

text \<open>
  C8. Late verification is harmless: when a job of an abandoned promise chain resumes, whatever the
  verifier answers and whenever it answers, no observation, no health report and no cursor changes.
\<close>

theorem late_verification_harmless:
  assumes "new_monitor new_URL a = Inr (cfg, m0)"
  shows "observation cfg t (step cfg verify (run_turns cfg verify m0 es) (RunOrphan i k now)) b x
      = observation cfg t (run_turns cfg verify m0 es) b x
    \<and> health cfg t (step cfg verify (run_turns cfg verify m0 es) (RunOrphan i k now))
      = health cfg t (run_turns cfg verify m0 es)
    \<and> map rcursor (relays (step cfg verify (run_turns cfg verify m0 es) (RunOrphan i k now)))
      = map rcursor (relays (run_turns cfg verify m0 es))"
proof (cases "i < length (relays (run_turns cfg verify m0 es))")
  case False
  then show ?thesis by (simp add: step_def)
next
  case True
  let ?m = "run_turns cfg verify m0 es"
  have "relay_inv cfg verify (running ?m) (relays ?m ! i)"
    using after_inv [OF assms] True by (simp add: monitor_inv_def)
  from run_orphan_eq [OF this] obtain os where
    "run_orphan cfg verify (running ?m) now k (evidence ?m) (relays ?m ! i)
       = (evidence ?m, (relays ?m ! i)\<lparr>orphans := os\<rparr>)" by blast
  with True have "step cfg verify ?m (RunOrphan i k now)
      = ?m\<lparr>relays := (relays ?m)[i := (relays ?m ! i)\<lparr>orphans := os\<rparr>]\<rparr>"
    by (simp add: step_def relay_step_def)
  with True show ?thesis by (simp add: observation_orphans map_update_same)
qed

theorem late_verification_harmless_witness:
  "health demo_cfg 7 (step demo_cfg demo_verify
     (run_turns demo_cfg demo_verify demo_monitor
        (demo_opening @ [SocketMessage 0 1 5 (TextFrame ''null''), SocketClose 0 1])) (RunOrphan 0 0 6))
   = health demo_cfg 7 (run_turns demo_cfg demo_verify demo_monitor
        (demo_opening @ [SocketMessage 0 1 5 (TextFrame ''null''), SocketClose 0 1]))"
  using late_verification_harmless [OF demo_new, of 7 demo_verify _ 0 0 6] by blast

section \<open>Protocol violations\<close>













section \<open>Observation on every relay\<close>

abbreviation seen_of :: "(string \<times> json list) list \<Rightarrow> string \<Rightarrow> json list" where
  "seen_of sn b \<equiv> (case map_get (=) sn b of None \<Rightarrow> [] | Some s \<Rightarrow> s)"

lemma seen_of_remember:
  "seen_of (remember_seen sn rc) b =
     (if bond rc = b \<and> length (seen_of sn b) < 2 then set_add strict_eq (seen_of sn b) (txid rc) else seen_of sn b)"
  by (auto simp: remember_seen_def map_simps Let_def)

lemma seen_of_foldl:
  "k \<in> set (seen_of (foldl remember_seen [] rcs) b) \<Longrightarrow> \<exists>rc \<in> set rcs. bond rc = b \<and> txid rc = k"
proof (induction rcs rule: rev_induct)
  case (snoc rc rcs)
  have "k \<in> set (seen_of (foldl remember_seen [] rcs) b) \<or> (bond rc = b \<and> txid rc = k)"
    using snoc.prems unfolding foldl_append foldl.simps seen_of_remember
    by (auto simp: set_add_def split: if_splits)
  with snoc.IH show ?case by auto
qed simp

lemma seen_of_small: "length (seen_of (foldl remember_seen [] rcs) b) \<le> 2"
proof (induction rcs rule: rev_induct)
  case (snoc rc rcs)
  then show ?case unfolding foldl_append foldl.simps seen_of_remember by (auto simp: set_add_def)
qed simp

lemma relay_replay:
  assumes "new_monitor new_URL a = Inr (cfg, m0)" and "i < length (relays m0)"
  shows "seen (relays (run_turns cfg verify m0 es) ! i) =
    foldl remember_seen [] (accepted_receipts (at_relay i (history cfg verify m0 es)))"
    and "length (relays (run_turns cfg verify m0 es)) = length (relays m0)"
proof -
  have "seen (relays m0 ! i) = []"
    using new_monitorD(5) [OF assms(1)] assms(2) nth_mem [of i "relays m0"] by (fastforce simp: new_relay_def)
  with after_replay [OF assms(1), of verify es] assms(2)
  show "seen (relays (run_turns cfg verify m0 es) ! i) =
      foldl remember_seen [] (accepted_receipts (at_relay i (history cfg verify m0 es)))"
    and "length (relays (run_turns cfg verify m0 es)) = length (relays m0)"
    by (simp_all add: replay_ok_def)
qed

text \<open>
  C6. \<open>observedEverywhere\<close> is sound: when it is reported for a bond and a transaction id, monitoring is
  ready, and every single relay of the monitor delivered a verified receipt of this bond for this
  transaction id, as the receipt or as the conflicting receipt of an accepted event.
\<close>

theorem observedEverywhere_sound:
  assumes "new_monitor new_URL a = Inr (cfg, m0)"
    and "observation cfg now (run_turns cfg verify m0 es) b t = Inr rep" and "observedEverywhere rep"
  shows "monitoringReady rep
    \<and> (\<forall>i < length (relays m0). \<exists>rc \<in> set (accepted_receipts (at_relay i (history cfg verify m0 es))).
          bond rc = b \<and> txid rc = JStr t \<and> verify rc)"
proof -
  let ?m = "run_turns cfg verify m0 es"
  note obs = observationD [OF assms(2)]
  have all: "\<forall>r \<in> set (relays ?m). healthy cfg (running ?m) now r \<and> set_has strict_eq (bond_seen r b) (JStr t)"
    using obs(6) assms(3) by simp
  then have "monitoringReady rep" unfolding obs(5) by (simp add: health_def list_all_iff)
  moreover have "\<exists>rc \<in> set (accepted_receipts (at_relay i (history cfg verify m0 es))).
      bond rc = b \<and> txid rc = JStr t \<and> verify rc" if i: "i < length (relays m0)" for i
  proof -
    note replay = relay_replay [OF assms(1) i, of verify es]
    have "set_has strict_eq (bond_seen (relays ?m ! i) b) (JStr t)"
      using all i replay(2) nth_mem [of i "relays ?m"] by simp
    then have "JStr t \<in> set (seen_of (seen (relays ?m ! i)) b)"
      by (auto simp: set_has_def bond_seen_def list_ex_iff strict_eq_JStr)
    from seen_of_foldl [OF this [unfolded replay(1)]] obtain rc
      where rc: "rc \<in> set (accepted_receipts (at_relay i (history cfg verify m0 es)))" "bond rc = b" "txid rc = JStr t"
      by blast
    have "set (accepted_receipts (at_relay i h)) \<subseteq> set (accepted_receipts (map snd h))" for h
      by (auto simp: accepted_receipts_def at_relay_def)
    with rc(1) history_verified [OF inv_new_monitor [OF assms(1)], of rc verify es] have "verify rc" by blast
    with rc show ?thesis by blast
  qed
  ultimately show ?thesis by blast
qed

theorem observedEverywhere_sound_witness:
  "\<exists>rc \<in> set (accepted_receipts (at_relay 1 (history demo_cfg demo_verify demo_monitor demo_run))).
     bond rc = demo_bond \<and> txid rc = JStr (demo_hash CHR ''c'') \<and> demo_verify rc"
proof -
  have "observation demo_cfg 10 (run_turns demo_cfg demo_verify demo_monitor demo_run) demo_bond
      (demo_hash CHR ''c'') = Inr demo_report"
    unfolding demo_final by (rule demo_observation)
  moreover have "1 < length (relays demo_monitor)" by (simp add: demo_monitor_def)
  ultimately show ?thesis
    using observedEverywhere_sound [OF demo_new _ demo_observation(3)] by blast
qed

section \<open>Bounds\<close>

text \<open>
  C9. The memory that remote input can claim is bounded: in every reachable state a relay has at
  most \<open>MAX_PENDING\<close> queued messages and its counter is their number, its cursor and its
  high-water mark stay within two events per bond, that is at most 256, and the monitor and each
  relay keep at most two transactions per bond.
\<close>

theorem monitor_bounds:
  assumes "new_monitor new_URL a = Inr (cfg, m0)" and "i < length (relays (run_turns cfg verify m0 es))"
    and "r = relays (run_turns cfg verify m0 es) ! i"
  shows "pending r = length (queue r) \<and> length (queue r) \<le> 32
    \<and> last_seq r \<le> 2 * length (bonds cfg) \<and> last_seq r \<le> 256
    \<and> (\<forall>th. through r = Some th \<longrightarrow> th \<le> 256)
    \<and> length (bond_seen r b) \<le> 2 \<and> length (bond_evidence (evidence (run_turns cfg verify m0 es)) b) \<le> 2"
proof -
  have "relay_inv cfg verify (running (run_turns cfg verify m0 es)) r"
    using after_inv [OF assms(1)] assms(2,3) by (simp add: monitor_inv_def)
  moreover have "i < length (relays m0)"
    using assms(2) after_replay [OF assms(1), of verify es] by (simp add: replay_ok_def)
  note seen_of_small [of "accepted_receipts (at_relay i (history cfg verify m0 es))" b] relay_replay(1) [OF assms(1) this, of verify es]
  moreover have "length (bond_evidence (evidence (run_turns cfg verify m0 es)) b) \<le> 2"
    by (rule keep_two_receipts(1) [OF bond_evidence_after [OF assms(1)]])
  ultimately show ?thesis
    using new_monitorD(7) [OF assms(1)] assms(3)
    by (auto simp: relay_inv_def jobs_ok_def cursor_ok_def last_seq_def max_seq_def MAX_PENDING_def bond_seen_def
        split: option.splits if_splits)
qed

theorem monitor_bounds_witness: "last_seq (relays demo_end ! 1) \<le> 256"
proof -
  have "1 < length (relays demo_end)" by (simp add: demo_end_def)
  then show ?thesis
    using monitor_bounds [OF demo_new, of 1 demo_verify demo_run "relays demo_end ! 1"] unfolding demo_final by blast
qed

section \<open>Exact message fields\<close>

fun split_comma :: "string \<Rightarrow> string list" where
  "split_comma [] = [[]]"
| "split_comma (c # cs) =
     (if c = CHR '','' then [] # split_comma cs
      else (c # hd (split_comma cs)) # tl (split_comma cs))"

lemma split_comma_nonempty [simp]: "split_comma s \<noteq> []"
  by (induction s) auto

lemma split_comma_append: "split_comma (s @ CHR '','' # t) = split_comma s @ split_comma t"
  by (induction s) simp_all

lemma split_join: "ss \<noteq> [] \<Longrightarrow> split_comma (join_comma ss) = concat (map split_comma ss)"
  by (induction ss rule: join_comma.induct) (simp_all add: split_comma_append)

lemma split_comma_plain: "CHR '','' \<notin> set s \<Longrightarrow> split_comma s = [s]"
  by (induction s) auto

lemma split_comma_single: "length (split_comma s) = 1 \<Longrightarrow> split_comma s = [s]"
proof (induction s)
  case (Cons c s)
  then show ?case by (cases "split_comma s") (auto split: if_splits)
qed simp

lemma concat_split_lengths:
  "length ss \<le> length (concat (map split_comma ss))"
  "length (concat (map split_comma ss)) = length ss \<Longrightarrow> concat (map split_comma ss) = ss"
proof -
  have ge: "1 \<le> length (split_comma s)" for s by (cases "split_comma s") auto
  show le: "length ss \<le> length (concat (map split_comma ss))" for ss
  proof (induction ss)
    case (Cons s ss)
    then show ?case using ge [of s] by simp
  qed simp
  show "length (concat (map split_comma ss)) = length ss \<Longrightarrow> concat (map split_comma ss) = ss"
  proof (induction ss)
    case (Cons s ss)
    have "length (split_comma s) = 1" "length (concat (map split_comma ss)) = length ss"
      using Cons.prems ge [of s] le [of ss] by simp_all
    with Cons.IH split_comma_single [of s] show ?case by simp
  qed simp
qed

lemma concat_split_plain: "\<forall>s \<in> set ss. CHR '','' \<notin> set s \<Longrightarrow> concat (map split_comma ss) = ss"
  by (induction ss) (simp_all add: split_comma_plain)

text \<open>The comma-joined comparison of \<open>exact\<close> is as strict as a comparison of the key sets as soon as all
  expected fields but one are read and found.\<close>

lemma exact_fields:
  assumes "exact (Some (JObj kvs)) keys" and "distinct (map fst kvs)" and "distinct keys"
    and "\<forall>k \<in> set keys. CHR '','' \<notin> set k" and "1 < length keys" and "set keys - {k0} \<subseteq> fst ` set kvs"
  shows "set (map fst kvs) = set keys"
proof -
  let ?A = "sort (map fst kvs)"
  have join: "join_comma ?A = join_comma (sort keys)" using assms(1) by (simp add: exact_def)
  have keys: "concat (map split_comma (sort keys)) = sort keys"
    using assms(4) by (intro concat_split_plain) simp
  have c: "card (set keys) = length keys" "card (set (map fst kvs)) = length kvs"
    using distinct_card [OF assms(3)] distinct_card [OF assms(2)] by simp_all
  have sub: "set keys - {k0} \<subseteq> set (map fst kvs)" using assms(6) by simp
  have many: "length keys - 1 \<le> length kvs"
    using card_mono [OF _ sub] card_Diff1_le [of "set keys" k0] card_Diff_singleton_if [of "set keys" k0] c by (auto split: if_splits)
  then have "kvs \<noteq> []" using assms(5) by auto
  moreover have "keys \<noteq> []" using assms(5) by auto
  ultimately have A: "concat (map split_comma ?A) = sort keys"
    using split_join [of ?A] split_join [of "sort keys"] join keys by (metis length_0_conv length_map length_sort)
  from concat_split_lengths(1) [of ?A] have few: "length kvs \<le> length keys" by (simp only: A length_sort length_map)
  have "length kvs = length keys"
  proof (rule ccontr)
    assume "length kvs \<noteq> length keys"
    with few many have less: "length kvs = length keys - 1" "length kvs < length keys" by simp_all
    have "set keys - {k0} = set (map fst kvs)"
      by (rule card_seteq [OF _ sub]) (use less c in \<open>auto simp: card_Diff_singleton_if\<close>)
    then have "\<forall>s \<in> set ?A. CHR '','' \<notin> set s" using assms(4) by auto
    from concat_split_plain [OF this] A have "length ?A = length (sort keys)" by metis
    with less show False by simp
  qed
  with concat_split_lengths(2) [of ?A] A have "?A = sort keys" by (metis length_map length_sort)
  then show ?thesis by (metis set_sort)
qed

text \<open>
  C10. No unknown fields: although \<open>exact\<close> compares comma-joined key lists, which alone would admit
  crafted keys that contain commas, every message that \<open>#process\<close> accepts is an object whose fields are
  exactly those of a \<open>begin\<close>, an \<open>event\<close>, a \<open>caught_up\<close> or a \<open>heartbeat\<close> message.
\<close>

theorem accepted_fields_exact:
  assumes "process cfg r (JObj kvs) = Inr (r', ph)" and "distinct (map fst kvs)"
  shows "set (map fst kvs) = {''type'', ''profile'', ''stream'', ''from'', ''through''}
    \<or> set (map fst kvs) = {''type'', ''event''} \<or> set (map fst kvs) = {''type'', ''cursor''}"
proof -
  have field: "k \<in> fst ` set kvs" if "jget (JObj kvs) k = Some v" for k v
    using map_get_Some_in that by (force simp: jget_def)
  have seq: "\<exists>v. x = Some v" if "sequence x n" for x n
    using that by (auto simp: sequence_def split: option.splits)
  have plain: "\<forall>k \<in> set [''type'', ''profile'', ''stream'', ''from'', ''through'', ''event'', ''cursor'']. CHR '','' \<notin> set k"
    by simp
  from assms(1) show ?thesis
  proof (cases rule: process_cases)
    case beginning
    then have ex: "exact (Some (JObj kvs)) [''type'', ''profile'', ''stream'', ''from'', ''through'']"
      and "set [''type'', ''profile'', ''stream'', ''from'', ''through''] - {''type''} \<subseteq> fst ` set kvs"
      by (auto simp: process_begin_def res_simps dest!: seq intro: field split: option.splits)
    from exact_fields [OF ex assms(2) _ _ _ this(2)] plain show ?thesis by simp
  next
    case event
    then have ex: "exact (Some (JObj kvs)) [''type'', ''event'']"
      and ev: "exact (jget (JObj kvs) ''event'') [''seq'', ''receipt'', ''conflict_with'']"
      by (auto simp: process_event_def res_simps Let_def)
    from ev have "set [''type'', ''event''] - {''type''} \<subseteq> fst ` set kvs"
      by (auto simp: exact_def intro: field split: option.splits)
    from exact_fields [OF ex assms(2) _ _ _ this] plain show ?thesis by simp
  next
    case caught_up
    then have ex: "exact (Some (JObj kvs)) [''type'', ''cursor'']"
      and ev: "exact (jget (JObj kvs) ''cursor'') [''stream'', ''seq'']"
      by (auto simp: process_caught_up_def check_cursor_def res_simps)
    from ev have "set [''type'', ''cursor''] - {''type''} \<subseteq> fst ` set kvs"
      by (auto simp: exact_def intro: field split: option.splits)
    from exact_fields [OF ex assms(2) _ _ _ this] plain show ?thesis by simp
  next
    case heartbeat
    then have ex: "exact (Some (JObj kvs)) [''type'', ''cursor'']"
      and ev: "exact (jget (JObj kvs) ''cursor'') [''stream'', ''seq'']"
      by (auto simp: process_heartbeat_def check_cursor_def res_simps)
    from ev have "set [''type'', ''cursor''] - {''type''} \<subseteq> fst ` set kvs"
      by (auto simp: exact_def intro: field split: option.splits)
    from exact_fields [OF ex assms(2) _ _ _ this] plain show ?thesis by simp
  qed
qed

theorem accepted_fields_exact_witness:
  "\<exists>kvs. wire_begin (demo_hash CHR ''a'') (demo_hash CHR ''e'') 0 2 = JObj kvs
     \<and> is_ok (process demo_cfg (demo_opened ''r1'') (JObj kvs))
     \<and> (set (map fst kvs) = {''type'', ''profile'', ''stream'', ''from'', ''through''}
        \<or> set (map fst kvs) = {''type'', ''event''} \<or> set (map fst kvs) = {''type'', ''cursor''})"
proof -
  obtain kvs where kvs: "wire_begin (demo_hash CHR ''a'') (demo_hash CHR ''e'') 0 2 = JObj kvs"
    and d: "distinct (map fst kvs)"
    by (simp add: wire_begin_def)
  have "handle demo_cfg demo_verify [] (demo_opened ''r1'') (JObj kvs) \<noteq> None"
    using handle_begin [of demo_cfg "demo_opened ''r1''" "demo_hash CHR ''e''" 0 2] kvs
    by (simp add: demo_opened_def new_relay_def)
  then obtain r ph where p: "process demo_cfg (demo_opened ''r1'') (JObj kvs) = Inr (r, ph)"
    by (auto simp: handle_def split: sum.splits)
  then have "is_ok (process demo_cfg (demo_opened ''r1'') (JObj kvs))" by simp
  with accepted_fields_exact [OF p d] kvs show ?thesis by blast
qed

end
