(* ===== verification/Bytes.thy ===== *)
theory Bytes
  imports Prelude "HOL-Library.Word"
begin

text \<open>
  Bytes and fixed-width words: little- and big-endian byte lists and lowercase hexadecimal text,
  with their round trips. \<open>Buffer.writeUInt32LE\<close> and \<open>Buffer.from(h, 'hex')\<close> of the JavaScript
  driver and \<open>to_be_bytes\<close> of the Rust code are instances.
\<close>

type_synonym byte = "8 word"

section \<open>Words as byte lists\<close>

text \<open>Byte \<open>i\<close> of a word, counted from the least significant end.\<close>

definition byte_of :: "'a::len word \<Rightarrow> nat \<Rightarrow> byte" where
  "byte_of w i = ucast (drop_bit (8 * i) w)"

definition le_bytes :: "nat \<Rightarrow> 'a::len word \<Rightarrow> byte list" where
  "le_bytes n w = map (byte_of w) [0..<n]"

definition be_bytes :: "nat \<Rightarrow> 'a::len word \<Rightarrow> byte list" where
  "be_bytes n w = rev (le_bytes n w)"

fun of_le_bytes :: "byte list \<Rightarrow> 'a::len word" where
  "of_le_bytes [] = 0"
| "of_le_bytes (b # bs) = ucast b + 256 * of_le_bytes bs"

lemma length_le_bytes [simp]: "length (le_bytes n w) = n"
  by (simp add: le_bytes_def)

lemma length_be_bytes [simp]: "length (be_bytes n w) = n"
  by (simp add: be_bytes_def)

lemma unat_byte_of: "unat (byte_of w i) = unat w div 256 ^ i mod 256"
proof -
  have "unat (byte_of w i) = take_bit 8 (unat (drop_bit (8 * i) w))"
    by (simp add: byte_of_def unsigned_ucast_eq)
  also have "unat (drop_bit (8 * i) w) = drop_bit (8 * i) (unat w)"
    by (simp add: unsigned_drop_bit_eq take_bit_eq_mod)
  finally show ?thesis by (simp add: take_bit_eq_mod drop_bit_eq_div power_mult)
qed

text \<open>A word is determined by its bytes.\<close>

lemma nat_bytes_eq:
  "(\<forall>i < n. (x :: nat) div 256 ^ i mod 256 = y div 256 ^ i mod 256) \<Longrightarrow> x mod 256 ^ n = y mod 256 ^ n"
proof (induction n)
  case (Suc n)
  have "x mod 256 ^ Suc n = 256 ^ n * (x div 256 ^ n mod 256) + x mod 256 ^ n" for x :: nat
    using mod_mult2_eq [of x "256 ^ n" 256] by (simp add: mult.commute)
  with Suc show ?case by simp
qed simp

lemma le_bytes_inject:
  fixes v w :: "'a::len word"
  assumes "le_bytes n v = le_bytes n w" and "LENGTH('a) \<le> 8 * n"
  shows "v = w"
proof -
  have "\<forall>i < n. unat v div 256 ^ i mod 256 = unat w div 256 ^ i mod 256"
    using assms(1) unfolding le_bytes_def list_eq_iff_nth_eq by (auto simp flip: unat_byte_of)
  from nat_bytes_eq [OF this] have "unat v mod 256 ^ n = unat w mod 256 ^ n" .
  moreover have "unat x < 256 ^ n" for x :: "'a word"
  proof -
    have "unat x < 2 ^ LENGTH('a)" by (rule unsigned_less)
    also have "\<dots> \<le> (2 :: nat) ^ (8 * n)" using assms(2) by (intro power_increasing) simp_all
    finally show ?thesis by (simp add: power_mult)
  qed
  ultimately show ?thesis by (simp add: word_unat_eq_iff)
qed

lemma be_bytes_inject:
  fixes v w :: "'a::len word"
  shows "be_bytes n v = be_bytes n w \<Longrightarrow> LENGTH('a) \<le> 8 * n \<Longrightarrow> v = w"
  unfolding be_bytes_def rev_is_rev_conv by (rule le_bytes_inject)

lemma be_bytes_eq_iff [simp]:
  fixes v w :: "'a::len word"
  shows "LENGTH('a) \<le> 8 * n \<Longrightarrow> be_bytes n v = be_bytes n w \<longleftrightarrow> v = w"
  using be_bytes_inject by blast

text \<open>Reading a word back from its bytes.\<close>

definition of_be_bytes :: "byte list \<Rightarrow> 'a::len word" where
  "of_be_bytes bs = of_le_bytes (rev bs)"

lemma le_bytes_Suc: "le_bytes (Suc n) w = byte_of w 0 # le_bytes n (drop_bit 8 w)"
  unfolding le_bytes_def by (simp add: upt_conv_Cons map_Suc_upt [symmetric] byte_of_def drop_bit_drop_bit add.commute del: upt_Suc)

lemma of_le_bytes_take:
  fixes w :: "'a::len word"
  shows "of_le_bytes (le_bytes n w) = take_bit (8 * n) w"
proof (induction n arbitrary: w)
  case 0
  show ?case by (simp add: le_bytes_def)
next
  case (Suc n)
  have "ucast (byte_of w 0) = (take_bit 8 w :: 'a word)"
    by (rule bit_word_eqI) (auto simp: byte_of_def bit_ucast_iff bit_take_bit_iff dest: bit_imp_le_length)
  moreover have "256 * take_bit (8 * n) (drop_bit 8 w) = push_bit 8 (take_bit (8 * n) (drop_bit 8 w))"
    by (simp add: push_bit_eq_mult mult.commute)
  moreover have "take_bit 8 w + push_bit 8 (take_bit (8 * n) (drop_bit 8 w)) = take_bit (8 * Suc n) w"
  proof -
    have "take_bit 8 w + push_bit 8 (take_bit (8 * n) (drop_bit 8 w))
        = or (take_bit 8 w) (push_bit 8 (take_bit (8 * n) (drop_bit 8 w)))"
      by (rule disjunctive_add_eq_or) (auto simp: bit_eq_iff bit_and_iff bit_take_bit_iff bit_push_bit_iff)
    also have "\<dots> = take_bit (8 * Suc n) w"
      by (rule bit_word_eqI) (auto simp: bit_or_iff bit_take_bit_iff bit_push_bit_iff bit_drop_bit_eq)
    finally show ?thesis .
  qed
  ultimately show ?case by (simp add: le_bytes_Suc Suc)
qed

lemma of_be_bytes_inverse:
  fixes w :: "'a::len word"
  shows "LENGTH('a) \<le> 8 * n \<Longrightarrow> of_be_bytes (be_bytes n w) = w"
  by (simp add: of_be_bytes_def be_bytes_def of_le_bytes_take take_bit_word_eq_self)

text \<open>A byte list is determined by the word it is read as, if it fits.\<close>

fun le_value :: "byte list \<Rightarrow> nat" where
  "le_value [] = 0"
| "le_value (b # bs) = unat b + 256 * le_value bs"

lemma le_value_less: "le_value bs < 256 ^ length bs"
proof (induction bs)
  case (Cons b bs)
  have "unat b < 256" using unsigned_less [of b, where ?'a = nat] by simp
  with Cons show ?case by simp
qed simp

lemma le_value_byte: "i < length bs \<Longrightarrow> le_value bs div 256 ^ i mod 256 = unat (bs ! i)"
proof (induction bs arbitrary: i)
  case (Cons b bs)
  have b: "unat b < 256" using unsigned_less [of b, where ?'a = nat] by simp
  show ?case
  proof (cases i)
    case 0
    with b show ?thesis by simp
  next
    case (Suc j)
    have "le_value (b # bs) div 256 ^ Suc j = le_value (b # bs) div 256 div 256 ^ j" unfolding power_Suc by (rule div_mult2_eq)
    also have "\<dots> = le_value bs div 256 ^ j" using b by simp
    finally show ?thesis using Suc Cons by simp
  qed
qed simp

lemma unat_of_le_bytes:
  "8 * length bs \<le> LENGTH('a::len) \<Longrightarrow> unat (of_le_bytes bs :: 'a word) = le_value bs"
proof (induction bs)
  case (Cons b bs)
  have "le_value (b # bs) < 256 ^ length (b # bs)" by (rule le_value_less)
  also have "\<dots> = 2 ^ (8 * length (b # bs))" unfolding power_mult by simp
  also have "\<dots> \<le> 2 ^ LENGTH('a)" using Cons.prems by (intro power_increasing) simp_all
  finally have less: "unat b + 256 * le_value bs < 2 ^ LENGTH('a)" by simp
  have "unat (of_le_bytes bs :: 'a word) = le_value bs" using Cons by simp
  then have "word_of_nat (le_value bs) = (of_le_bytes bs :: 'a word)" by (simp flip: \<open>unat (of_le_bytes bs :: 'a word) = le_value bs\<close>)
  then have "(of_le_bytes (b # bs) :: 'a word) = word_of_nat (unat b + 256 * le_value bs)" by simp
  then show ?case using less by (simp only: unsigned_of_nat take_bit_nat_eq_self le_value.simps of_nat_id)
qed simp

lemma le_bytes_of_le_bytes:
  assumes "8 * length bs \<le> LENGTH('a::len)"
  shows "le_bytes (length bs) (of_le_bytes bs :: 'a word) = bs"
proof (rule nth_equalityI)
  fix i
  assume "i < length (le_bytes (length bs) (of_le_bytes bs :: 'a word))"
  then have "unat (le_bytes (length bs) (of_le_bytes bs :: 'a word) ! i) = unat (bs ! i)"
    using le_value_byte unat_of_le_bytes [OF assms] by (simp add: le_bytes_def unat_byte_of)
  then show "le_bytes (length bs) (of_le_bytes bs :: 'a word) ! i = bs ! i" by (simp add: word_unat_eq_iff)
qed simp

lemma be_bytes_of_be_bytes:
  "length bs = n \<Longrightarrow> 8 * n \<le> LENGTH('a::len) \<Longrightarrow> be_bytes n (of_be_bytes bs :: 'a word) = bs"
  using le_bytes_of_le_bytes [of "rev bs", where ?'a = 'a] by (auto simp: be_bytes_def of_be_bytes_def)

text \<open>Reading a little-endian 32-bit integer from four bytes.\<close>

definition of_le_bytes4 :: "byte \<Rightarrow> byte \<Rightarrow> byte \<Rightarrow> byte \<Rightarrow> 32 word" where
  "of_le_bytes4 a b c d =
     or (or (or (ucast a) (push_bit 8 (ucast b))) (push_bit 16 (ucast c))) (push_bit 24 (ucast d))"

lemma of_le_bytes4: "of_le_bytes4 (byte_of w 0) (byte_of w 1) (byte_of w 2) (byte_of w 3) = w"
proof (rule bit_word_eqI)
  fix n
  assume "n < LENGTH(32)"
  then consider "n < 8" | "8 \<le> n" "n < 16" | "16 \<le> n" "n < 24" | "24 \<le> n" "n < 32"
    by fastforce
  then show "bit (of_le_bytes4 (byte_of w 0) (byte_of w 1) (byte_of w 2) (byte_of w 3)) n = bit w n"
    by cases (auto simp: of_le_bytes4_def byte_of_def bit_or_iff bit_push_bit_iff bit_ucast_iff bit_drop_bit_eq)
qed

section \<open>Hexadecimal text\<close>

definition hex_char :: "nat \<Rightarrow> char" where
  "hex_char n = ''0123456789abcdef'' ! n"

definition nibble :: "char \<Rightarrow> nat option" where
  "nibble c = (let n = of_char c in
     if 48 \<le> n \<and> n \<le> 57 then Some (n - 48) else if 97 \<le> n \<and> n \<le> 102 then Some (n - 87) else None)"

definition hex_byte :: "byte \<Rightarrow> string" where
  "hex_byte b = [hex_char (unat b div 16), hex_char (unat b mod 16)]"

definition hex_encode :: "byte list \<Rightarrow> string" where
  "hex_encode bs = concat (map hex_byte bs)"

fun hex_decode :: "string \<Rightarrow> byte list option" where
  "hex_decode [] = Some []"
| "hex_decode [_] = None"
| "hex_decode (c # d # s) =
     (case (nibble c, nibble d, hex_decode s) of
        (Some h, Some l, Some bs) \<Rightarrow> Some (word_of_nat (16 * h + l) # bs)
      | _ \<Rightarrow> None)"

lemma nibble_hex_char: "n < 16 \<Longrightarrow> nibble (hex_char n) = Some n"
proof -
  assume "n < 16"
  have "list_all (\<lambda>d. nibble (hex_char d) = Some d) [0..<16]" by code_simp
  with \<open>n < 16\<close> show ?thesis by (simp add: list_all_iff)
qed

lemma hex_char_nibble: "nibble c = Some n \<Longrightarrow> n < 16 \<and> hex_char n = c"
proof -
  assume "nibble c = Some n"
  then have "n < 16" and "of_char (hex_char n) = (of_char c :: nat)"
  proof -
    have "list_all (\<lambda>n. of_char (hex_char n) = (if n < 10 then n + 48 else n + 87)) [0..<16]" by code_simp
    then have tab: "\<forall>n < 16. of_char (hex_char n) = (if n < 10 then n + 48 else n + 87)" by (simp add: list_all_iff)
    show "n < 16" using \<open>nibble c = Some n\<close> by (auto simp: nibble_def Let_def split: if_splits)
    with tab \<open>nibble c = Some n\<close> show "of_char (hex_char n) = (of_char c :: nat)"
      by (auto simp: nibble_def Let_def split: if_splits)
  qed
  then show ?thesis by simp
qed

lemma hex_decode_byte: "hex_decode (hex_byte b @ s) = map_option ((#) b) (hex_decode s)"
proof -
  have "unat b < 256" using unsigned_less [of b] by simp
  then show ?thesis by (simp add: hex_byte_def nibble_hex_char split: option.split)
qed

lemma hex_decode_encode [simp]: "hex_decode (hex_encode bs) = Some bs"
  by (induction bs) (simp_all add: hex_encode_def hex_decode_byte)

lemma hex_encode_decode: "hex_decode s = Some bs \<Longrightarrow> hex_encode bs = s"
proof (induction s arbitrary: bs rule: hex_decode.induct)
  case (3 c d s)
  then obtain h l cs where n: "nibble c = Some h" "nibble d = Some l" and s: "hex_decode s = Some cs"
    and bs: "bs = word_of_nat (16 * h + l) # cs"
    by (auto split: option.splits)
  have hl: "h < 16" "l < 16" "hex_char h = c" "hex_char l = d" using hex_char_nibble n by simp_all
  have "unat (word_of_nat (16 * h + l) :: byte) = 16 * h + l"
    unfolding unsigned_of_nat using hl by (simp add: take_bit_eq_mod)
  then have "hex_byte (word_of_nat (16 * h + l)) = [c, d]"
    unfolding hex_byte_def using hl by (simp only: div_mult_self4 mod_mult_self4) simp
  then show ?case using 3(1) [OF s] unfolding bs by (simp only: hex_encode_def list.map concat.simps append.simps)
qed (simp_all add: hex_encode_def)

lemma hex_decode_append:
  "hex_decode s = Some bs \<Longrightarrow> hex_decode (s @ t) = map_option ((@) bs) (hex_decode t)"
proof (induction s arbitrary: bs rule: hex_decode.induct)
  case 1
  then show ?case by (cases "hex_decode t") simp_all
qed (auto split: option.splits)

lemma length_hex_encode [simp]: "length (hex_encode bs) = 2 * length bs"
  by (induction bs) (simp_all add: hex_encode_def hex_byte_def)

end
