(* ===== verification/Fixture.thy ===== *)
theory Fixture
  imports Bytes Json_Print
begin

text \<open>
  The interpreter check of the bond contracts: \<^verbatim>\<open>scripts/check-fork.mjs\<close>, which encodes test
  fixtures as a byte stream and compares the verdicts of a driver process, and the driver
  \<^verbatim>\<open>tests/fork_vm.c\<close>, which decodes the stream and runs the Simplicity interpreter. The
  interpreter is a parameter of the driver; child processes are a parameter of the script.
\<close>

section \<open>Fixtures\<close>

record fx_input =
  fi_txid :: string
  fi_vout :: int
  fi_sequence :: int
  fi_asset :: string
  fi_value :: string
  fi_script :: string

record fx_output =
  fo_asset :: string
  fo_value :: string
  fo_script :: string

record fixture =
  fx_name :: string
  fx_program :: string
  fx_witness :: string
  fx_cmr :: string
  fx_control :: string
  fx_genesis :: string
  fx_txid :: string
  fx_version :: int
  fx_lock_time :: int
  fx_inputs :: "fx_input list"
  fx_outputs :: "fx_output list"

section \<open>Encoder\<close>

text \<open>\<open>writeUInt32LE\<close> throws outside the range of an unsigned 32-bit integer.\<close>

definition u32 :: "int \<Rightarrow> byte list res" where
  "u32 n = guard (0 \<le> n \<and> n \<le> 4294967295) ''ERR_OUT_OF_RANGE'' (Inr (le_bytes 4 (word_of_int n :: 32 word)))"

text \<open>The pattern \<^verbatim>\<open>^(?:[0-9a-f]{2})*$\<close> matches exactly the strings that decode.\<close>

definition blob :: "string \<Rightarrow> byte list res" where
  "blob h =
     (case hex_decode h of
        None \<Rightarrow> Inl ''ERR_ASSERTION''
      | Some b \<Rightarrow> bind_res (u32 (int (length b))) (\<lambda>n. Inr (n @ b)))"

fun concat_res :: "byte list res list \<Rightarrow> byte list res" where
  "concat_res [] = Inr []"
| "concat_res (c # cs) = bind_res c (\<lambda>b. bind_res (concat_res cs) (\<lambda>bs. Inr (b @ bs)))"

definition encode_input :: "fx_input \<Rightarrow> byte list res" where
  "encode_input i = concat_res [blob (fi_txid i), u32 (fi_vout i), u32 (fi_sequence i), blob (fi_asset i),
     blob (fi_value i), blob (fi_script i)]"

definition encode_output :: "fx_output \<Rightarrow> byte list res" where
  "encode_output x = concat_res [blob (fo_asset x), blob (fo_value x), blob (fo_script x)]"

definition encode :: "fixture \<Rightarrow> byte list res" where
  "encode f = concat_res (map blob [fx_program f, fx_witness f, fx_cmr f, fx_control f, fx_genesis f, fx_txid f]
     @ [u32 (fx_version f), u32 (fx_lock_time f), u32 (int (length (fx_inputs f)))]
     @ map encode_input (fx_inputs f)
     @ [u32 (int (length (fx_outputs f)))]
     @ map encode_output (fx_outputs f))"

section \<open>Driver\<close>

definition MAX_BLOB :: nat where
  "MAX_BLOB = 1048576"

definition MAX_IO :: nat where
  "MAX_IO = 8"

definition MAX_ALLOCATIONS :: nat where
  "MAX_ALLOCATIONS = 100"

text \<open>The driver reads standard input and counts its allocations; a failure ends the process.\<close>

record reader =
  rest :: "byte list"
  allocation_count :: nat

type_synonym 'a read = "reader \<Rightarrow> ('a \<times> reader) res"

definition read32 :: "32 word read" where
  "read32 s =
     (case rest s of
        a # b # c # d # bs \<Rightarrow> Inr (of_le_bytes4 a b c d, s\<lparr>rest := bs\<rparr>)
      | _ \<Rightarrow> Inl ''truncated integer'')"

definition read_blob :: "byte list read" where
  "read_blob s =
     bind_res (read32 s) (\<lambda>(len, s1).
       guard (\<not> (MAX_BLOB < unat len \<or> MAX_ALLOCATIONS \<le> allocation_count s1)) ''size limit''
         (let s2 = s1\<lparr>allocation_count := Suc (allocation_count s1)\<rparr> in
          guard (unat len \<le> length (rest s2)) ''truncated blob''
            (Inr (take (unat len) (rest s2), s2\<lparr>rest := drop (unat len) (rest s2)\<rparr>))))"

definition fixed :: "nat \<Rightarrow> byte list read" where
  "fixed n s =
     bind_res (read_blob s) (\<lambda>(b, s1). guard (length b = n) ''wrong fixed field size'' (Inr (b, s1)))"

text \<open>\<open>rawElementsInput\<close>, \<open>rawElementsOutput\<close> and \<open>rawElementsTransaction\<close> with the fields the driver sets.\<close>

record raw_input =
  prevTxid :: "byte list"
  prevIx :: "32 word"
  raw_sequence :: "32 word"
  txo_asset :: "byte list"
  txo_value :: "byte list"
  txo_script :: "byte list"

record raw_output =
  raw_asset :: "byte list"
  raw_value :: "byte list"
  raw_script :: "byte list"

record raw_run =
  run_program :: "byte list"
  run_witness :: "byte list"
  run_cmr :: "byte list"
  run_control :: "byte list"
  run_genesis :: "byte list"
  run_txid :: "byte list"
  run_version :: "32 word"
  run_lockTime :: "32 word"
  run_inputs :: "raw_input list"
  run_outputs :: "raw_output list"

definition explicit :: "byte list \<Rightarrow> bool" where
  "explicit b \<longleftrightarrow> hd b = 1"

definition read_input :: "raw_input read" where
  "read_input s =
     bind_res (fixed 32 s) (\<lambda>(t, s). bind_res (read32 s) (\<lambda>(ix, s). bind_res (read32 s) (\<lambda>(sq, s).
     bind_res (fixed 33 s) (\<lambda>(a, s). bind_res (fixed 9 s) (\<lambda>(v, s).
     guard (explicit a \<and> explicit v) ''explicit input required''
       (bind_res (read_blob s) (\<lambda>(sc, s).
          Inr (\<lparr>prevTxid = t, prevIx = ix, raw_sequence = sq, txo_asset = a, txo_value = v, txo_script = sc\<rparr>, s))))))))"

definition read_output :: "raw_output read" where
  "read_output s =
     bind_res (fixed 33 s) (\<lambda>(a, s). bind_res (fixed 9 s) (\<lambda>(v, s).
     guard (explicit a \<and> explicit v) ''explicit output required''
       (bind_res (read_blob s) (\<lambda>(sc, s). Inr (\<lparr>raw_asset = a, raw_value = v, raw_script = sc\<rparr>, s)))))"

fun read_many :: "nat \<Rightarrow> 'a read \<Rightarrow> 'a list read" where
  "read_many 0 r s = Inr ([], s)"
| "read_many (Suc n) r s = bind_res (r s) (\<lambda>(x, s). bind_res (read_many n r s) (\<lambda>(xs, s). Inr (x # xs, s)))"

definition read_run :: "raw_run read" where
  "read_run s =
     bind_res (read_blob s) (\<lambda>(pr, s). bind_res (read_blob s) (\<lambda>(wi, s).
     bind_res (fixed 32 s) (\<lambda>(cm, s). bind_res (fixed 33 s) (\<lambda>(co, s).
     bind_res (fixed 32 s) (\<lambda>(ge, s). bind_res (fixed 32 s) (\<lambda>(tx, s).
     bind_res (read32 s) (\<lambda>(ve, s). bind_res (read32 s) (\<lambda>(lt, s). bind_res (read32 s) (\<lambda>(ni, s).
     guard (ni \<noteq> 0 \<and> unat ni \<le> MAX_IO) ''input count''
       (bind_res (read_many (unat ni) read_input s) (\<lambda>(ins, s).
        bind_res (read32 s) (\<lambda>(no, s).
        guard (unat no \<le> MAX_IO) ''output count''
          (bind_res (read_many (unat no) read_output s) (\<lambda>(outs, s).
           guard (rest s = []) ''trailing data''
             (Inr (\<lparr>run_program = pr, run_witness = wi, run_cmr = cm, run_control = co, run_genesis = ge,
                    run_txid = tx, run_version = ve, run_lockTime = lt, run_inputs = ins, run_outputs = outs\<rparr>,
                   s))))))))))))))))"

definition compact_size :: "32 word \<Rightarrow> 32 word" where
  "compact_size n = (if n < 253 then 1 else if n \<le> 65535 then 3 else 5)"

text \<open>The sum is computed in unsigned 32-bit arithmetic and then widened.\<close>

definition budget :: "raw_run \<Rightarrow> int" where
  "budget r =
     (let p = word_of_nat (length (run_program r)) :: 32 word; w = word_of_nat (length (run_witness r)) in
      uint (50 + 1 + compact_size p + p + compact_size w + w + 1 + 32 + 1 + 33))"

record spawn_result =
  sp_failed :: bool
  sp_status :: int
  sp_stdout :: string

definition verdict :: "int \<Rightarrow> int \<Rightarrow> json" where
  "verdict e b = JObj [(''error'', JNum (of_int e)), (''budget'', JNum (of_int b))]"

text \<open>\<open>main\<close>: the interpreter is given the decoded run and the budget and returns its error code, or
  \<open>None\<close> when it could not allocate memory.\<close>

definition fork_vm :: "(raw_run \<Rightarrow> int \<Rightarrow> int option) \<Rightarrow> byte list \<Rightarrow> spawn_result" where
  "fork_vm exec input =
     (case read_run \<lparr>rest = input, allocation_count = 0\<rparr> of
        Inl _ \<Rightarrow> \<lparr>sp_failed = False, sp_status = 2, sp_stdout = []\<rparr>
      | Inr (r, _) \<Rightarrow>
          (case exec r (budget r) of
             None \<Rightarrow> \<lparr>sp_failed = False, sp_status = 2, sp_stdout = []\<rparr>
           | Some e \<Rightarrow> \<lparr>sp_failed = False, sp_status = 0,
                        sp_stdout = json_print (verdict e (budget r)) @ [CHR 0x0A]\<rparr>))"

section \<open>Script\<close>

text \<open>\<open>run\<close>: the standard output of a child process that started and exited with status 0.\<close>

definition run :: "spawn_result \<Rightarrow> string res" where
  "run r = (if sp_failed r \<or> sp_status r \<noteq> 0 then Inl ''command failed'' else Inr (sp_stdout r))"

text \<open>\<open>check\<close>: the verdict on one fixture must be the expected one. \<open>r.error\<close> throws on \<open>null\<close>.\<close>

definition check :: "(byte list \<Rightarrow> spawn_result) \<Rightarrow> fixture \<Rightarrow> bool \<Rightarrow> nat \<Rightarrow> nat res" where
  "check vm f pass k =
     bind_res (encode f) (\<lambda>bytes.
     bind_res (run (vm bytes)) (\<lambda>out.
       (case json_parse out of
          None \<Rightarrow> Inl ''SyntaxError''
        | Some r \<Rightarrow>
            guard (r \<noteq> JNull) ''TypeError''
              (guard ((case jget r ''error'' of None \<Rightarrow> False | Some e \<Rightarrow> strict_eq e (JNum 0)) = pass)
                ''ERR_ASSERTION'' (Inr (Suc k))))))"

text \<open>The mutations of the penalty fixture. Reading a field of a missing first input or
  output throws, and so does encoding the copy of a missing one.\<close>

definition slice_2 :: "string \<Rightarrow> string" where
  "slice_2 s = take (length s - 2) s"

definition ends_with :: "string \<Rightarrow> string \<Rightarrow> bool" where
  "ends_with s t \<longleftrightarrow> length t \<le> length s \<and> drop (length s - length t) s = t"

definition repeat_string :: "nat \<Rightarrow> string \<Rightarrow> string" where
  "repeat_string n s = concat (replicate n s)"

definition first_input :: "(fx_input \<Rightarrow> fx_input) \<Rightarrow> fixture \<Rightarrow> fixture res" where
  "first_input g f = (case fx_inputs f of [] \<Rightarrow> Inl ''TypeError'' | i # is \<Rightarrow> Inr (f\<lparr>fx_inputs := g i # is\<rparr>))"

definition first_output :: "(fx_output \<Rightarrow> fx_output) \<Rightarrow> fixture \<Rightarrow> fixture res" where
  "first_output g f = (case fx_outputs f of [] \<Rightarrow> Inl ''TypeError'' | x # xs \<Rightarrow> Inr (f\<lparr>fx_outputs := g x # xs\<rparr>))"

definition corrupt_evidence :: "fixture \<Rightarrow> fixture res" where
  "corrupt_evidence f =
     Inr (f\<lparr>fx_witness := slice_2 (fx_witness f) @ (if ends_with (fx_witness f) ''00'' then ''01'' else ''00'')\<rparr>)"

definition wrong_network :: "fixture \<Rightarrow> fixture res" where
  "wrong_network f = Inr (f\<lparr>fx_genesis := repeat_string 32 ''77''\<rparr>)"

definition another_bond :: "fixture \<Rightarrow> fixture res" where
  "another_bond = first_input (\<lambda>i. i\<lparr>fi_vout := fi_vout i + 1\<rparr>)"

definition diverted_penalty :: "fixture \<Rightarrow> fixture res" where
  "diverted_penalty = first_output (\<lambda>x. x\<lparr>fo_script := ''51''\<rparr>)"

definition partial_penalty :: "fixture \<Rightarrow> fixture res" where
  "partial_penalty = first_output (\<lambda>x. x\<lparr>fo_value := ''010000000000000001''\<rparr>)"

definition wrong_penalty_asset :: "fixture \<Rightarrow> fixture res" where
  "wrong_penalty_asset = first_output (\<lambda>x. x\<lparr>fo_asset := ''01'' @ repeat_string 32 ''99''\<rparr>)"

definition extra_output :: "fixture \<Rightarrow> fixture res" where
  "extra_output f =
     (case fx_outputs f of [] \<Rightarrow> Inl ''TypeError'' | x # xs \<Rightarrow> Inr (f\<lparr>fx_outputs := (x # xs) @ [x]\<rparr>))"

definition extra_input :: "fixture \<Rightarrow> fixture res" where
  "extra_input f =
     (case fx_inputs f of [] \<Rightarrow> Inl ''TypeError'' | i # is \<Rightarrow> Inr (f\<lparr>fx_inputs := (i # is) @ [i]\<rparr>))"

definition mutations :: "(string \<times> (fixture \<Rightarrow> fixture res)) list" where
  "mutations =
     [(''corrupted evidence'', corrupt_evidence), (''wrong network'', wrong_network),
      (''another bond'', another_bond), (''diverted penalty'', diverted_penalty),
      (''partial penalty'', partial_penalty), (''wrong penalty asset'', wrong_penalty_asset),
      (''extra output'', extra_output), (''extra input'', extra_input)]"

definition early_release :: "fixture \<Rightarrow> fixture res" where
  "early_release f = Inr (f\<lparr>fx_lock_time := 1009\<rparr>)"

definition disabled_locktime :: "fixture \<Rightarrow> fixture res" where
  "disabled_locktime = first_input (\<lambda>i. i\<lparr>fi_sequence := 4294967295\<rparr>)"

text \<open>The checks in the order of the script; the first exception ends it.\<close>

fun check_all :: "(byte list \<Rightarrow> spawn_result) \<Rightarrow> (fixture res \<times> bool) list \<Rightarrow> nat \<Rightarrow> nat res" where
  "check_all vm [] k = Inr k"
| "check_all vm ((f, pass) # fs) k =
     bind_res f (\<lambda>f. bind_res (check vm f pass k) (check_all vm fs))"

definition script_checks :: "fixture list \<Rightarrow> (fixture res \<times> bool) list" where
  "script_checks vectors =
     map (\<lambda>f. (Inr f, True)) vectors
     @ map (\<lambda>(_, mutate). (mutate (hd vectors), False)) mutations
     @ concat (map (\<lambda>f. [(early_release f, False), (disabled_locktime f, False)]) (tl vectors))"

text \<open>Removing white space at both ends, for the output of \<open>git rev-parse\<close>.\<close>

definition trim :: "string \<Rightarrow> string" where
  "trim s = rev (dropWhile is_ws (rev (dropWhile is_ws s)))"

text \<open>
  The script with its arguments and the results of its commands: the tree of the checkout and
  the pinned tree, the working tree comparison, the compiler, and the fixture generator. It
  fails on an empty list of vectors when it clones the first one.
\<close>

definition check_fork :: "string list \<Rightarrow> spawn_result \<Rightarrow> spawn_result \<Rightarrow> spawn_result \<Rightarrow> spawn_result
    \<Rightarrow> fixture list res \<Rightarrow> (byte list \<Rightarrow> spawn_result) \<Rightarrow> nat res" where
  "check_fork args head_tree pinned_tree clean_tree compiler fixtures vm =
     guard (length args = 1 \<or> length args = 2) ''Pass node checkout and optional fixture example''
     (guard (length args = 2 \<longrightarrow> args ! 1 \<in> {''vectors'', ''operator_vectors''}) ''unknown fixture example''
     (bind_res (run head_tree) (\<lambda>h. bind_res (run pinned_tree) (\<lambda>p.
      guard (trim h = trim p) ''fork interpreter differs from the pinned baseline''
     (bind_res (run clean_tree) (\<lambda>_. bind_res (run compiler) (\<lambda>_. bind_res fixtures (\<lambda>vectors.
      guard (vectors \<noteq> []) ''TypeError'' (check_all vm (script_checks vectors) 0)))))))))"

end
