(* ===== verification/Fixture_Codec.thy ===== *)
theory Fixture_Codec
  imports Fixture
begin

text \<open>
  The byte stream between \<^verbatim>\<open>scripts/check-fork.mjs\<close> and \<^verbatim>\<open>tests/fork_vm.c\<close> in both
  directions. The locale states what a field writer of the script and a field reader of the
  driver promise each other; the integers, the blobs, the fixed-size blobs, the inputs and the
  outputs are instances, and lists of fields follow once for all of them.
\<close>

section \<open>The interface of a field\<close>

locale stream_field =
  fixes put :: "'a \<Rightarrow> byte list res"
    and get :: "'b read"
    and decodes :: "'a \<Rightarrow> 'b \<Rightarrow> bool"
    and allocs :: nat
  assumes get_put: "decodes x y \<Longrightarrow> put x = Inr bs \<Longrightarrow> allocation_count s + allocs \<le> MAX_ALLOCATIONS \<Longrightarrow>
      get (s\<lparr>rest := bs @ tail\<rparr>) = Inr (y, s\<lparr>rest := tail, allocation_count := allocation_count s + allocs\<rparr>)"
    and put_get: "get s = Inr (y, s') \<Longrightarrow>
      \<exists>x bs. decodes x y \<and> put x = Inr bs \<and> rest s = bs @ rest s'
        \<and> allocation_count s' = allocation_count s + allocs"
    and writes: "decodes x y \<Longrightarrow> is_ok (put x)"
begin

lemma get_many:
  "list_all2 decodes xs ys \<Longrightarrow> concat_res (map put xs) = Inr bs \<Longrightarrow>
     allocation_count s + length xs * allocs \<le> MAX_ALLOCATIONS \<Longrightarrow>
     read_many (length xs) get (s\<lparr>rest := bs @ tail\<rparr>)
       = Inr (ys, s\<lparr>rest := tail, allocation_count := allocation_count s + length xs * allocs\<rparr>)"
proof (induction xs arbitrary: ys bs s)
  case Nil
  then show ?case by simp
next
  case (Cons x xs)
  then obtain y ys' where ys: "ys = y # ys'" "decodes x y" "list_all2 decodes xs ys'"
    by (auto simp: list_all2_Cons1)
  obtain b bs' where bs: "put x = Inr b" "concat_res (map put xs) = Inr bs'" "bs = b @ bs'"
    using Cons.prems(2) by (auto simp: res_simps)
  have a: "allocation_count s + allocs + length xs * allocs \<le> MAX_ALLOCATIONS"
    using Cons.prems(3) by simp
  then have "get (s\<lparr>rest := b @ bs' @ tail\<rparr>)
      = Inr (y, s\<lparr>rest := bs' @ tail, allocation_count := allocation_count s + allocs\<rparr>)"
    using ys(2) bs(1) by (intro get_put) simp_all
  moreover have "s\<lparr>rest := bs' @ tail, allocation_count := allocation_count s + allocs\<rparr>
      = s\<lparr>allocation_count := allocation_count s + allocs, rest := bs' @ tail\<rparr>" by simp
  ultimately show ?case
    using Cons.IH [OF ys(3) bs(2), of "s\<lparr>allocation_count := allocation_count s + allocs\<rparr>"] a bs(3) ys(1)
    by (simp add: add.assoc)
qed

lemma get_reader:
  "decodes x y \<Longrightarrow> put x = Inr bs \<Longrightarrow> k + allocs \<le> MAX_ALLOCATIONS \<Longrightarrow>
     get \<lparr>rest = bs @ tail, allocation_count = k\<rparr> = Inr (y, \<lparr>rest = tail, allocation_count = k + allocs\<rparr>)"
  using get_put [of x y bs "\<lparr>rest = [], allocation_count = k\<rparr>" tail] by simp

lemma get_many_reader:
  "list_all2 decodes xs ys \<Longrightarrow> concat_res (map put xs) = Inr bs \<Longrightarrow> k + length xs * allocs \<le> MAX_ALLOCATIONS \<Longrightarrow>
     read_many (length xs) get \<lparr>rest = bs @ tail, allocation_count = k\<rparr>
       = Inr (ys, \<lparr>rest = tail, allocation_count = k + length xs * allocs\<rparr>)"
  using get_many [of xs ys bs "\<lparr>rest = [], allocation_count = k\<rparr>" tail] by simp

lemma many_get:
  "read_many n get s = Inr (ys, s') \<Longrightarrow>
     \<exists>xs bs. length xs = n \<and> list_all2 decodes xs ys \<and> concat_res (map put xs) = Inr bs
       \<and> rest s = bs @ rest s' \<and> allocation_count s' = allocation_count s + n * allocs"
proof (induction n arbitrary: s ys)
  case 0
  then show ?case by simp
next
  case (Suc n)
  then obtain y s1 ys' where y: "get s = Inr (y, s1)" and r: "read_many n get s1 = Inr (ys', s')" and ys: "ys = y # ys'"
    by (auto simp: res_simps)
  from put_get [OF y] obtain x b where x: "decodes x y" "put x = Inr b" "rest s = b @ rest s1"
    "allocation_count s1 = allocation_count s + allocs" by blast
  from Suc.IH [OF r] obtain xs bs where "length xs = n" "list_all2 decodes xs ys'" "concat_res (map put xs) = Inr bs"
    "rest s1 = bs @ rest s'" "allocation_count s' = allocation_count s1 + n * allocs" by blast
  with x ys show ?case by (intro exI [of _ "x # xs"] exI [of _ "b @ bs"]) simp
qed

lemma writes_many: "list_all2 decodes xs ys \<Longrightarrow> is_ok (concat_res (map put xs))"
proof (induction rule: list_all2_induct)
  case (Cons x xs y ys)
  then show ?case using writes [of x y] by (auto simp: is_ok_iff)
qed simp

end

section \<open>Integers and blobs\<close>

definition decodes_u32 :: "int \<Rightarrow> 32 word \<Rightarrow> bool" where
  "decodes_u32 n w \<longleftrightarrow> n = uint w"

definition decodes_blob :: "string \<Rightarrow> byte list \<Rightarrow> bool" where
  "decodes_blob h b \<longleftrightarrow> h = hex_encode b \<and> length b \<le> MAX_BLOB"

definition decodes_fixed :: "nat \<Rightarrow> string \<Rightarrow> byte list \<Rightarrow> bool" where
  "decodes_fixed n h b \<longleftrightarrow> decodes_blob h b \<and> length b = n"

lemma le_bytes_4: "le_bytes 4 w = [byte_of w 0, byte_of w 1, byte_of w 2, byte_of w 3]"
  by (simp add: le_bytes_def upt_rec numeral_2_eq_2 numeral_3_eq_3)

lemma u32_uint: "u32 (uint w) = Inr (le_bytes 4 (w :: 32 word))"
  using uint_bounded [of w] by (simp add: u32_def)

lemma read32_le_bytes: "read32 (s\<lparr>rest := le_bytes 4 w @ tail\<rparr>) = Inr (w, s\<lparr>rest := tail\<rparr>)"
  by (simp add: read32_def le_bytes_4 of_le_bytes4 [unfolded One_nat_def])

lemma le_bytes_of_le_bytes4: "le_bytes 4 (of_le_bytes4 a b c d) = [a, b, c, d]"
proof -
  have "byte_of (of_le_bytes4 a b c d) 0 = a" "byte_of (of_le_bytes4 a b c d) 1 = b"
    "byte_of (of_le_bytes4 a b c d) 2 = c" "byte_of (of_le_bytes4 a b c d) 3 = d"
    by (rule bit_word_eqI; auto simp: of_le_bytes4_def byte_of_def bit_or_iff bit_push_bit_iff bit_ucast_iff
        bit_drop_bit_eq dest: bit_imp_le_length)+
  then show ?thesis by (simp add: le_bytes_4)
qed

lemma read32D: "read32 s = Inr (w, s') \<Longrightarrow> rest s = le_bytes 4 w @ rest s' \<and> s' = s\<lparr>rest := rest s'\<rparr>"
  by (auto simp: read32_def le_bytes_of_le_bytes4 split: list.splits)

interpretation u32_field: stream_field u32 read32 decodes_u32 0
proof unfold_locales
  fix x y bs tail and s :: reader
  assume "decodes_u32 x y" and "u32 x = Inr bs"
  then show "read32 (s\<lparr>rest := bs @ tail\<rparr>) = Inr (y, s\<lparr>rest := tail, allocation_count := allocation_count s + 0\<rparr>)"
    by (auto simp: decodes_u32_def u32_uint read32_le_bytes)
next
  fix s s' :: reader and y
  assume "read32 s = Inr (y, s')"
  from read32D [OF this] show "\<exists>x bs. decodes_u32 x y \<and> u32 x = Inr bs \<and> rest s = bs @ rest s'
      \<and> allocation_count s' = allocation_count s + 0"
    by (intro exI [of _ "uint y"] exI [of _ "le_bytes 4 y"])
      (auto simp: decodes_u32_def u32_uint dest: arg_cong [of _ _ allocation_count])
qed (auto simp: decodes_u32_def u32_uint)

lemma blob_hex: "length b \<le> MAX_BLOB \<Longrightarrow> blob (hex_encode b) = Inr (le_bytes 4 (word_of_nat (length b) :: 32 word) @ b)"
  by (simp add: blob_def u32_def MAX_BLOB_def)

lemma unat_length: "length b \<le> MAX_BLOB \<Longrightarrow> unat (word_of_nat (length b) :: 32 word) = length b"
  unfolding unsigned_of_nat by (simp add: take_bit_eq_mod MAX_BLOB_def)

lemma read_blob_put:
  assumes "length b \<le> MAX_BLOB" and "allocation_count s < MAX_ALLOCATIONS"
  shows "read_blob (s\<lparr>rest := le_bytes 4 (word_of_nat (length b) :: 32 word) @ b @ tail\<rparr>)
    = Inr (b, s\<lparr>rest := tail, allocation_count := Suc (allocation_count s)\<rparr>)"
  using assms by (simp add: read_blob_def read32_le_bytes unat_length Let_def)

lemma read_blobD:
  assumes "read_blob s = Inr (b, s')"
  shows "length b \<le> MAX_BLOB" and "rest s = le_bytes 4 (word_of_nat (length b) :: 32 word) @ b @ rest s'"
    and "allocation_count s' = Suc (allocation_count s)"
proof -
  from assms obtain w s1 where r: "read32 s = Inr (w, s1)" and w: "unat w \<le> MAX_BLOB" "unat w \<le> length (rest s1)"
    and b: "b = take (unat w) (rest s1)"
    and s': "s' = s1\<lparr>allocation_count := Suc (allocation_count s1), rest := drop (unat w) (rest s1)\<rparr>"
    by (auto simp: read_blob_def res_simps Let_def)
  note d = read32D [OF r]
  have len: "length b = unat w" using w(2) b by simp
  then show "length b \<le> MAX_BLOB" using w(1) by simp
  have "rest s1 = b @ rest s'" using b s' by simp
  with d len show "rest s = le_bytes 4 (word_of_nat (length b) :: 32 word) @ b @ rest s'" by simp
  show "allocation_count s' = Suc (allocation_count s)"
    using d s' by (metis reader.select_convs(2) reader.surjective reader.update_convs(1,2))
qed

interpretation blob_field: stream_field blob read_blob decodes_blob 1
proof unfold_locales
  fix x y bs tail and s :: reader
  assume "decodes_blob x y" and "blob x = Inr bs" and "allocation_count s + 1 \<le> MAX_ALLOCATIONS"
  then show "read_blob (s\<lparr>rest := bs @ tail\<rparr>) = Inr (y, s\<lparr>rest := tail, allocation_count := allocation_count s + 1\<rparr>)"
    by (auto simp: decodes_blob_def blob_hex read_blob_put)
next
  fix s s' :: reader and y
  assume "read_blob s = Inr (y, s')"
  from read_blobD [OF this] show "\<exists>x bs. decodes_blob x y \<and> blob x = Inr bs \<and> rest s = bs @ rest s'
      \<and> allocation_count s' = allocation_count s + 1"
    by (intro exI [of _ "hex_encode y"]) (auto simp: decodes_blob_def blob_hex)
qed (auto simp: decodes_blob_def blob_hex)

interpretation fixed_field: stream_field blob "fixed n" "decodes_fixed n" 1 for n
proof unfold_locales
  fix x y bs tail and s :: reader
  assume "decodes_fixed n x y" and "blob x = Inr bs" and "allocation_count s + 1 \<le> MAX_ALLOCATIONS"
  then show "fixed n (s\<lparr>rest := bs @ tail\<rparr>) = Inr (y, s\<lparr>rest := tail, allocation_count := allocation_count s + 1\<rparr>)"
    using blob_field.get_put [of x y bs s tail] by (simp add: fixed_def decodes_fixed_def)
next
  fix s s' :: reader and y
  assume "fixed n s = Inr (y, s')"
  then have "read_blob s = Inr (y, s')" and "length y = n" by (auto simp: fixed_def res_simps)
  with blob_field.put_get [of s y s'] show "\<exists>x bs. decodes_fixed n x y \<and> blob x = Inr bs \<and> rest s = bs @ rest s'
      \<and> allocation_count s' = allocation_count s + 1"
    by (auto simp: decodes_fixed_def)
qed (use blob_field.writes in \<open>auto simp: decodes_fixed_def\<close>)

section \<open>Inputs and outputs\<close>

definition decodes_input :: "fx_input \<Rightarrow> raw_input \<Rightarrow> bool" where
  "decodes_input i r \<longleftrightarrow>
     decodes_fixed 32 (fi_txid i) (prevTxid r) \<and> decodes_u32 (fi_vout i) (prevIx r)
     \<and> decodes_u32 (fi_sequence i) (raw_sequence r) \<and> decodes_fixed 33 (fi_asset i) (txo_asset r)
     \<and> decodes_fixed 9 (fi_value i) (txo_value r) \<and> explicit (txo_asset r) \<and> explicit (txo_value r)
     \<and> decodes_blob (fi_script i) (txo_script r)"

definition decodes_output :: "fx_output \<Rightarrow> raw_output \<Rightarrow> bool" where
  "decodes_output x r \<longleftrightarrow>
     decodes_fixed 33 (fo_asset x) (raw_asset r) \<and> decodes_fixed 9 (fo_value x) (raw_value r)
     \<and> explicit (raw_asset r) \<and> explicit (raw_value r) \<and> decodes_blob (fo_script x) (raw_script r)"

lemma concat_res_ok: "is_ok (concat_res cs) \<longleftrightarrow> list_all is_ok cs"
  by (induction cs) (auto simp: is_ok_iff res_simps)

interpretation input_field: stream_field encode_input read_input decodes_input 4
proof unfold_locales
  fix x y bs tail and s :: reader
  assume d: "decodes_input x y" and e: "encode_input x = Inr bs" and a: "allocation_count s + 4 \<le> MAX_ALLOCATIONS"
  from e obtain b1 b2 b3 b4 b5 b6 where b: "blob (fi_txid x) = Inr b1" "u32 (fi_vout x) = Inr b2"
    "u32 (fi_sequence x) = Inr b3" "blob (fi_asset x) = Inr b4" "blob (fi_value x) = Inr b5"
    "blob (fi_script x) = Inr b6" and bs: "bs = b1 @ b2 @ b3 @ b4 @ b5 @ b6"
    by (auto simp: encode_input_def res_simps)
  have "s\<lparr>rest := bs @ tail\<rparr> = \<lparr>rest = b1 @ b2 @ b3 @ b4 @ b5 @ b6 @ tail, allocation_count = allocation_count s\<rparr>"
    using bs by simp
  moreover have d': "decodes_fixed 32 (fi_txid x) (prevTxid y)" "decodes_u32 (fi_vout x) (prevIx y)"
    "decodes_u32 (fi_sequence x) (raw_sequence y)" "decodes_fixed 33 (fi_asset x) (txo_asset y)"
    "decodes_fixed 9 (fi_value x) (txo_value y)" "decodes_blob (fi_script x) (txo_script y)"
    "explicit (txo_asset y)" "explicit (txo_value y)"
    using d by (simp_all add: decodes_input_def)
  note fixed_field.get_reader [OF d'(1) b(1)] u32_field.get_reader [OF d'(2) b(2)] u32_field.get_reader [OF d'(3) b(3)]
    fixed_field.get_reader [OF d'(4) b(4)] fixed_field.get_reader [OF d'(5) b(5)] blob_field.get_reader [OF d'(6) b(6)]
  ultimately show "read_input (s\<lparr>rest := bs @ tail\<rparr>) = Inr (y, s\<lparr>rest := tail, allocation_count := allocation_count s + 4\<rparr>)"
    using a d'(7,8) by (simp add: read_input_def)
next
  fix s s' :: reader and y
  assume "read_input s = Inr (y, s')"
  then obtain s1 s2 s3 s4 s5 where r: "fixed 32 s = Inr (prevTxid y, s1)" "read32 s1 = Inr (prevIx y, s2)"
    "read32 s2 = Inr (raw_sequence y, s3)" "fixed 33 s3 = Inr (txo_asset y, s4)" "fixed 9 s4 = Inr (txo_value y, s5)"
    "explicit (txo_asset y)" "explicit (txo_value y)" "read_blob s5 = Inr (txo_script y, s')"
    by (auto simp: read_input_def res_simps)
  from fixed_field.put_get [OF r(1)] obtain x1 b1 where x1: "decodes_fixed 32 x1 (prevTxid y)" "blob x1 = Inr b1"
    "rest s = b1 @ rest s1" "allocation_count s1 = allocation_count s + 1" by blast
  from u32_field.put_get [OF r(2)] obtain x2 b2 where x2: "decodes_u32 x2 (prevIx y)" "u32 x2 = Inr b2"
    "rest s1 = b2 @ rest s2" "allocation_count s2 = allocation_count s1 + 0" by blast
  from u32_field.put_get [OF r(3)] obtain x3 b3 where x3: "decodes_u32 x3 (raw_sequence y)" "u32 x3 = Inr b3"
    "rest s2 = b3 @ rest s3" "allocation_count s3 = allocation_count s2 + 0" by blast
  from fixed_field.put_get [OF r(4)] obtain x4 b4 where x4: "decodes_fixed 33 x4 (txo_asset y)" "blob x4 = Inr b4"
    "rest s3 = b4 @ rest s4" "allocation_count s4 = allocation_count s3 + 1" by blast
  from fixed_field.put_get [OF r(5)] obtain x5 b5 where x5: "decodes_fixed 9 x5 (txo_value y)" "blob x5 = Inr b5"
    "rest s4 = b5 @ rest s5" "allocation_count s5 = allocation_count s4 + 1" by blast
  from blob_field.put_get [OF r(8)] obtain x6 b6 where x6: "decodes_blob x6 (txo_script y)" "blob x6 = Inr b6"
    "rest s5 = b6 @ rest s'" "allocation_count s' = allocation_count s5 + 1" by blast
  with x1 x2 x3 x4 x5 r(6,7) show "\<exists>x bs. decodes_input x y \<and> encode_input x = Inr bs \<and> rest s = bs @ rest s'
      \<and> allocation_count s' = allocation_count s + 4"
    by (intro exI [of _ "\<lparr>fi_txid = x1, fi_vout = x2, fi_sequence = x3, fi_asset = x4, fi_value = x5, fi_script = x6\<rparr>"])
      (auto simp: decodes_input_def encode_input_def)
next
  fix x y
  assume "decodes_input x y"
  then show "is_ok (encode_input x)"
    unfolding encode_input_def concat_res_ok decodes_input_def
    using fixed_field.writes u32_field.writes blob_field.writes
    by (simp only: list.pred_inject simp_thms) blast
qed

interpretation output_field: stream_field encode_output read_output decodes_output 3
proof unfold_locales
  fix x y bs tail and s :: reader
  assume d: "decodes_output x y" and e: "encode_output x = Inr bs" and a: "allocation_count s + 3 \<le> MAX_ALLOCATIONS"
  from e obtain b1 b2 b3 where b: "blob (fo_asset x) = Inr b1" "blob (fo_value x) = Inr b2"
    "blob (fo_script x) = Inr b3" and bs: "bs = b1 @ b2 @ b3"
    by (auto simp: encode_output_def res_simps)
  have "s\<lparr>rest := bs @ tail\<rparr> = \<lparr>rest = b1 @ b2 @ b3 @ tail, allocation_count = allocation_count s\<rparr>"
    using bs by simp
  moreover have d': "decodes_fixed 33 (fo_asset x) (raw_asset y)" "decodes_fixed 9 (fo_value x) (raw_value y)"
    "decodes_blob (fo_script x) (raw_script y)" "explicit (raw_asset y)" "explicit (raw_value y)"
    using d by (simp_all add: decodes_output_def)
  note fixed_field.get_reader [OF d'(1) b(1)] fixed_field.get_reader [OF d'(2) b(2)] blob_field.get_reader [OF d'(3) b(3)]
  ultimately show "read_output (s\<lparr>rest := bs @ tail\<rparr>) = Inr (y, s\<lparr>rest := tail, allocation_count := allocation_count s + 3\<rparr>)"
    using a d'(4,5) by (simp add: read_output_def)
next
  fix s s' :: reader and y
  assume "read_output s = Inr (y, s')"
  then obtain s1 s2 where r: "fixed 33 s = Inr (raw_asset y, s1)" "fixed 9 s1 = Inr (raw_value y, s2)"
    "explicit (raw_asset y)" "explicit (raw_value y)" "read_blob s2 = Inr (raw_script y, s')"
    by (auto simp: read_output_def res_simps)
  from fixed_field.put_get [OF r(1)] obtain x1 b1 where x1: "decodes_fixed 33 x1 (raw_asset y)" "blob x1 = Inr b1"
    "rest s = b1 @ rest s1" "allocation_count s1 = allocation_count s + 1" by blast
  from fixed_field.put_get [OF r(2)] obtain x2 b2 where x2: "decodes_fixed 9 x2 (raw_value y)" "blob x2 = Inr b2"
    "rest s1 = b2 @ rest s2" "allocation_count s2 = allocation_count s1 + 1" by blast
  from blob_field.put_get [OF r(5)] obtain x3 b3 where x3: "decodes_blob x3 (raw_script y)" "blob x3 = Inr b3"
    "rest s2 = b3 @ rest s'" "allocation_count s' = allocation_count s2 + 1" by blast
  with x1 x2 r(3,4) show "\<exists>x bs. decodes_output x y \<and> encode_output x = Inr bs \<and> rest s = bs @ rest s'
      \<and> allocation_count s' = allocation_count s + 3"
    by (intro exI [of _ "\<lparr>fo_asset = x1, fo_value = x2, fo_script = x3\<rparr>"])
      (auto simp: decodes_output_def encode_output_def)
next
  fix x y
  assume "decodes_output x y"
  then show "is_ok (encode_output x)"
    unfolding encode_output_def concat_res_ok decodes_output_def
    using fixed_field.writes blob_field.writes by (simp only: list.pred_inject simp_thms) blast
qed

section \<open>Whole fixtures\<close>

definition decodes_run :: "fixture \<Rightarrow> raw_run \<Rightarrow> bool" where
  "decodes_run f r \<longleftrightarrow>
     decodes_blob (fx_program f) (run_program r) \<and> decodes_blob (fx_witness f) (run_witness r)
     \<and> decodes_fixed 32 (fx_cmr f) (run_cmr r) \<and> decodes_fixed 33 (fx_control f) (run_control r)
     \<and> decodes_fixed 32 (fx_genesis f) (run_genesis r) \<and> decodes_fixed 32 (fx_txid f) (run_txid r)
     \<and> decodes_u32 (fx_version f) (run_version r) \<and> decodes_u32 (fx_lock_time f) (run_lockTime r)
     \<and> list_all2 decodes_input (fx_inputs f) (run_inputs r) \<and> list_all2 decodes_output (fx_outputs f) (run_outputs r)
     \<and> run_inputs r \<noteq> [] \<and> length (run_inputs r) \<le> MAX_IO \<and> length (run_outputs r) \<le> MAX_IO"

lemma decodes_runD:
  assumes "decodes_run f r"
  shows "decodes_blob (fx_program f) (run_program r)" "decodes_blob (fx_witness f) (run_witness r)"
    "decodes_fixed 32 (fx_cmr f) (run_cmr r)" "decodes_fixed 33 (fx_control f) (run_control r)"
    "decodes_fixed 32 (fx_genesis f) (run_genesis r)" "decodes_fixed 32 (fx_txid f) (run_txid r)"
    "decodes_u32 (fx_version f) (run_version r)" "decodes_u32 (fx_lock_time f) (run_lockTime r)"
    "list_all2 decodes_input (fx_inputs f) (run_inputs r)" "list_all2 decodes_output (fx_outputs f) (run_outputs r)"
    "0 < length (fx_inputs f)" "length (fx_inputs f) \<le> MAX_IO" "length (fx_outputs f) \<le> MAX_IO"
    "length (run_inputs r) = length (fx_inputs f)" "length (run_outputs r) = length (fx_outputs f)"
proof -
  have len: "length (run_inputs r) = length (fx_inputs f)" "length (run_outputs r) = length (fx_outputs f)"
    using assms list_all2_lengthD unfolding decodes_run_def by metis+
  then show "0 < length (fx_inputs f)" "length (fx_inputs f) \<le> MAX_IO" "length (fx_outputs f) \<le> MAX_IO"
    "length (run_inputs r) = length (fx_inputs f)" "length (run_outputs r) = length (fx_outputs f)"
    using assms by (auto simp: decodes_run_def)
qed (use assms in \<open>simp_all add: decodes_run_def\<close>)

lemma u32_count:
  assumes "n \<le> MAX_IO"
  shows "decodes_u32 (int n) (word_of_nat n)" and "unat (word_of_nat n :: 32 word) = n"
    and "(word_of_nat n :: 32 word) = 0 \<longleftrightarrow> n = 0"
proof -
  have small: "n < 2 ^ 32" using assms by (simp add: MAX_IO_def)
  show u: "unat (word_of_nat n :: 32 word) = n"
    unfolding unsigned_of_nat using small by (simp add: take_bit_eq_mod)
  then show "decodes_u32 (int n) (word_of_nat n)" by (simp add: decodes_u32_def uint_nat)
  show "(word_of_nat n :: 32 word) = 0 \<longleftrightarrow> n = 0" using u by (auto simp: word_unat_eq_iff)
qed

text \<open>The parts of a stream.\<close>

lemma encode_parts:
  assumes "encode f = Inr bs"
  obtains b1 b2 b3 b4 b5 b6 b7 b8 b9 bi b10 bo where "bs = b1 @ b2 @ b3 @ b4 @ b5 @ b6 @ b7 @ b8 @ b9 @ bi @ b10 @ bo"
    "blob (fx_program f) = Inr b1" "blob (fx_witness f) = Inr b2" "blob (fx_cmr f) = Inr b3"
    "blob (fx_control f) = Inr b4" "blob (fx_genesis f) = Inr b5" "blob (fx_txid f) = Inr b6"
    "u32 (fx_version f) = Inr b7" "u32 (fx_lock_time f) = Inr b8" "u32 (int (length (fx_inputs f))) = Inr b9"
    "concat_res (map encode_input (fx_inputs f)) = Inr bi" "u32 (int (length (fx_outputs f))) = Inr b10"
    "concat_res (map encode_output (fx_outputs f)) = Inr bo"
proof -
  have app: "concat_res (xs @ ys) = bind_res (concat_res xs) (\<lambda>a. bind_res (concat_res ys) (\<lambda>b. Inr (a @ b)))" for xs ys
  proof (induction xs)
    case Nil
    then show ?case by (cases "concat_res ys") simp_all
  next
    case (Cons x xs)
    then show ?case by (cases x; cases "concat_res xs"; cases "concat_res ys") simp_all
  qed
  from assms that show thesis
    by (auto simp: encode_def app res_simps)
qed

lemma encode_ok:
  assumes "decodes_run f r"
  shows "is_ok (encode f)"
proof -
  note d = decodes_runD [OF assms]
  have "list_all is_ok (map encode_input (fx_inputs f))" "list_all is_ok (map encode_output (fx_outputs f))"
    using input_field.writes_many [OF d(9)] output_field.writes_many [OF d(10)] by (simp_all add: concat_res_ok)
  then show ?thesis
    using blob_field.writes [OF d(1)] blob_field.writes [OF d(2)] fixed_field.writes [OF d(3)]
      fixed_field.writes [OF d(4)] fixed_field.writes [OF d(5)] fixed_field.writes [OF d(6)]
      u32_field.writes [OF d(7)] u32_field.writes [OF d(8)] u32_field.writes [OF u32_count(1) [OF d(12)]]
      u32_field.writes [OF u32_count(1) [OF d(13)]]
    by (simp add: encode_def concat_res_ok del: concat_res.simps)
qed

lemma read_run_encode:
  assumes "decodes_run f r" and "encode f = Inr bs"
  shows "read_run \<lparr>rest = bs, allocation_count = 0\<rparr>
    = Inr (r, \<lparr>rest = [], allocation_count = 6 + 4 * length (run_inputs r) + 3 * length (run_outputs r)\<rparr>)"
proof -
  note d = decodes_runD [OF assms(1)]
  from assms(2) obtain b1 b2 b3 b4 b5 b6 b7 b8 b9 bi b10 bo where
    bs: "bs = b1 @ b2 @ b3 @ b4 @ b5 @ b6 @ b7 @ b8 @ b9 @ bi @ b10 @ bo"
    and b: "blob (fx_program f) = Inr b1" "blob (fx_witness f) = Inr b2" "blob (fx_cmr f) = Inr b3"
    "blob (fx_control f) = Inr b4" "blob (fx_genesis f) = Inr b5" "blob (fx_txid f) = Inr b6"
    "u32 (fx_version f) = Inr b7" "u32 (fx_lock_time f) = Inr b8" "u32 (int (length (fx_inputs f))) = Inr b9"
    "concat_res (map encode_input (fx_inputs f)) = Inr bi" "u32 (int (length (fx_outputs f))) = Inr b10"
    "concat_res (map encode_output (fx_outputs f)) = Inr bo" by (rule encode_parts)
  note reads = blob_field.get_reader [OF d(1) b(1)] blob_field.get_reader [OF d(2) b(2)]
    fixed_field.get_reader [OF d(3) b(3)] fixed_field.get_reader [OF d(4) b(4)]
    fixed_field.get_reader [OF d(5) b(5)] fixed_field.get_reader [OF d(6) b(6)]
    u32_field.get_reader [OF d(7) b(7)] u32_field.get_reader [OF d(8) b(8)]
    u32_field.get_reader [OF u32_count(1) [OF d(12)] b(9)] u32_field.get_reader [OF u32_count(1) [OF d(13)] b(11)]
    input_field.get_many_reader [OF d(9) b(10)]
  have last: "read_many (length (fx_outputs f)) read_output \<lparr>rest = bo, allocation_count = k\<rparr>
      = Inr (run_outputs r, \<lparr>rest = [], allocation_count = k + length (fx_outputs f) * 3\<rparr>)"
    if "k + length (fx_outputs f) * 3 \<le> MAX_ALLOCATIONS" for k
    using output_field.get_many_reader [OF d(10) b(12) that, of "[]"] by simp
  have counts: "unat (word_of_nat (length (fx_inputs f)) :: 32 word) = length (fx_inputs f)"
    "unat (word_of_nat (length (fx_outputs f)) :: 32 word) = length (fx_outputs f)"
    "(word_of_nat (length (fx_inputs f)) :: 32 word) \<noteq> 0"
    using u32_count [OF d(12)] u32_count [OF d(13)] d(11) by simp_all
  have "length (fx_inputs f) \<le> 8" "length (fx_outputs f) \<le> 8" using d(12,13) by (simp_all add: MAX_IO_def)
  then show ?thesis
    unfolding bs read_run_def using d(11-15)
    by (simp add: reads last counts MAX_ALLOCATIONS_def)
qed

text \<open>
  C11. The encoder and the driver agree: every fixture whose fields are hexadecimal text of the sizes
  the driver expects, with explicit assets and values, one to eight inputs and at most eight
  outputs, is encoded without error, and the driver reads back exactly its fields and leaves no
  byte unread.
\<close>

theorem fixture_round_trip:
  assumes "decodes_run f r"
  shows "\<exists>bs. encode f = Inr bs
    \<and> read_run \<lparr>rest = bs, allocation_count = 0\<rparr>
       = Inr (r, \<lparr>rest = [], allocation_count = 6 + 4 * length (run_inputs r) + 3 * length (run_outputs r)\<rparr>)"
  using encode_ok [OF assms] read_run_encode [OF assms] by (auto simp: is_ok_iff)

definition demo_raw :: raw_run where
  "demo_raw = \<lparr>run_program = [1, 2, 3], run_witness = [4], run_cmr = replicate 32 5, run_control = replicate 33 6,
     run_genesis = replicate 32 7, run_txid = replicate 32 8, run_version = 2, run_lockTime = 0,
     run_inputs = [\<lparr>prevTxid = replicate 32 9, prevIx = 1, raw_sequence = 4294967294,
       txo_asset = 1 # replicate 32 10, txo_value = 1 # replicate 8 11, txo_script = [81]\<rparr>],
     run_outputs = [\<lparr>raw_asset = 1 # replicate 32 10, raw_value = 1 # replicate 8 11, raw_script = []\<rparr>]\<rparr>"

definition fixture_of :: "raw_run \<Rightarrow> fixture" where
  "fixture_of r = \<lparr>fx_name = [], fx_program = hex_encode (run_program r), fx_witness = hex_encode (run_witness r),
     fx_cmr = hex_encode (run_cmr r), fx_control = hex_encode (run_control r), fx_genesis = hex_encode (run_genesis r),
     fx_txid = hex_encode (run_txid r), fx_version = uint (run_version r), fx_lock_time = uint (run_lockTime r),
     fx_inputs = map (\<lambda>i. \<lparr>fi_txid = hex_encode (prevTxid i), fi_vout = uint (prevIx i),
       fi_sequence = uint (raw_sequence i), fi_asset = hex_encode (txo_asset i), fi_value = hex_encode (txo_value i),
       fi_script = hex_encode (txo_script i)\<rparr>) (run_inputs r),
     fx_outputs = map (\<lambda>x. \<lparr>fo_asset = hex_encode (raw_asset x), fo_value = hex_encode (raw_value x),
       fo_script = hex_encode (raw_script x)\<rparr>) (run_outputs r)\<rparr>"

lemmas decodes_defs = decodes_run_def decodes_blob_def decodes_fixed_def decodes_u32_def decodes_input_def
  decodes_output_def

lemma demo_raw_decodes: "decodes_run (fixture_of demo_raw) demo_raw"
  by (simp add: fixture_of_def demo_raw_def decodes_defs explicit_def MAX_BLOB_def MAX_IO_def)

theorem fixture_round_trip_witness:
  "\<exists>bs s. encode (fixture_of demo_raw) = Inr bs \<and> read_run \<lparr>rest = bs, allocation_count = 0\<rparr> = Inr (demo_raw, s)"
  using fixture_round_trip [OF demo_raw_decodes] by blast

lemma read_runD:
  assumes "read_run s = Inr (r, s')"
  obtains s1 s2 s3 s4 s5 s6 s7 s8 s9 ni si no s10 where
    "read_blob s = Inr (run_program r, s1)" "read_blob s1 = Inr (run_witness r, s2)"
    "fixed 32 s2 = Inr (run_cmr r, s3)" "fixed 33 s3 = Inr (run_control r, s4)"
    "fixed 32 s4 = Inr (run_genesis r, s5)" "fixed 32 s5 = Inr (run_txid r, s6)"
    "read32 s6 = Inr (run_version r, s7)" "read32 s7 = Inr (run_lockTime r, s8)" "read32 s8 = Inr (ni, s9)"
    "ni \<noteq> 0" "unat ni \<le> MAX_IO" "read_many (unat ni) read_input s9 = Inr (run_inputs r, si)"
    "read32 si = Inr (no, s10)" "unat no \<le> MAX_IO" "read_many (unat no) read_output s10 = Inr (run_outputs r, s')"
    "rest s' = []"
  using assms by (auto simp: read_run_def res_simps intro: that)

lemma decodes_unique:
  "list_all2 decodes_input xs (run_inputs r) \<Longrightarrow> fx_inputs (fixture_of r) = xs"
  "list_all2 decodes_output ys (run_outputs r) \<Longrightarrow> fx_outputs (fixture_of r) = ys"
  by (auto simp: fixture_of_def list_all2_conv_all_nth decodes_defs intro!: nth_equalityI)

lemma encode_appends:
  assumes "blob (fx_program f) = Inr b1" "blob (fx_witness f) = Inr b2" "blob (fx_cmr f) = Inr b3"
    "blob (fx_control f) = Inr b4" "blob (fx_genesis f) = Inr b5" "blob (fx_txid f) = Inr b6"
    "u32 (fx_version f) = Inr b7" "u32 (fx_lock_time f) = Inr b8" "u32 (int (length (fx_inputs f))) = Inr b9"
    "concat_res (map encode_input (fx_inputs f)) = Inr bi" "u32 (int (length (fx_outputs f))) = Inr b10"
    "concat_res (map encode_output (fx_outputs f)) = Inr bo"
  shows "encode f = Inr (b1 @ b2 @ b3 @ b4 @ b5 @ b6 @ b7 @ b8 @ b9 @ bi @ b10 @ bo)"
proof -
  have app: "concat_res xs = Inr a \<Longrightarrow> concat_res (xs @ ys) = bind_res (concat_res ys) (\<lambda>b. Inr (a @ b))" for xs ys a
  proof (induction xs arbitrary: a)
    case Nil
    then show ?case by (cases "concat_res ys") simp_all
  next
    case (Cons x xs)
    then show ?case by (cases x; cases "concat_res xs"; cases "concat_res ys") auto
  qed
  show ?thesis using assms by (simp add: encode_def app)
qed

text \<open>What was read is the hexadecimal text or the number that was written.\<close>

abbreviation (input) blob_bytes :: "byte list \<Rightarrow> byte list" where
  "blob_bytes b \<equiv> le_bytes 4 (word_of_nat (length b) :: 32 word) @ b"

lemma read_blob_bytes:
  assumes "read_blob s = Inr (b, s')"
  shows "decodes_blob (hex_encode b) b" and "blob (hex_encode b) = Inr (blob_bytes b)"
    and "rest s = blob_bytes b @ rest s'" and "allocation_count s' = Suc (allocation_count s)"
  using read_blobD [OF assms] by (simp_all add: decodes_blob_def blob_hex)

lemma fixed_bytes:
  assumes "fixed n s = Inr (b, s')"
  shows "decodes_fixed n (hex_encode b) b" and "blob (hex_encode b) = Inr (blob_bytes b)"
    and "rest s = blob_bytes b @ rest s'" and "allocation_count s' = Suc (allocation_count s)"
proof -
  have "read_blob s = Inr (b, s')" and "length b = n" using assms by (auto simp: fixed_def res_simps)
  with read_blob_bytes [OF this(1)]
  show "decodes_fixed n (hex_encode b) b" and "blob (hex_encode b) = Inr (blob_bytes b)"
    and "rest s = blob_bytes b @ rest s'" and "allocation_count s' = Suc (allocation_count s)"
    by (simp_all add: decodes_fixed_def)
qed

lemma read32_bytes:
  assumes "read32 s = Inr (w, s')"
  shows "rest s = le_bytes 4 w @ rest s'" and "allocation_count s' = allocation_count s"
  using read32D [OF assms] by (auto dest: arg_cong [of _ _ allocation_count])

lemma read_run_encodes:
  assumes "read_run s = Inr (r, s')"
  shows "decodes_run (fixture_of r) r \<and> encode (fixture_of r) = Inr (rest s)
    \<and> allocation_count s' = allocation_count s + 6 + 4 * length (run_inputs r) + 3 * length (run_outputs r)"
proof -
  from assms obtain s1 s2 s3 s4 s5 s6 s7 s8 s9 ni si no s10 where r:
    "read_blob s = Inr (run_program r, s1)" "read_blob s1 = Inr (run_witness r, s2)"
    "fixed 32 s2 = Inr (run_cmr r, s3)" "fixed 33 s3 = Inr (run_control r, s4)"
    "fixed 32 s4 = Inr (run_genesis r, s5)" "fixed 32 s5 = Inr (run_txid r, s6)"
    "read32 s6 = Inr (run_version r, s7)" "read32 s7 = Inr (run_lockTime r, s8)" "read32 s8 = Inr (ni, s9)"
    "ni \<noteq> 0" "unat ni \<le> MAX_IO" "read_many (unat ni) read_input s9 = Inr (run_inputs r, si)"
    "read32 si = Inr (no, s10)" "unat no \<le> MAX_IO" "read_many (unat no) read_output s10 = Inr (run_outputs r, s')"
    "rest s' = []" by (rule read_runD)
  note p = read_blob_bytes [OF r(1)] and p2 = read_blob_bytes [OF r(2)] and p3 = fixed_bytes [OF r(3)]
    and p4 = fixed_bytes [OF r(4)] and p5 = fixed_bytes [OF r(5)] and p6 = fixed_bytes [OF r(6)]
    and q = read32_bytes [OF r(7)] read32_bytes [OF r(8)] read32_bytes [OF r(9)] read32_bytes [OF r(13)]
  from input_field.many_get [OF r(12)] obtain xs bi where i: "length xs = unat ni" "list_all2 decodes_input xs (run_inputs r)"
    "concat_res (map encode_input xs) = Inr bi" "rest s9 = bi @ rest si"
    "allocation_count si = allocation_count s9 + unat ni * 4" by blast
  from output_field.many_get [OF r(15)] obtain ys bo where o': "length ys = unat no" "list_all2 decodes_output ys (run_outputs r)"
    "concat_res (map encode_output ys) = Inr bo" "rest s10 = bo @ rest s'"
    "allocation_count s' = allocation_count s10 + unat no * 3" by blast
  have f: "fx_inputs (fixture_of r) = xs" "fx_outputs (fixture_of r) = ys"
    by (rule decodes_unique, rule i(2)) (rule decodes_unique, rule o'(2))
  have len: "length (run_inputs r) = unat ni" "length (run_outputs r) = unat no"
    using list_all2_lengthD [OF i(2)] list_all2_lengthD [OF o'(2)] i(1) o'(1) by simp_all
  have ne: "run_inputs r \<noteq> []" using len(1) r(10) by (auto simp: word_unat_eq_iff)
  have fields: "fx_program (fixture_of r) = hex_encode (run_program r)" "fx_witness (fixture_of r) = hex_encode (run_witness r)"
    "fx_cmr (fixture_of r) = hex_encode (run_cmr r)" "fx_control (fixture_of r) = hex_encode (run_control r)"
    "fx_genesis (fixture_of r) = hex_encode (run_genesis r)" "fx_txid (fixture_of r) = hex_encode (run_txid r)"
    "fx_version (fixture_of r) = uint (run_version r)" "fx_lock_time (fixture_of r) = uint (run_lockTime r)"
    by (simp_all add: fixture_of_def)
  have counts: "int (length xs) = uint ni" "int (length ys) = uint no"
    by (simp_all only: i(1) o'(1) uint_nat)
  have "encode (fixture_of r) = Inr (blob_bytes (run_program r) @ blob_bytes (run_witness r) @ blob_bytes (run_cmr r)
      @ blob_bytes (run_control r) @ blob_bytes (run_genesis r) @ blob_bytes (run_txid r) @ le_bytes 4 (run_version r)
      @ le_bytes 4 (run_lockTime r) @ le_bytes 4 ni @ bi @ le_bytes 4 no @ bo)"
    by (rule encode_appends) (simp_all only: f fields counts p(2) p2(2) p3(2) p4(2) p5(2) p6(2) u32_uint i(3) o'(3))
  moreover have "rest s = blob_bytes (run_program r) @ blob_bytes (run_witness r) @ blob_bytes (run_cmr r)
      @ blob_bytes (run_control r) @ blob_bytes (run_genesis r) @ blob_bytes (run_txid r) @ le_bytes 4 (run_version r)
      @ le_bytes 4 (run_lockTime r) @ le_bytes 4 ni @ bi @ le_bytes 4 no @ bo"
    by (simp only: p(3) p2(3) p3(3) p4(3) p5(3) p6(3) q i(4) o'(4) r(16) append_assoc append_Nil2)
  moreover have "allocation_count s' = allocation_count s + 6 + 4 * length (run_inputs r) + 3 * length (run_outputs r)"
    using p(4) p2(4) p3(4) p4(4) p5(4) p6(4) q i(5) o'(5) len by simp
  moreover have "decodes_run (fixture_of r) r"
    unfolding decodes_run_def f fields using p(1) p2(1) p3(1) p4(1) p5(1) p6(1) i(2) o'(2) r(11,14) len ne
    by (simp add: decodes_u32_def)
  ultimately show ?thesis by simp
qed

end
