(* ===== verification/Fixture_Props.thy ===== *)
theory Fixture_Props
  imports Fixture_Codec
begin

text \<open>
  What the verdicts of \<^verbatim>\<open>scripts/check-fork.mjs\<close> mean: which streams the driver accepts, that its
  fixed tables are large enough, that its budget does not wrap around, and that one check of the
  script succeeds exactly on the expected interpreter result.
\<close>

text \<open>
  C12. The driver accepts nothing else: a byte stream it decodes without error is the encoding of the
  fixture it decoded, so no two streams decode to the same run, and it used at most 62 of its 100
  allocation slots.
\<close>

theorem driver_accepts_only_encodings:
  assumes "read_run \<lparr>rest = bs, allocation_count = 0\<rparr> = Inr (r, s)"
  shows "decodes_run (fixture_of r) r \<and> encode (fixture_of r) = Inr bs \<and> allocation_count s \<le> 62
    \<and> allocation_count s < MAX_ALLOCATIONS"
proof -
  have d: "decodes_run (fixture_of r) r" "encode (fixture_of r) = Inr bs"
    "allocation_count s = 6 + 4 * length (run_inputs r) + 3 * length (run_outputs r)"
    using read_run_encodes [OF assms] by simp_all
  have "length (run_inputs r) \<le> 8" "length (run_outputs r) \<le> 8"
    using d(1) by (simp_all add: decodes_run_def MAX_IO_def)
  with d show ?thesis by (simp add: MAX_ALLOCATIONS_def)
qed

theorem driver_accepts_only_encodings_witness:
  "\<exists>bs s. read_run \<lparr>rest = bs, allocation_count = 0\<rparr> = Inr (demo_raw, s) \<and> encode (fixture_of demo_raw) = Inr bs
     \<and> allocation_count s \<le> 62"
proof -
  obtain bs where bs: "encode (fixture_of demo_raw) = Inr bs" using encode_ok [OF demo_raw_decodes] by (auto simp: is_ok_iff)
  note r = read_run_encode [OF demo_raw_decodes bs]
  from driver_accepts_only_encodings [OF r] r show ?thesis by blast
qed

section \<open>The budget\<close>

definition compact_size_nat :: "nat \<Rightarrow> nat" where
  "compact_size_nat n = (if n < 253 then 1 else if n \<le> 65535 then 3 else 5)"

lemma budget_sum:
  assumes "read_run \<lparr>rest = bs, allocation_count = 0\<rparr> = Inr (r, s)"
  shows "budget r = int (50 + 1 + compact_size_nat (length (run_program r)) + length (run_program r)
      + compact_size_nat (length (run_witness r)) + length (run_witness r) + 1 + 32 + 1 + 33)
    \<and> 120 \<le> budget r \<and> budget r \<le> 2097288"
proof -
  have "decodes_run (fixture_of r) r" using read_run_encodes [OF assms] by simp
  then have len: "length (run_program r) \<le> 1048576" "length (run_witness r) \<le> 1048576"
    by (simp_all add: decodes_run_def decodes_blob_def MAX_BLOB_def)
  let ?p = "word_of_nat (length (run_program r)) :: 32 word" and ?w = "word_of_nat (length (run_witness r)) :: 32 word"
  have u: "unat ?p = length (run_program r)" "unat ?w = length (run_witness r)"
    using len by (simp_all add: unat_length MAX_BLOB_def)
  have c: "compact_size_nat n \<in> {1, 3, 5}" for n by (simp add: compact_size_nat_def)
  let ?cp = "compact_size_nat (length (run_program r))" and ?cw = "compact_size_nat (length (run_witness r))"
  let ?n = "50 + 1 + ?cp + length (run_program r) + ?cw + length (run_witness r) + 1 + 32 + 1 + 33"
  have small: "?n \<le> 2097288" using len c [of "length (run_program r)"] c [of "length (run_witness r)"] by auto
  have "50 + 1 + compact_size ?p + ?p + compact_size ?w + ?w + 1 + 32 + 1 + 33 = (word_of_nat ?n :: 32 word)"
    by (simp add: compact_size_def compact_size_nat_def word_less_nat_alt word_le_nat_alt u)
  then have "budget r = uint (word_of_nat ?n :: 32 word)" by (simp only: budget_def Let_def)
  also have "\<dots> = int ?n"
  proof -
    have "uint (word_of_nat n :: 32 word) = int n" if "n \<le> 2097288" for n
      unfolding uint_nat unsigned_of_nat using that by (simp add: take_bit_eq_mod)
    then show ?thesis using small .
  qed
  finally have "budget r = int ?n" .
  moreover have "120 \<le> ?n" using c [of "length (run_program r)"] c [of "length (run_witness r)"] by auto
  ultimately show ?thesis using small by simp
qed

text \<open>
  The budget is exact: the driver adds up the budget in unsigned 32-bit arithmetic, and for every
  run it decodes the sum does not wrap around: it is the size of the witness stack with its
  length prefixes plus 50, and it lies between 120 and 2097288.
\<close>

theorem budget_exact:
  assumes "read_run \<lparr>rest = bs, allocation_count = 0\<rparr> = Inr (r, s)"
  shows "budget r = int (50 + 1 + compact_size_nat (length (run_program r)) + length (run_program r)
      + compact_size_nat (length (run_witness r)) + length (run_witness r) + 1 + 32 + 1 + 33)
    \<and> 120 \<le> budget r \<and> budget r \<le> 2097288"
  by (rule budget_sum [OF assms])

theorem budget_exact_witness: "budget demo_raw = 124"
proof -
  obtain bs where bs: "encode (fixture_of demo_raw) = Inr bs" using encode_ok [OF demo_raw_decodes] by (auto simp: is_ok_iff)
  from budget_exact [OF read_run_encode [OF demo_raw_decodes bs]] show ?thesis
    by (simp add: compact_size_nat_def) (simp add: demo_raw_def)
qed

section \<open>Verdicts\<close>

lemma parse_verdict:
  assumes "\<bar>e\<bar> \<le> 2147483648" and "\<bar>b\<bar> \<le> 2097288"
  shows "json_parse (json_print (verdict e b) @ [CHR 0x0A]) = Some (verdict e b)"
  using assms by (intro json_round_trip_line) (simp add: verdict_def)

lemma fork_vm_encode:
  assumes "decodes_run f r" and "encode f = Inr bs"
  shows "fork_vm exec bs =
    (case exec r (budget r) of
       None \<Rightarrow> \<lparr>sp_failed = False, sp_status = 2, sp_stdout = []\<rparr>
     | Some e \<Rightarrow> \<lparr>sp_failed = False, sp_status = 0, sp_stdout = json_print (verdict e (budget r)) @ [CHR 0x0A]\<rparr>)"
  by (simp add: fork_vm_def read_run_encode [OF assms])

lemma check_verdict:
  assumes "decodes_run f r" and "exec r (budget r) = Some e" and "\<bar>e\<bar> \<le> 2147483648"
  shows "check (fork_vm exec) f pass k = (if (e = 0) = pass then Inr (Suc k) else Inl ''ERR_ASSERTION'')"
proof -
  obtain bs where bs: "encode f = Inr bs" using encode_ok [OF assms(1)] by (auto simp: is_ok_iff)
  have "\<bar>budget r\<bar> \<le> 2097288" using budget_sum [OF read_run_encode [OF assms(1) bs]] by simp
  note p = parse_verdict [OF assms(3) this]
  have "jget (verdict e b) ''error'' = Some (JNum (of_int e))" "verdict e b \<noteq> JNull" for b
    by (simp_all add: verdict_def jget_def)
  then show ?thesis
    by (simp add: check_def bs fork_vm_encode [OF assms(1) bs] assms(2) run_def p)
qed

text \<open>
  One check is exact: for a fixture of the expected form and an interpreter that returns a C
  \<open>int\<close>, \<open>check\<close> counts a success if the interpreter's result on exactly these fields is zero and a
  pass is expected, or non-zero and a failure is expected, and throws otherwise.
\<close>

theorem check_exact:
  assumes "decodes_run f r" and "exec r (budget r) = Some e" and "\<bar>e\<bar> \<le> 2147483648"
  shows "check (fork_vm exec) f pass k = (if (e = 0) = pass then Inr (Suc k) else Inl ''ERR_ASSERTION'')"
  using assms by (rule check_verdict)

theorem check_exact_witness: "check (fork_vm (\<lambda>r b. Some (if run_version r = 2 then 0 else 3))) (fixture_of demo_raw) True 7 = Inr 8"
proof -
  have "run_version demo_raw = 2" by (simp add: demo_raw_def)
  then show ?thesis
    using check_exact [OF demo_raw_decodes, of "\<lambda>r b. Some (if run_version r = 2 then 0 else 3)" 0 True 7] by simp
qed

end
