(* ===== verification/Fixture_Mutations.thy ===== *)
theory Fixture_Mutations
  imports Fixture_Codec
begin

text \<open>
  The mutations that \<^verbatim>\<open>scripts/check-fork.mjs\<close> applies to a fixture, as mutations of the run that the
  driver decodes.
\<close>

section \<open>Mutated fixtures decode to mutated runs\<close>

lemma hex_encode_simps [simp]: "hex_encode [] = []" "hex_encode (b # bs) = hex_byte b @ hex_encode bs"
  by (simp_all add: hex_encode_def)

lemma repeat_hex: "repeat_string n (hex_byte b) = hex_encode (replicate n b)"
  by (induction n) (simp_all add: repeat_string_def hex_encode_def)

lemma hex_literals:
  "''77'' = hex_byte 0x77" "''99'' = hex_byte 0x99" "''51'' = hex_byte 0x51" "''01'' = hex_byte 1"
  "''010000000000000001'' = hex_encode [1, 0, 0, 0, 0, 0, 0, 0, 1]"
  by code_simp+

lemma wrong_network_decodes:
  "decodes_run f r \<Longrightarrow> wrong_network f = Inr g \<Longrightarrow> decodes_run g (r\<lparr>run_genesis := replicate 32 0x77\<rparr>)"
  by (auto simp: wrong_network_def decodes_run_def decodes_fixed_def decodes_blob_def hex_literals repeat_hex MAX_BLOB_def)

lemma first_output_decodes:
  assumes "decodes_run f r" "first_output g f = Inr f'" and "\<And>x y. decodes_output x y \<Longrightarrow> decodes_output (g x) (h y)"
  shows "decodes_run f' (r\<lparr>run_outputs := map h (take 1 (run_outputs r)) @ drop 1 (run_outputs r)\<rparr>)"
  using assms by (auto simp: first_output_def decodes_run_def list_all2_Cons1 split: list.splits)

lemma first_input_decodes:
  assumes "decodes_run f r" "first_input g f = Inr f'" and "\<And>x y. decodes_input x y \<Longrightarrow> decodes_input (g x) (h y)"
  shows "decodes_run f' (r\<lparr>run_inputs := map h (take 1 (run_inputs r)) @ drop 1 (run_inputs r)\<rparr>)"
  using assms by (auto simp: first_input_def decodes_run_def list_all2_Cons1 split: list.splits)

lemma output_mutations:
  "decodes_output x y \<Longrightarrow> decodes_output (x\<lparr>fo_script := ''51''\<rparr>) (y\<lparr>raw_script := [0x51]\<rparr>)"
  "decodes_output x y \<Longrightarrow> decodes_output (x\<lparr>fo_value := ''010000000000000001''\<rparr>) (y\<lparr>raw_value := [1, 0, 0, 0, 0, 0, 0, 0, 1]\<rparr>)"
  "decodes_output x y \<Longrightarrow> decodes_output (x\<lparr>fo_asset := ''01'' @ repeat_string 32 ''99''\<rparr>) (y\<lparr>raw_asset := 1 # replicate 32 0x99\<rparr>)"
    apply (simp add: decodes_output_def decodes_blob_def hex_literals(3) MAX_BLOB_def)
   apply (simp only: hex_literals(5))
   apply (simp add: decodes_output_def decodes_fixed_def decodes_blob_def explicit_def MAX_BLOB_def del: hex_encode_simps)
  apply (simp add: decodes_output_def decodes_fixed_def decodes_blob_def explicit_def MAX_BLOB_def hex_literals(2,4) repeat_hex)
  done

lemma disabled_sequence: "decodes_input x y \<Longrightarrow> decodes_input (x\<lparr>fi_sequence := 4294967295\<rparr>) (y\<lparr>raw_sequence := 0xffffffff\<rparr>)"
  by (simp add: decodes_input_def decodes_u32_def)

lemma extra_output_decodes:
  "decodes_run f r \<Longrightarrow> extra_output f = Inr g \<Longrightarrow> run_outputs r = [x] \<Longrightarrow> decodes_run g (r\<lparr>run_outputs := [x, x]\<rparr>)"
  by (auto simp: extra_output_def decodes_run_def list_all2_Cons2 MAX_IO_def split: list.splits)

lemma extra_input_decodes:
  "decodes_run f r \<Longrightarrow> extra_input f = Inr g \<Longrightarrow> run_inputs r = [x] \<Longrightarrow> decodes_run g (r\<lparr>run_inputs := [x, x]\<rparr>)"
  by (auto simp: extra_input_def decodes_run_def list_all2_Cons2 MAX_IO_def split: list.splits)

lemma early_release_decodes:
  "decodes_run f r \<Longrightarrow> early_release f = Inr g \<Longrightarrow> decodes_run g (r\<lparr>run_lockTime := 1009\<rparr>)"
  by (auto simp: early_release_def decodes_run_def decodes_u32_def)

lemma hex_byte_inject: "hex_byte b = hex_byte c \<longleftrightarrow> b = c"
proof
  assume "hex_byte b = hex_byte c"
  then have "hex_decode (hex_byte b @ []) = hex_decode (hex_byte c @ [])" by (simp only:)
  then show "b = c" unfolding hex_decode_byte by simp
qed simp

lemma length_hex_byte [simp]: "length (hex_byte b) = 2"
  by (simp add: hex_byte_def)

lemma corrupt_evidence_decodes:
  assumes "decodes_run f r" "run_witness r = w @ [b]" "corrupt_evidence f = Inr g"
  shows "decodes_run g (r\<lparr>run_witness := w @ [if b = 0 then 1 else 0]\<rparr>)"
proof -
  have fw: "fx_witness f = hex_encode w @ hex_byte b" "length w < MAX_BLOB"
    using assms(1,2) by (simp_all add: decodes_run_def decodes_blob_def hex_encode_def)
  have zero: "''00'' = hex_byte 0" by code_simp
  have "slice_2 (fx_witness f) = hex_encode w" "ends_with (fx_witness f) ''00'' \<longleftrightarrow> b = 0"
    unfolding fw slice_2_def ends_with_def zero by (simp_all add: hex_byte_inject)
  moreover have "hex_encode w @ hex_byte c = hex_encode (w @ [c])" for c by (simp add: hex_encode_def)
  ultimately have "g = f\<lparr>fx_witness := hex_encode (w @ [if b = 0 then 1 else 0])\<rparr>"
    using assms(3) unfolding corrupt_evidence_def hex_literals(4) zero by auto
  with assms(1) fw(2) show ?thesis by (simp add: decodes_run_def decodes_blob_def)
qed

lemma uint_next: "(w :: 32 word) \<noteq> 0xffffffff \<Longrightarrow> uint (w + 1) = uint w + 1"
proof -
  assume "w \<noteq> 0xffffffff"
  moreover have "(0xffffffff :: 32 word) = - 1" by simp
  ultimately have "1 + w \<noteq> 0" by (metis add.commute add_eq_0_iff)
  then have "unat (1 + w) = Suc (unat w)" by (rule unatSuc)
  then show ?thesis unfolding uint_nat by (simp add: add.commute del: of_nat_unat)
qed

lemma next_vout:
  "decodes_input x y \<Longrightarrow> prevIx y \<noteq> 0xffffffff \<Longrightarrow> decodes_input (x\<lparr>fi_vout := fi_vout x + 1\<rparr>) (y\<lparr>prevIx := prevIx y + 1\<rparr>)"
  by (simp add: decodes_input_def decodes_u32_def uint_next)

end
