(* ===== verification/Fixture_Script.thy ===== *)
theory Fixture_Script
  imports Fixture_Props Fixture_Mutations
begin

text \<open>The whole interpreter check script: what its success shows.\<close>

section \<open>The whole script\<close>

text \<open>The interpreter's result on the run that the driver decodes from a fixture.\<close>

definition judged :: "(raw_run \<Rightarrow> int \<Rightarrow> int option) \<Rightarrow> fixture \<Rightarrow> int \<Rightarrow> bool" where
  "judged exec f e \<longleftrightarrow> (\<exists>bs r s. encode f = Inr bs \<and> read_run \<lparr>rest = bs, allocation_count = 0\<rparr> = Inr (r, s)
     \<and> exec r (budget r) = Some e)"

lemma check_encoding: "encode f = encode g \<Longrightarrow> check vm f pass k = check vm g pass k"
  by (simp add: check_def)

lemma check_judged:
  assumes int: "\<forall>r b e. exec r b = Some e \<longrightarrow> \<bar>e\<bar> \<le> 2147483648" and ok: "check (fork_vm exec) f pass k = Inr n"
  shows "n = Suc k \<and> (\<exists>e. judged exec f e \<and> (e = 0) = pass)"
proof -
  obtain bs where bs: "encode f = Inr bs" and out: "is_ok (run (fork_vm exec bs))"
    using ok by (auto simp: check_def bind_res_Inr is_ok_iff)
  obtain r s e where r: "read_run \<lparr>rest = bs, allocation_count = 0\<rparr> = Inr (r, s)" and e: "exec r (budget r) = Some e"
    using out by (auto simp: fork_vm_def run_def split: sum.splits option.splits)
  note d = read_run_encodes [OF r]
  have "check (fork_vm exec) f pass k = check (fork_vm exec) (fixture_of r) pass k"
    by (rule check_encoding) (use d bs in simp)
  have "\<bar>e\<bar> \<le> 2147483648" using int e by blast
  with ok check_verdict [where exec = exec and pass = pass and k = k, OF conjunct1 [OF d] e]
    \<open>check (fork_vm exec) f pass k = check (fork_vm exec) (fixture_of r) pass k\<close>
  have "n = Suc k \<and> (e = 0) = pass" by (simp split: if_splits)
  with bs r e show ?thesis unfolding judged_def by blast
qed

lemma check_all_judged:
  assumes int: "\<forall>r b e. exec r b = Some e \<longrightarrow> \<bar>e\<bar> \<le> 2147483648" and "check_all (fork_vm exec) fs k = Inr n"
  shows "n = k + length fs \<and> (\<forall>(f, pass) \<in> set fs. \<exists>g e. f = Inr g \<and> judged exec g e \<and> (e = 0) = pass)"
  using assms(2)
proof (induction fs arbitrary: k)
  case (Cons fp fs)
  obtain f pass where fp: "fp = (f, pass)" by (cases fp)
  with Cons.prems obtain g m where g: "f = Inr g" "check (fork_vm exec) g pass k = Inr m" "check_all (fork_vm exec) fs m = Inr n"
    by (auto simp: bind_res_Inr)
  from check_judged [OF int g(2)] Cons.IH [OF g(3)] show ?case unfolding fp g(1) by auto
qed simp

text \<open>
  C21. A successful script means what it says: if it reports \<open>n\<close> checks, the tree of the checkout is the
  pinned one, \<open>n\<close> is the number of vectors, the eight mutations and two per release vector, the
  interpreter accepted every vector, and rejected every mutation and every early or unlocked release.
\<close>

theorem check_fork_sound:
  assumes "\<forall>r b e. exec r b = Some e \<longrightarrow> \<bar>e\<bar> \<le> 2147483648"
    and "check_fork args head_tree pinned_tree clean_tree compiler (Inr vectors) (fork_vm exec) = Inr n"
  shows "trim (sp_stdout head_tree) = trim (sp_stdout pinned_tree) \<and> sp_status clean_tree = 0
    \<and> n = 3 * length vectors + 6
    \<and> (\<forall>f \<in> set vectors. judged exec f 0)
    \<and> (\<forall>(name, mutate) \<in> set mutations. \<exists>g e. mutate (hd vectors) = Inr g \<and> judged exec g e \<and> e \<noteq> 0)
    \<and> (\<forall>f \<in> set (tl vectors). (\<exists>g e. early_release f = Inr g \<and> judged exec g e \<and> e \<noteq> 0)
         \<and> (\<exists>g e. disabled_locktime f = Inr g \<and> judged exec g e \<and> e \<noteq> 0))"
proof -
  have run_stdout: "run r = Inr out \<longleftrightarrow> \<not> sp_failed r \<and> sp_status r = 0 \<and> out = sp_stdout r" for r out
    by (auto simp: run_def)
  have v: "trim (sp_stdout head_tree) = trim (sp_stdout pinned_tree)" "sp_status clean_tree = 0" "vectors \<noteq> []"
    and all: "check_all (fork_vm exec) (script_checks vectors) 0 = Inr n"
    using assms(2) by (auto simp: check_fork_def guard_Inr bind_res_Inr run_stdout)
  note judged = check_all_judged [OF assms(1) all]
  have len: "length (script_checks vectors) = 3 * length vectors + 6"
    using v(3) by (cases vectors) (simp_all add: script_checks_def mutations_def length_concat comp_def sum_list_triv)
  have each: "(f, pass) \<in> set (script_checks vectors) \<Longrightarrow> \<exists>g e. f = Inr g \<and> judged exec g e \<and> (e = 0) = pass" for f pass
    using judged by blast
  have "judged exec f 0" if "f \<in> set vectors" for f
    using each [of "Inr f" True] that by (auto simp: script_checks_def)
  moreover have "\<exists>g e. mutate (hd vectors) = Inr g \<and> judged exec g e \<and> e \<noteq> 0" if "(name, mutate) \<in> set mutations" for name mutate
    using each [of "mutate (hd vectors)" False] that by (force simp: script_checks_def)
  moreover have "\<exists>g e. early_release f = Inr g \<and> judged exec g e \<and> e \<noteq> 0" "\<exists>g e. disabled_locktime f = Inr g \<and> judged exec g e \<and> e \<noteq> 0"
    if "f \<in> set (tl vectors)" for f
    using each [of "early_release f" False] each [of "disabled_locktime f" False] that by (auto simp: script_checks_def)
  ultimately show ?thesis using v judged len by auto
qed

text \<open>A run of the script with one vector and an interpreter that accepts only this vector.\<close>

definition only_demo :: "raw_run \<Rightarrow> int \<Rightarrow> int option" where
  "only_demo r b = Some (if r = demo_raw then 0 else 7)"

definition done_with :: "string \<Rightarrow> spawn_result" where
  "done_with out = \<lparr>sp_failed = False, sp_status = 0, sp_stdout = out\<rparr>"

lemma only_demo_accepts: "check (fork_vm only_demo) (fixture_of demo_raw) True k = Inr (Suc k)"
  using check_verdict [OF demo_raw_decodes, of only_demo 0 True k] by (simp add: only_demo_def)

lemma only_demo_rejects:
  assumes "decodes_run g r" "r \<noteq> demo_raw"
  shows "check (fork_vm only_demo) g False k = Inr (Suc k)"
  using check_verdict [OF assms(1), of only_demo 7 False k] assms(2) by (simp add: only_demo_def)

lemma demo_shape:
  "run_witness demo_raw = [] @ [4]" "\<exists>i. fx_inputs (fixture_of demo_raw) = [i]" "\<exists>x. fx_outputs (fixture_of demo_raw) = [x]"
  by (simp_all add: demo_raw_def fixture_of_def)

lemma demo_first_output:
  assumes "\<And>x y. decodes_output x y \<Longrightarrow> decodes_output (h x) (h' y)" "h' (hd (run_outputs demo_raw)) \<noteq> hd (run_outputs demo_raw)"
  shows "\<exists>g. first_output h (fixture_of demo_raw) = Inr g \<and> (\<forall>k. check (fork_vm only_demo) g False k = Inr (Suc k))"
proof -
  obtain g where g: "first_output h (fixture_of demo_raw) = Inr g"
    using demo_shape(3) by (auto simp: first_output_def)
  have "demo_raw\<lparr>run_outputs := map h' (take 1 (run_outputs demo_raw)) @ drop 1 (run_outputs demo_raw)\<rparr> \<noteq> demo_raw"
    using assms(2) by (auto simp: demo_raw_def)
  moreover have "decodes_run g (demo_raw\<lparr>run_outputs := map h' (take 1 (run_outputs demo_raw)) @ drop 1 (run_outputs demo_raw)\<rparr>)"
    by (rule first_output_decodes [OF demo_raw_decodes g]) (rule assms(1))
  ultimately show ?thesis using g only_demo_rejects by blast
qed

lemma demo_rejected:
  assumes "m = Inr g" "decodes_run g r" "r \<noteq> demo_raw"
  shows "\<exists>g. m = Inr g \<and> (\<forall>k. check (fork_vm only_demo) g False k = Inr (Suc k))"
  using assms only_demo_rejects by blast

lemma demo_mutation_rejected:
  assumes "mutate \<in> set (map snd mutations)"
  shows "\<exists>g. mutate (fixture_of demo_raw) = Inr g \<and> (\<forall>k. check (fork_vm only_demo) g False k = Inr (Suc k))"
proof -
  let ?f = "fixture_of demo_raw"
  obtain g1 g2 g7 g8 where g: "corrupt_evidence ?f = Inr g1" "wrong_network ?f = Inr g2"
      "extra_output ?f = Inr g7" "extra_input ?f = Inr g8"
    using demo_shape(2,3) by (auto simp: corrupt_evidence_def wrong_network_def extra_output_def extra_input_def)
  obtain g3 where g3: "another_bond ?f = Inr g3"
    using demo_shape(2) by (auto simp: another_bond_def first_input_def)
  obtain x i where xi: "run_outputs demo_raw = [x]" "run_inputs demo_raw = [i]" by (simp add: demo_raw_def)
  consider "mutate = corrupt_evidence" | "mutate = wrong_network" | "mutate = another_bond" | "mutate = diverted_penalty"
    | "mutate = partial_penalty" | "mutate = wrong_penalty_asset" | "mutate = extra_output" | "mutate = extra_input"
    using assms by (auto simp: mutations_def)
  then show ?thesis
  proof cases
    case 1
    show ?thesis unfolding 1
      by (rule demo_rejected [OF g(1) corrupt_evidence_decodes [OF demo_raw_decodes demo_shape(1) g(1)]]) (simp add: demo_raw_def)
  next
    case 2
    show ?thesis unfolding 2
      by (rule demo_rejected [OF g(2) wrong_network_decodes [OF demo_raw_decodes g(2)]]) (simp add: demo_raw_def)
  next
    case 3
    have "decodes_run g3 (demo_raw\<lparr>run_inputs := [i\<lparr>prevIx := prevIx i + 1\<rparr>]\<rparr>)"
      using g3 demo_raw_decodes xi next_vout [of "hd (fx_inputs ?f)" i]
      by (auto simp: another_bond_def first_input_def decodes_run_def list_all2_Cons2 demo_raw_def)
    then show ?thesis unfolding 3
      by (rule demo_rejected [OF g3]) (use xi in \<open>auto simp: demo_raw_def\<close>)
  next
    case 4
    show ?thesis unfolding 4 diverted_penalty_def
      by (rule demo_first_output [OF output_mutations(1)]) (auto simp: demo_raw_def dest: arg_cong [where f = raw_script])
  next
    case 5
    show ?thesis unfolding 5 partial_penalty_def
      by (rule demo_first_output [OF output_mutations(2)]) (auto simp: demo_raw_def hd_replicate dest: arg_cong [where f = "\<lambda>y. hd (tl (raw_value y))"])
  next
    case 6
    show ?thesis unfolding 6 wrong_penalty_asset_def
      by (rule demo_first_output [OF output_mutations(3)]) (auto simp: demo_raw_def dest: arg_cong [where f = raw_asset])
  next
    case 7
    show ?thesis unfolding 7
      by (rule demo_rejected [OF g(3) extra_output_decodes [OF demo_raw_decodes g(3) xi(1)]]) (simp add: demo_raw_def)
  next
    case 8
    show ?thesis unfolding 8
      by (rule demo_rejected [OF g(4) extra_input_decodes [OF demo_raw_decodes g(4) xi(2)]]) (simp add: demo_raw_def)
  qed
qed

lemma check_all_steps:
  assumes "\<forall>(f, pass) \<in> set fs. \<exists>g. f = Inr g \<and> (\<forall>k. check vm g pass k = Inr (Suc k))"
  shows "check_all vm fs k = Inr (k + length fs)"
  using assms by (induction fs arbitrary: k) auto

lemma demo_script:
  "check_fork [''/node''] (done_with ''abc'') (done_with ''abc'') (done_with []) (done_with []) (Inr [fixture_of demo_raw])
     (fork_vm only_demo) = Inr 9"
proof -
  have "\<forall>(f, pass) \<in> set (script_checks [fixture_of demo_raw]).
      \<exists>g. f = Inr g \<and> (\<forall>k. check (fork_vm only_demo) g pass k = Inr (Suc k))"
    using only_demo_accepts demo_mutation_rejected by (force simp: script_checks_def)
  note all = check_all_steps [OF this, of 0]
  have "length (script_checks [fixture_of demo_raw]) = 9" by (simp add: script_checks_def mutations_def)
  with all show ?thesis by (simp add: check_fork_def done_with_def run_def)
qed

theorem check_fork_sound_witness: "judged only_demo (fixture_of demo_raw) 0"
proof -
  have "\<forall>r b e. only_demo r b = Some e \<longrightarrow> \<bar>e\<bar> \<le> 2147483648" by (simp add: only_demo_def)
  from check_fork_sound [OF this demo_script] show ?thesis by simp
qed

end
