(* ===== verification/Simplicity_Env.thy ===== *)
theory Simplicity_Env
  imports Bytes "HOL-Library.Monad_Syntax"
begin

text \<open>
  The transaction environment in which the bond contracts run: node transactions
  (\<^verbatim>\<open>src/primitives\<close>), the raw structures \<^verbatim>\<open>PrecomputedTransactionData::Init\<close> builds
  from them (\<^verbatim>\<open>src/script/interpreter.cpp\<close>), the copies the Simplicity runtime makes
  (\<^verbatim>\<open>src/simplicity/elements/env.c\<close>, \<^verbatim>\<open>txEnv.c\<close>) and the jets the contracts call
  (\<^verbatim>\<open>elementsJets.c\<close>). SHA-256 and BIP-340 verification are parameters; a failing jet or
  assertion is \<open>None\<close>.
\<close>

named_theorems jet_simps \<open>definitions of the jets\<close>

section \<open>Words and primitives\<close>

type_synonym u256 = "256 word"
type_synonym signature = "512 word"

text \<open>The hash function and the signature check with public key, message and signature.\<close>

record crypto =
  sha256 :: "byte list \<Rightarrow> u256"
  schnorr :: "u256 \<Rightarrow> u256 \<Rightarrow> signature \<Rightarrow> bool"

abbreviation bytes32 :: "u256 \<Rightarrow> byte list" where
  "bytes32 \<equiv> be_bytes 32"

section \<open>Node transactions\<close>

record outpoint =
  op_txid :: u256
  op_vout :: "32 word"

text \<open>An input with its issuance; \<open>m_pegin\<close> is the claimed genesis hash of a peg-in input.\<close>

record CTxIn =
  prevout :: outpoint
  nSequence :: "32 word"
  m_pegin :: "byte list option"
  assetBlindingNonce :: "byte list"
  assetEntropy :: "byte list"
  nAmount :: "byte list"
  nInflationKeys :: "byte list"

record CTxOut =
  nAsset :: "byte list"
  nValue :: "byte list"
  scriptPubKey :: "byte list"

record CTransaction =
  vin :: "CTxIn list"
  vout :: "CTxOut list"
  nLockTime :: "32 word"

definition SetToAsset :: "u256 \<Rightarrow> byte list" where
  "SetToAsset a = 1 # bytes32 a"

definition SetToAmount :: "64 word \<Rightarrow> byte list" where
  "SetToAmount v = 1 # be_bytes 8 v"

section \<open>Raw structures\<close>

text \<open>A pointer that may be null is an option.\<close>

record rawElementsInput =
  ri_prevTxid :: "byte list"
  ri_prevIx :: "32 word"
  ri_sequence :: "32 word"
  ri_asset :: "byte list option"
  ri_value :: "byte list option"
  ri_script :: "byte list"
  ri_pegin :: "byte list option"
  ri_blindingNonce :: "byte list"
  ri_assetEntropy :: "byte list"
  ri_amount :: "byte list option"
  ri_inflationKeys :: "byte list option"

record rawElementsOutput =
  ro_asset :: "byte list option"
  ro_value :: "byte list option"
  ro_script :: "byte list"

record rawElementsTransaction =
  rt_input :: "rawElementsInput list"
  rt_output :: "rawElementsOutput list"
  rt_lockTime :: "32 word"

definition nonempty :: "byte list \<Rightarrow> byte list option" where
  "nonempty b = (if b = [] then None else Some b)"

text \<open>\<open>PrecomputedTransactionData::Init\<close> for a transaction and the outputs it spends.\<close>

definition init_input :: "CTxIn \<Rightarrow> CTxOut \<Rightarrow> rawElementsInput" where
  "init_input i spent =
     \<lparr>ri_prevTxid = bytes32 (op_txid (prevout i)), ri_prevIx = op_vout (prevout i), ri_sequence = nSequence i,
      ri_asset = nonempty (nAsset spent), ri_value = nonempty (nValue spent), ri_script = scriptPubKey spent,
      ri_pegin = m_pegin i, ri_blindingNonce = assetBlindingNonce i, ri_assetEntropy = assetEntropy i,
      ri_amount = nonempty (nAmount i), ri_inflationKeys = nonempty (nInflationKeys i)\<rparr>"

definition init_output :: "CTxOut \<Rightarrow> rawElementsOutput" where
  "init_output x = \<lparr>ro_asset = nonempty (nAsset x), ro_value = nonempty (nValue x), ro_script = scriptPubKey x\<rparr>"

definition Init :: "CTransaction \<Rightarrow> CTxOut list \<Rightarrow> rawElementsTransaction" where
  "Init tx spent = \<lparr>rt_input = map2 init_input (vin tx) spent, rt_output = map init_output (vout tx),
     rt_lockTime = nLockTime tx\<rparr>"

section \<open>Runtime structures\<close>

datatype confPrefix = NONE | EXPLICIT | EVEN_Y | ODD_Y

record confidential =
  conf_prefix :: confPrefix
  conf_data :: u256

record confAmount =
  amt_prefix :: confPrefix
  amt_explicit :: "64 word"
  amt_confidential :: u256

datatype assetIssuance = NO_ISSUANCE | NEW_ISSUANCE u256 | REISSUANCE u256

record sigInput =
  prevOutpoint :: outpoint
  in_sequence :: "32 word"
  in_pegin :: "u256 option"
  in_script :: u256
  in_asset :: confidential
  in_amt :: confAmount
  in_issuance :: assetIssuance

record sigOutput =
  emptyScript :: bool
  out_asset :: confidential
  out_amt :: confAmount

record elementsTransaction =
  tx_input :: "sigInput list"
  tx_output :: "sigOutput list"
  lockTime :: "32 word"
  isFinal :: bool
  txHash :: u256

record txEnv =
  env_tx :: elementsTransaction
  genesisHash :: u256
  ix :: "32 word"
  sigAllHash :: u256

definition copyRawConfidential :: "byte list option \<Rightarrow> confidential" where
  "copyRawConfidential raw =
     (case raw of
        Some b \<Rightarrow> \<lparr>conf_prefix = (if hd b = 1 then EXPLICIT else if and 1 (hd b) = 1 then ODD_Y else EVEN_Y),
                   conf_data = of_be_bytes (take 32 (tl b))\<rparr>
      | None \<Rightarrow> \<lparr>conf_prefix = NONE, conf_data = 0\<rparr>)"

definition copyRawAmt :: "byte list option \<Rightarrow> confAmount" where
  "copyRawAmt raw =
     (case raw of
        Some b \<Rightarrow>
          (if hd b = 1
           then \<lparr>amt_prefix = EXPLICIT, amt_explicit = of_be_bytes (take 8 (tl b)), amt_confidential = 0\<rparr>
           else \<lparr>amt_prefix = (if and 1 (hd b) = 1 then ODD_Y else EVEN_Y), amt_explicit = 0,
                 amt_confidential = of_be_bytes (take 32 (tl b))\<rparr>)
      | None \<Rightarrow> \<lparr>amt_prefix = EXPLICIT, amt_explicit = 0, amt_confidential = 0\<rparr>)"

definition copyIssuance :: "rawElementsInput \<Rightarrow> assetIssuance" where
  "copyIssuance i =
     (if ri_amount i \<noteq> None \<or> ri_inflationKeys i \<noteq> None
      then if (of_be_bytes (ri_blindingNonce i) :: u256) = 0
           then NEW_ISSUANCE (of_be_bytes (ri_assetEntropy i))
           else REISSUANCE (of_be_bytes (ri_assetEntropy i))
      else NO_ISSUANCE)"

definition copyInput :: "crypto \<Rightarrow> rawElementsInput \<Rightarrow> sigInput" where
  "copyInput cr i =
     \<lparr>prevOutpoint = \<lparr>op_txid = of_be_bytes (ri_prevTxid i), op_vout = ri_prevIx i\<rparr>, in_sequence = ri_sequence i,
      in_pegin = map_option of_be_bytes (ri_pegin i), in_script = sha256 cr (ri_script i),
      in_asset = copyRawConfidential (ri_asset i), in_amt = copyRawAmt (ri_value i),
      in_issuance = copyIssuance i\<rparr>"

definition copyOutput :: "rawElementsOutput \<Rightarrow> sigOutput" where
  "copyOutput x = \<lparr>emptyScript = (length (ro_script x) = 0), out_asset = copyRawConfidential (ro_asset x),
     out_amt = copyRawAmt (ro_value x)\<rparr>"

text \<open>
  The structure the contracts see. The transaction hash covers fields that no contract reads;
  it is an argument.
\<close>

definition mallocTransaction :: "crypto \<Rightarrow> u256 \<Rightarrow> rawElementsTransaction \<Rightarrow> elementsTransaction" where
  "mallocTransaction cr h raw =
     (let ins = map (copyInput cr) (rt_input raw) in
      \<lparr>tx_input = ins, tx_output = map copyOutput (rt_output raw), lockTime = rt_lockTime raw,
       isFinal = list_all (\<lambda>i. \<not> in_sequence i < 0xffffffff) ins, txHash = h\<rparr>)"

definition build_txEnv :: "crypto \<Rightarrow> elementsTransaction \<Rightarrow> u256 \<Rightarrow> u256 \<Rightarrow> 32 word \<Rightarrow> txEnv" where
  "build_txEnv cr tx tapEnvHash genesis i =
     \<lparr>env_tx = tx, genesisHash = genesis, ix = i,
      sigAllHash = sha256 cr (bytes32 genesis @ bytes32 genesis @ bytes32 (txHash tx) @ bytes32 tapEnvHash @ be_bytes 4 i)\<rparr>"

section \<open>Jets\<close>

text \<open>Confidential values as \<open>Either (u1, u256) a\<close>: \<open>Inr\<close> is an explicit one.\<close>

type_synonym 'a conf = "bool \<times> u256 + 'a"

definition asset_conf :: "confidential \<Rightarrow> u256 conf" where
  "asset_conf a = (if conf_prefix a = EXPLICIT then Inr (conf_data a) else Inl (conf_prefix a = ODD_Y, conf_data a))"

definition amt_conf :: "confAmount \<Rightarrow> 64 word conf" where
  "amt_conf a = (if amt_prefix a = EXPLICIT then Inr (amt_explicit a) else Inl (amt_prefix a = ODD_Y, amt_confidential a))"

definition lockHeight :: "elementsTransaction \<Rightarrow> 32 word" where
  "lockHeight tx = (if \<not> isFinal tx \<and> lockTime tx < 500000000 then lockTime tx else 0)"

definition isFee :: "sigOutput \<Rightarrow> bool" where
  "isFee x \<longleftrightarrow> emptyScript x \<and> conf_prefix (out_asset x) = EXPLICIT \<and> amt_prefix (out_amt x) = EXPLICIT"

definition num_inputs :: "txEnv \<Rightarrow> 32 word" where
  "num_inputs e = word_of_nat (length (tx_input (env_tx e)))"

definition num_outputs :: "txEnv \<Rightarrow> 32 word" where
  "num_outputs e = word_of_nat (length (tx_output (env_tx e)))"

definition current_input :: "txEnv \<Rightarrow> sigInput option" where
  "current_input e = (if length (tx_input (env_tx e)) \<le> unat (ix e) then None else Some (tx_input (env_tx e) ! unat (ix e)))"

definition current_prev_outpoint :: "txEnv \<Rightarrow> outpoint option" where
  "current_prev_outpoint e = map_option prevOutpoint (current_input e)"

definition current_pegin :: "txEnv \<Rightarrow> u256 option option" where
  "current_pegin e = map_option in_pegin (current_input e)"

definition current_new_issuance_contract :: "txEnv \<Rightarrow> u256 option option" where
  "current_new_issuance_contract e =
     map_option (\<lambda>i. case in_issuance i of NEW_ISSUANCE c \<Rightarrow> Some c | _ \<Rightarrow> None) (current_input e)"

definition current_reissuance_entropy :: "txEnv \<Rightarrow> u256 option option" where
  "current_reissuance_entropy e =
     map_option (\<lambda>i. case in_issuance i of REISSUANCE c \<Rightarrow> Some c | _ \<Rightarrow> None) (current_input e)"

definition current_amount :: "txEnv \<Rightarrow> (u256 conf \<times> 64 word conf) option" where
  "current_amount e = map_option (\<lambda>i. (asset_conf (in_asset i), amt_conf (in_amt i))) (current_input e)"

definition current_script_hash :: "txEnv \<Rightarrow> u256 option" where
  "current_script_hash e = map_option in_script (current_input e)"

definition output_is_fee :: "txEnv \<Rightarrow> 32 word \<Rightarrow> bool option" where
  "output_is_fee e i = (if unat i < length (tx_output (env_tx e)) then Some (isFee (tx_output (env_tx e) ! unat i)) else None)"

definition output_amount :: "txEnv \<Rightarrow> 32 word \<Rightarrow> (u256 conf \<times> 64 word conf) option" where
  "output_amount e i =
     (if unat i < length (tx_output (env_tx e))
      then let x = tx_output (env_tx e) ! unat i in Some (asset_conf (out_asset x), amt_conf (out_amt x)) else None)"

text \<open>Assertions and the jets without a result.\<close>

definition require :: "bool \<Rightarrow> unit option" where
  "require b = (if b then Some () else None)"

definition check_lock_height :: "txEnv \<Rightarrow> 32 word \<Rightarrow> unit option" where
  "check_lock_height e x = require (x \<le> lockHeight (env_tx e))"

definition bip_0340_verify :: "crypto \<Rightarrow> u256 \<Rightarrow> u256 \<Rightarrow> signature \<Rightarrow> unit option" where
  "bip_0340_verify cr pk msg sig = require (schnorr cr pk msg sig)"

text \<open>\<open>unwrap_right\<close> and the contracts' \<open>absent\<close>.\<close>

definition unwrap_right :: "'a conf \<Rightarrow> 'a option" where
  "unwrap_right c = (case c of Inr x \<Rightarrow> Some x | Inl _ \<Rightarrow> None)"

definition absent :: "u256 option \<Rightarrow> unit option" where
  "absent v = (case v of Some _ \<Rightarrow> None | None \<Rightarrow> Some ())"

text \<open>The streaming hash jets: a context is the bytes added so far, each word big-endian.\<close>

definition sha_256_ctx_8_init :: "byte list" where
  "sha_256_ctx_8_init = []"

definition sha_256_ctx_8_add :: "nat \<Rightarrow> byte list \<Rightarrow> 'a::len word \<Rightarrow> byte list" where
  "sha_256_ctx_8_add n ctx w = ctx @ be_bytes n w"

definition sha_256_ctx_8_finalize :: "crypto \<Rightarrow> byte list \<Rightarrow> u256" where
  "sha_256_ctx_8_finalize cr ctx = sha256 cr ctx"

declare num_inputs_def [jet_simps] num_outputs_def [jet_simps] current_input_def [jet_simps]
  current_prev_outpoint_def [jet_simps] current_pegin_def [jet_simps] current_new_issuance_contract_def [jet_simps]
  current_reissuance_entropy_def [jet_simps] current_amount_def [jet_simps] current_script_hash_def [jet_simps]
  output_is_fee_def [jet_simps] output_amount_def [jet_simps] sha_256_ctx_8_init_def [jet_simps]
  sha_256_ctx_8_add_def [jet_simps] sha_256_ctx_8_finalize_def [jet_simps]

section \<open>Rules for accepted runs\<close>

lemma require_Some [simp]: "require b = Some u \<longleftrightarrow> b"
  by (simp add: require_def)

lemma bip_0340_verify_Some [simp]: "bip_0340_verify cr pk m s = Some u \<longleftrightarrow> schnorr cr pk m s"
  by (simp add: bip_0340_verify_def)

lemma unwrap_right_Some [simp]: "unwrap_right c = Some x \<longleftrightarrow> c = Inr x"
  by (cases c) (simp_all add: unwrap_right_def)

lemma absent_Some [simp]: "absent v = Some u \<longleftrightarrow> v = None"
  by (cases v) (simp_all add: absent_def)

lemma asset_conf_Inr [simp]: "asset_conf a = Inr x \<longleftrightarrow> conf_prefix a = EXPLICIT \<and> conf_data a = x"
  by (simp add: asset_conf_def)

lemma amt_conf_Inr [simp]: "amt_conf a = Inr x \<longleftrightarrow> amt_prefix a = EXPLICIT \<and> amt_explicit a = x"
  by (simp add: amt_conf_def)

lemma check_lock_height_Some:
  "0 < x \<Longrightarrow> check_lock_height e x = Some u \<longleftrightarrow>
     \<not> isFinal (env_tx e) \<and> lockTime (env_tx e) < 500000000 \<and> x \<le> lockTime (env_tx e)"
  by (auto simp: check_lock_height_def lockHeight_def dest: leD)

text \<open>The count jets are 32 bits wide; a transaction has fewer than \<open>2\<^sup>3\<^sup>2\<close> inputs and outputs.\<close>

lemma word_count_1: "n < 2 ^ 32 \<Longrightarrow> (word_of_nat n :: 32 word) = 1 \<longleftrightarrow> n = 1"
proof -
  assume "n < 2 ^ 32"
  then have "unat (word_of_nat n :: 32 word) = n" unfolding unsigned_of_nat by (simp add: take_bit_eq_mod)
  then show ?thesis by (metis of_nat_1 unat_1)
qed

lemma copyRawConfidential_SetToAsset [simp]:
  "copyRawConfidential (nonempty (SetToAsset a)) = \<lparr>conf_prefix = EXPLICIT, conf_data = a\<rparr>"
  by (simp add: copyRawConfidential_def nonempty_def SetToAsset_def of_be_bytes_inverse)

lemma copyRawAmt_SetToAmount [simp]:
  "copyRawAmt (nonempty (SetToAmount v)) = \<lparr>amt_prefix = EXPLICIT, amt_explicit = v, amt_confidential = 0\<rparr>"
  by (simp add: copyRawAmt_def nonempty_def SetToAmount_def of_be_bytes_inverse)

end
