(* ===== verification/Bond_Common.thy ===== *)
theory Bond_Common
  imports Simplicity_Env
begin

text \<open>
  What the two bond protocols share: the parameters of the covenants and the configuration and
  library calls of the Rust code, an abstract specification of a collateral covenant, and the
  interface \<open>bond_covenant\<close> of a contract that implements it. The operator bond and the user bond
  are interpretations.
\<close>

section \<open>Parameters and configuration\<close>

record bond_params =
  DOMAIN :: u256
  GENESIS :: u256
  FEE_ASSET :: u256
  PROTECTED_TXID :: u256
  PROTECTED_VOUT :: "32 word"
  EPOCH :: "64 word"
  COLLATERAL :: "64 word"
  ACTIVE_UNTIL :: "32 word"
  REFUND_HEIGHT :: "32 word"

record bond_config =
  c_genesis :: u256
  c_fee_asset :: u256
  c_protected_output :: outpoint
  c_epoch :: "64 word"
  c_collateral :: "64 word"
  c_active_until :: "32 word"
  c_refund_height :: "32 word"

text \<open>
  Functions and constants of the \<^verbatim>\<open>elements\<close> crate, with what the code relies on: a default
  input is neither a peg-in nor an issuance, and a fee output holds the explicit amount under an
  empty script.
\<close>

record elements_lib =
  is_null :: "outpoint \<Rightarrow> bool"
  default_txin :: CTxIn
  new_fee :: "64 word \<Rightarrow> u256 \<Rightarrow> CTxOut"
  ENABLE_LOCKTIME_NO_RBF :: "32 word"

definition elements_lib_ok :: "elements_lib \<Rightarrow> bool" where
  "elements_lib_ok L \<longleftrightarrow>
     m_pegin (default_txin L) = None \<and> nAmount (default_txin L) = [] \<and> nInflationKeys (default_txin L) = []
     \<and> (\<forall>v a. nAsset (new_fee L v a) = SetToAsset a \<and> nValue (new_fee L v a) = SetToAmount v
          \<and> scriptPubKey (new_fee L v a) = [])"

section \<open>Execution environment\<close>

text \<open>
  \<open>bond_environment\<close> for the spent outputs. The environment is the one the runtime builds for input 0
  of the transaction; the two hashes are those of the transaction and of the Taproot environment.
\<close>

definition bond_environment :: "crypto \<Rightarrow> u256 \<Rightarrow> u256 \<Rightarrow> CTransaction \<Rightarrow> CTxOut list \<Rightarrow> u256 \<Rightarrow> txEnv res" where
  "bond_environment cr h tap tx utxos genesis =
     guard (\<not> (vin tx = [] \<or> length utxos \<noteq> length (vin tx))) ''one authenticated UTXO description per input is required''
       (Inr (build_txEnv cr (mallocTransaction cr h (Init tx utxos)) tap genesis 0))"

section \<open>Abstract covenant\<close>

definition terms_ok :: "'a bond_params_scheme \<Rightarrow> bool" where
  "terms_ok P \<longleftrightarrow> 0 < ACTIVE_UNTIL P \<and> ACTIVE_UNTIL P < REFUND_HEIGHT P \<and> REFUND_HEIGHT P < 500000000 \<and> 0 < COLLATERAL P"

definition holds_collateral :: "'a bond_params_scheme \<Rightarrow> confidential \<Rightarrow> confAmount \<Rightarrow> bool" where
  "holds_collateral P a v \<longleftrightarrow> conf_prefix a = EXPLICIT \<and> conf_data a = FEE_ASSET P
     \<and> amt_prefix v = EXPLICIT \<and> amt_explicit v = COLLATERAL P"

definition protected :: "'a bond_params_scheme \<Rightarrow> outpoint" where
  "protected P = \<lparr>op_txid = PROTECTED_TXID P, op_vout = PROTECTED_VOUT P\<rparr>"

text \<open>The only input spends the collateral, which is not the protected output.\<close>

definition spends_bond :: "'a bond_params_scheme \<Rightarrow> txEnv \<Rightarrow> sigInput \<Rightarrow> bool" where
  "spends_bond P e i \<longleftrightarrow> genesisHash e = GENESIS P \<and> tx_input (env_tx e) = [i] \<and> ix e = 0
     \<and> prevOutpoint i \<noteq> protected P \<and> in_pegin i = None \<and> in_issuance i = NO_ISSUANCE
     \<and> terms_ok P \<and> holds_collateral P (in_asset i) (in_amt i)"

text \<open>The whole collateral becomes a fee.\<close>

definition burned :: "'a bond_params_scheme \<Rightarrow> txEnv \<Rightarrow> bool" where
  "burned P e \<longleftrightarrow> (\<exists>x. tx_output (env_tx e) = [x] \<and> emptyScript x \<and> holds_collateral P (out_asset x) (out_amt x))"

text \<open>The transaction cannot be mined before the refund height.\<close>

definition matured :: "'a bond_params_scheme \<Rightarrow> txEnv \<Rightarrow> bool" where
  "matured P e \<longleftrightarrow> \<not> isFinal (env_tx e) \<and> lockTime (env_tx e) < 500000000 \<and> REFUND_HEIGHT P \<le> lockTime (env_tx e)"

text \<open>The digest that a promise of a bond for a transaction signs.\<close>

definition promise_message :: "'a bond_params_scheme \<Rightarrow> outpoint \<Rightarrow> u256 \<Rightarrow> u256 \<Rightarrow> byte list" where
  "promise_message P bond script t =
     bytes32 (DOMAIN P) @ bytes32 (GENESIS P) @ bytes32 (op_txid bond) @ be_bytes 4 (op_vout bond) @ bytes32 script
     @ bytes32 (PROTECTED_TXID P) @ be_bytes 4 (PROTECTED_VOUT P) @ be_bytes 8 (EPOCH P)
     @ be_bytes 4 (ACTIVE_UNTIL P) @ be_bytes 4 (REFUND_HEIGHT P) @ bytes32 t"

text \<open>Transactions have fewer than \<open>2\<^sup>3\<^sup>2\<close> inputs and outputs, so the 32-bit counts are exact.\<close>

definition small_env :: "txEnv \<Rightarrow> bool" where
  "small_env e \<longleftrightarrow> length (tx_input (env_tx e)) < 2 ^ 32 \<and> length (tx_output (env_tx e)) < 2 ^ 32"

text \<open>
  A promise message determines every field, so a signature on one binds the chain, the collateral
  outpoint, the covenant, the protected output, the session and the transaction.
\<close>

lemma promise_message_inject:
  assumes "promise_message P b s t = promise_message P' b' s' t'"
  shows "DOMAIN P = DOMAIN P'" "GENESIS P = GENESIS P'" "b = b'" "s = s'" "protected P = protected P'"
    "EPOCH P = EPOCH P'" "ACTIVE_UNTIL P = ACTIVE_UNTIL P'" "REFUND_HEIGHT P = REFUND_HEIGHT P'" "t = t'"
proof -
  from assms have eqs: "DOMAIN P = DOMAIN P'" "GENESIS P = GENESIS P'" "op_txid b = op_txid b'" "op_vout b = op_vout b'" "s = s'"
    "PROTECTED_TXID P = PROTECTED_TXID P'" "PROTECTED_VOUT P = PROTECTED_VOUT P'" "EPOCH P = EPOCH P'"
    "ACTIVE_UNTIL P = ACTIVE_UNTIL P'" "REFUND_HEIGHT P = REFUND_HEIGHT P'" "t = t'"
    by (simp_all add: promise_message_def)
  then show "DOMAIN P = DOMAIN P'" "GENESIS P = GENESIS P'" "b = b'" "s = s'" "protected P = protected P'"
    "EPOCH P = EPOCH P'" "ACTIVE_UNTIL P = ACTIVE_UNTIL P'" "REFUND_HEIGHT P = REFUND_HEIGHT P'" "t = t'"
    by (simp_all add: protected_def)
qed

section \<open>What the jets observe\<close>

lemmas current_jets = current_prev_outpoint_def current_pegin_def current_new_issuance_contract_def
  current_reissuance_entropy_def current_amount_def current_script_hash_def

lemmas sha_jets = sha_256_ctx_8_init_def sha_256_ctx_8_add_def sha_256_ctx_8_finalize_def

lemma single_input:
  assumes "small_env e"
  shows "num_inputs e = 1 \<longleftrightarrow> (\<exists>i. tx_input (env_tx e) = [i])"
  using assms by (auto simp: num_inputs_def small_env_def word_count_1 length_Suc_conv)

lemma current_input_single: "tx_input (env_tx e) = [i] \<Longrightarrow> ix e = 0 \<Longrightarrow> current_input e = Some i"
  by (simp add: current_input_def)

lemma burned_jets:
  assumes "small_env e"
  shows "burned P e \<longleftrightarrow> num_outputs e = 1 \<and> output_is_fee e 0 = Some True
     \<and> output_amount e 0 = Some (Inr (FEE_ASSET P), Inr (COLLATERAL P))"
proof -
  have "num_outputs e = 1 \<longleftrightarrow> (\<exists>x. tx_output (env_tx e) = [x])"
    using assms by (auto simp: num_outputs_def small_env_def word_count_1 length_Suc_conv)
  then show ?thesis
    by (auto simp: burned_def holds_collateral_def output_is_fee_def output_amount_def isFee_def)
qed

lemma matured_jets: "terms_ok P \<Longrightarrow> check_lock_height e (REFUND_HEIGHT P) = Some () \<longleftrightarrow> matured P e"
  by (subst check_lock_height_Some) (auto simp: terms_ok_def matured_def)

lemma issuance_absent:
  "(case j of NEW_ISSUANCE c \<Rightarrow> Some c | _ \<Rightarrow> None) = None \<and> (case j of REISSUANCE c \<Rightarrow> Some c | _ \<Rightarrow> None) = None
     \<longleftrightarrow> j = NO_ISSUANCE"
  by (cases j) simp_all

lemma outpoint_neq:
  "(b :: outpoint) \<noteq> protected P \<longleftrightarrow> \<not> (op_txid b = PROTECTED_TXID P \<and> op_vout b = PROTECTED_VOUT P)"
  by (cases b) (simp add: protected_def)

text \<open>The environment of a transaction whose only input spends a funded bond.\<close>

lemma environment_simps:
  assumes "bond_environment cr h tap tx utxos genesis = Inr e"
  shows "tx_input (env_tx e) = map (copyInput cr) (map2 init_input (vin tx) utxos)"
    "tx_output (env_tx e) = map copyOutput (map init_output (vout tx))" "lockTime (env_tx e) = nLockTime tx"
    "ix e = 0" "genesisHash e = genesis"
    "isFinal (env_tx e) \<longleftrightarrow> list_all (\<lambda>i. \<not> in_sequence i < 0xffffffff) (tx_input (env_tx e))"
  using assms by (auto simp: bond_environment_def build_txEnv_def mallocTransaction_def Init_def Let_def guard_def split: if_splits)

lemma environment_spends:
  assumes env: "bond_environment cr h tap tx [u] (GENESIS P) = Inr e" and "vin tx = [i]"
    and "m_pegin i = None" "nAmount i = []" "nInflationKeys i = []" "prevout i \<noteq> protected P" "terms_ok P"
    and "nAsset u = SetToAsset (FEE_ASSET P)" "nValue u = SetToAmount (COLLATERAL P)"
  shows "spends_bond P e (copyInput cr (init_input i u))"
    "prevOutpoint (copyInput cr (init_input i u)) = prevout i"
    "in_script (copyInput cr (init_input i u)) = sha256 cr (scriptPubKey u)"
proof -
  let ?j = "copyInput cr (init_input i u)"
  show op: "prevOutpoint ?j = prevout i" "in_script ?j = sha256 cr (scriptPubKey u)"
    by (simp_all add: copyInput_def init_input_def of_be_bytes_inverse)
  have "in_pegin ?j = None" "in_issuance ?j = NO_ISSUANCE" "holds_collateral P (in_asset ?j) (in_amt ?j)"
    using assms(3-5,8,9) by (simp_all add: copyInput_def init_input_def copyIssuance_def nonempty_def [of "[]"] holds_collateral_def)
  then show "spends_bond P e ?j"
    using op assms(2,6,7) by (simp add: spends_bond_def environment_simps [OF env])
qed

text \<open>The penalty transaction of both protocols: one input spending the bond, one fee output.\<close>

lemma penalty_spends:
  assumes L: "elements_lib_ok L" and "terms_ok P" "bond \<noteq> protected P"
    and tx: "vin tx = [(default_txin L)\<lparr>prevout := bond, nSequence := ENABLE_LOCKTIME_NO_RBF L\<rparr>]"
      "vout tx = [new_fee L (COLLATERAL P) (FEE_ASSET P)]"
    and u: "nAsset u = SetToAsset (FEE_ASSET P)" "nValue u = SetToAmount (COLLATERAL P)"
  shows "\<exists>e. bond_environment cr h tap tx [u] (GENESIS P) = Inr e \<and> small_env e \<and> burned P e
    \<and> (\<exists>i. spends_bond P e i \<and> prevOutpoint i = bond \<and> in_script i = sha256 cr (scriptPubKey u))"
proof -
  let ?i = "(default_txin L)\<lparr>prevout := bond, nSequence := ENABLE_LOCKTIME_NO_RBF L\<rparr>"
  obtain e where env: "bond_environment cr h tap tx [u] (GENESIS P) = Inr e"
    by (simp add: bond_environment_def tx)
  have "small_env e" by (simp add: small_env_def environment_simps [OF env] tx)
  moreover have "burned P e"
    using L by (simp add: burned_def environment_simps [OF env] tx copyOutput_def init_output_def elements_lib_ok_def
        holds_collateral_def)
  moreover have "spends_bond P e (copyInput cr (init_input ?i u)) \<and> prevOutpoint (copyInput cr (init_input ?i u)) = bond
    \<and> in_script (copyInput cr (init_input ?i u)) = sha256 cr (scriptPubKey u)"
    using environment_spends [OF env tx(1)] L assms(2,3) u by (simp add: elements_lib_ok_def)
  ultimately show ?thesis using env by blast
qed

section \<open>Covenant interface\<close>

text \<open>
  A contract run \<open>main\<close> with the parameters \<open>P\<close>, an action that is evidence of two promises or a release,
  and the validity of each: \<open>evidence_ok\<close> for the collateral outpoint and script hash, \<open>release_ok\<close> for
  the hash of the spending transaction.
\<close>

locale bond_covenant =
  fixes P :: "'a bond_params_scheme"
    and main :: "txEnv \<Rightarrow> 'e + 'r \<Rightarrow> unit option"
    and evidence_ok :: "outpoint \<Rightarrow> u256 \<Rightarrow> 'e \<Rightarrow> bool"
    and release_ok :: "u256 \<Rightarrow> 'r \<Rightarrow> bool"
  assumes main_penalty: "small_env e \<Longrightarrow> main e (Inl ev) = Some () \<longleftrightarrow>
      (\<exists>i. spends_bond P e i \<and> evidence_ok (prevOutpoint i) (in_script i) ev \<and> burned P e)"
    and main_release: "small_env e \<Longrightarrow> main e (Inr r) = Some () \<longleftrightarrow>
      (\<exists>i. spends_bond P e i \<and> matured P e \<and> release_ok (sigAllHash e) r)"
begin

text \<open>An accepted spend holds the collateral and either burns it all or waits.\<close>

lemma accepted_cases:
  assumes "small_env e" and "main e act = Some ()"
  obtains (penalty) ev i where "act = Inl ev" "spends_bond P e i" "evidence_ok (prevOutpoint i) (in_script i) ev" "burned P e"
  | (release) r i where "act = Inr r" "spends_bond P e i" "matured P e" "release_ok (sigAllHash e) r"
  using assms main_penalty main_release by (cases act) blast+

lemma early_spend_burns:
  assumes "small_env e" and "main e act = Some ()" and "\<not> matured P e"
  shows "burned P e \<and> (\<exists>ev i. act = Inl ev \<and> spends_bond P e i \<and> evidence_ok (prevOutpoint i) (in_script i) ev)"
  using assms(1,2) by (rule accepted_cases) (use assms(3) in blast)+

lemma penalty_accepted:
  assumes "small_env e" "burned P e" "spends_bond P e i" "evidence_ok (prevOutpoint i) (in_script i) ev"
  shows "main e (Inl ev) = Some ()"
  unfolding main_penalty [OF assms(1)] using assms(2-4) by blast

lemma rejects_other_network: "small_env e \<Longrightarrow> genesisHash e \<noteq> GENESIS P \<Longrightarrow> main e act \<noteq> Some ()"
  by (meson accepted_cases spends_bond_def)

lemma rejects_extra_input: "small_env e \<Longrightarrow> length (tx_input (env_tx e)) \<noteq> 1 \<Longrightarrow> main e act \<noteq> Some ()"
  by (metis accepted_cases spends_bond_def One_nat_def length_Cons list.size(3))

end

end
