(* ===== verification/User_Bond.thy ===== *)
theory User_Bond
  imports Operator_Bond
begin

text \<open>
  The user's bond: the contract \<^verbatim>\<open>contracts/user_bond.simf\<close> and the Rust code \<^verbatim>\<open>src/lib.rs\<close>. An
  authorization is signed by the owner and the matcher; a release is cooperative or unilateral, and
  both wait for the refund height. The contract implements the same abstract covenant as the
  operator bond.
\<close>

section \<open>Contract\<close>

record user_params = bond_params +
  OWNER :: u256
  MATCHER :: u256

type_synonym authorization_witness = "u256 \<times> signature \<times> signature"
type_synonym user_evidence = "authorization_witness \<times> authorization_witness"
type_synonym user_release = "(signature \<times> signature) + signature"

definition user_receipt_hash :: "crypto \<Rightarrow> user_params \<Rightarrow> txEnv \<Rightarrow> u256 \<Rightarrow> u256 option" where
  "user_receipt_hash cr p e spend_txid = do {
     bond \<leftarrow> current_prev_outpoint e;
     let ctx = sha_256_ctx_8_init;
     let ctx = sha_256_ctx_8_add 32 ctx (DOMAIN p);
     let ctx = sha_256_ctx_8_add 32 ctx (GENESIS p);
     let ctx = sha_256_ctx_8_add 32 ctx (op_txid bond);
     let ctx = sha_256_ctx_8_add 4 ctx (op_vout bond);
     script \<leftarrow> current_script_hash e;
     let ctx = sha_256_ctx_8_add 32 ctx script;
     let ctx = sha_256_ctx_8_add 32 ctx (PROTECTED_TXID p);
     let ctx = sha_256_ctx_8_add 4 ctx (PROTECTED_VOUT p);
     let ctx = sha_256_ctx_8_add 8 ctx (EPOCH p);
     let ctx = sha_256_ctx_8_add 4 ctx (ACTIVE_UNTIL p);
     let ctx = sha_256_ctx_8_add 4 ctx (REFUND_HEIGHT p);
     let ctx = sha_256_ctx_8_add 32 ctx spend_txid;
     Some (sha_256_ctx_8_finalize cr ctx)
   }"

definition verify_authorization :: "crypto \<Rightarrow> user_params \<Rightarrow> txEnv \<Rightarrow> authorization_witness \<Rightarrow> unit option" where
  "verify_authorization cr p e auth = do {
     let (spend_txid, owner_sig, matcher_sig) = auth;
     message \<leftarrow> user_receipt_hash cr p e spend_txid;
     bip_0340_verify cr (OWNER p) message owner_sig;
     bip_0340_verify cr (MATCHER p) message matcher_sig
   }"

definition user_penalty :: "crypto \<Rightarrow> user_params \<Rightarrow> txEnv \<Rightarrow> user_evidence \<Rightarrow> unit option" where
  "user_penalty cr p e evidence = do {
     let (first, second) = evidence;
     require (fst first \<noteq> fst second);
     verify_authorization cr p e first;
     verify_authorization cr p e second;
     require (num_outputs e = 1);
     fee \<leftarrow> output_is_fee e 0;
     require fee;
     (asset, amount) \<leftarrow> output_amount e 0;
     a \<leftarrow> unwrap_right asset;
     require (a = FEE_ASSET p);
     v \<leftarrow> unwrap_right amount;
     require (v = COLLATERAL p)
   }"

definition user_release_check :: "crypto \<Rightarrow> user_params \<Rightarrow> txEnv \<Rightarrow> user_release \<Rightarrow> unit option" where
  "user_release_check cr p e action = do {
     check_lock_height e (REFUND_HEIGHT p);
     let message = sigAllHash e;
     (case action of
        Inl (owner_sig, matcher_sig) \<Rightarrow> do {
          bip_0340_verify cr (OWNER p) message owner_sig;
          bip_0340_verify cr (MATCHER p) message matcher_sig
        }
      | Inr owner_sig \<Rightarrow> bip_0340_verify cr (OWNER p) message owner_sig)
   }"

definition user_main :: "crypto \<Rightarrow> user_params \<Rightarrow> txEnv \<Rightarrow> user_evidence + user_release \<Rightarrow> unit option" where
  "user_main cr p e action = do {
     require (genesisHash e = GENESIS p);
     require (num_inputs e = 1);
     require (ix e = 0);
     bond \<leftarrow> current_prev_outpoint e;
     require (\<not> (op_txid bond = PROTECTED_TXID p \<and> op_vout bond = PROTECTED_VOUT p));
     pegin \<leftarrow> current_pegin e;
     absent pegin;
     issued \<leftarrow> current_new_issuance_contract e;
     absent issued;
     reissued \<leftarrow> current_reissuance_entropy e;
     absent reissued;
     require (OWNER p \<noteq> MATCHER p);
     require (0 < ACTIVE_UNTIL p);
     require (ACTIVE_UNTIL p < REFUND_HEIGHT p);
     require (REFUND_HEIGHT p < 500000000);
     require (0 < COLLATERAL p);
     (asset, amount) \<leftarrow> current_amount e;
     a \<leftarrow> unwrap_right asset;
     require (a = FEE_ASSET p);
     v \<leftarrow> unwrap_right amount;
     require (v = COLLATERAL p);
     (case action of
        Inl evidence \<Rightarrow> user_penalty cr p e evidence
      | Inr action \<Rightarrow> user_release_check cr p e action)
   }"

section \<open>Host code\<close>

record user_config = bond_config +
  c_owner :: u256
  c_matcher :: u256

record user_bond =
  u_config :: user_config
  u_script_pubkey :: "byte list"

record authorization =
  spend_txid :: u256
  owner_signature :: signature
  matcher_signature :: signature

definition receipt_domain :: string where
  "receipt_domain = ''ECX/PreconfUserBond/TransferAuthorization/v1''"

definition validate :: "elements_lib \<Rightarrow> user_config \<Rightarrow> unit res" where
  "validate L c =
     guard (\<not> c_owner c = c_matcher c) ''owner and matcher must differ''
     (guard (\<not> (c_collateral c = 0 \<or> c_collateral c > 2100000000000000)) ''collateral must be a positive money-range amount''
     (guard (\<not> (c_active_until c = 0 \<or> c_active_until c \<ge> c_refund_height c \<or> c_refund_height c \<ge> 500000000))
        ''require 0 < active_until < refund_height < 500000000''
     (guard (\<not> is_null L (c_protected_output c)) ''protected output must be a real outpoint''
        (Inr ()))))"

definition user_arguments :: "crypto \<Rightarrow> user_config \<Rightarrow> user_params" where
  "user_arguments cr c =
     \<lparr>DOMAIN = sha256 cr (ascii receipt_domain), GENESIS = c_genesis c, FEE_ASSET = c_fee_asset c,
      PROTECTED_TXID = op_txid (c_protected_output c), PROTECTED_VOUT = op_vout (c_protected_output c),
      EPOCH = c_epoch c, COLLATERAL = c_collateral c, ACTIVE_UNTIL = c_active_until c,
      REFUND_HEIGHT = c_refund_height c, OWNER = c_owner c, MATCHER = c_matcher c\<rparr>"

definition user_compile :: "crypto \<Rightarrow> elements_lib \<Rightarrow> (user_params \<Rightarrow> byte list res) \<Rightarrow> user_config \<Rightarrow> user_bond res" where
  "user_compile cr L taproot c =
     bind_res (validate L c) (\<lambda>_. bind_res (taproot (user_arguments cr c))
       (\<lambda>script. Inr \<lparr>u_config = c, u_script_pubkey = script\<rparr>))"

definition user_funding_output :: "user_bond \<Rightarrow> CTxOut" where
  "user_funding_output B = \<lparr>nAsset = SetToAsset (c_fee_asset (u_config B)),
     nValue = SetToAmount (c_collateral (u_config B)), scriptPubKey = u_script_pubkey B\<rparr>"

definition receipt_digest :: "crypto \<Rightarrow> user_bond \<Rightarrow> outpoint \<Rightarrow> u256 \<Rightarrow> u256" where
  "receipt_digest cr B bond_outpoint spend =
     (let c = u_config B in
      sha256 cr (concat
        [bytes32 (sha256 cr (ascii receipt_domain)),
         bytes32 (c_genesis c),
         bytes32 (op_txid bond_outpoint),
         be_bytes 4 (op_vout bond_outpoint),
         bytes32 (sha256 cr (u_script_pubkey B)),
         bytes32 (op_txid (c_protected_output c)),
         be_bytes 4 (op_vout (c_protected_output c)),
         be_bytes 8 (c_epoch c),
         be_bytes 4 (c_active_until c),
         be_bytes 4 (c_refund_height c),
         bytes32 spend]))"

definition user_penalty_transaction :: "elements_lib \<Rightarrow> user_bond \<Rightarrow> outpoint \<Rightarrow> CTransaction res" where
  "user_penalty_transaction L B bond_outpoint =
     guard (\<not> (bond_outpoint = c_protected_output (u_config B) \<or> is_null L bond_outpoint))
       ''collateral must be a separate, non-null output''
       (Inr \<lparr>vin = [(default_txin L)\<lparr>prevout := bond_outpoint, nSequence := ENABLE_LOCKTIME_NO_RBF L\<rparr>],
             vout = [new_fee L (c_collateral (u_config B)) (c_fee_asset (u_config B))], nLockTime = 0\<rparr>)"

definition authorization_witness :: "authorization \<Rightarrow> authorization_witness" where
  "authorization_witness a = (spend_txid a, owner_signature a, matcher_signature a)"

definition user_penalty_action :: "authorization \<Rightarrow> authorization \<Rightarrow> user_evidence + user_release" where
  "user_penalty_action first second = Inl (authorization_witness first, authorization_witness second)"

definition cooperative_action :: "signature \<Rightarrow> signature \<Rightarrow> user_evidence + user_release" where
  "cooperative_action owner matcher = Inr (Inl (owner, matcher))"

definition unilateral_action :: "signature \<Rightarrow> user_evidence + user_release" where
  "unilateral_action owner = Inr (Inr owner)"

text \<open>\<open>has_issuance\<close> of the \<^verbatim>\<open>elements\<close> crate is a parameter.\<close>

definition check_authorization_subject :: "elements_lib \<Rightarrow> (CTxIn \<Rightarrow> bool) \<Rightarrow> outpoint \<Rightarrow> CTransaction \<Rightarrow> unit res" where
  "check_authorization_subject L has_issuance prot tx =
     guard (\<not> is_null L prot) ''authorization requires a non-null protected output''
     (guard (length (filter (\<lambda>i. m_pegin i = None \<and> prevout i = prot) (vin tx)) = 1)
        ''authorization must spend its protected output exactly once''
     (guard (\<not> list_ex (\<lambda>i. m_pegin i \<noteq> None \<or> has_issuance i) (vin tx))
        ''pegin and issuance are outside this authorization prototype'' (Inr ())))"

section \<open>The contract implements the covenant\<close>

definition authorizations_ok :: "crypto \<Rightarrow> user_params \<Rightarrow> outpoint \<Rightarrow> u256 \<Rightarrow> user_evidence \<Rightarrow> bool" where
  "authorizations_ok cr p bond script ev \<longleftrightarrow> OWNER p \<noteq> MATCHER p \<and>
     (case ev of ((t, s, m), (t', s', m')) \<Rightarrow> t \<noteq> t'
        \<and> schnorr cr (OWNER p) (sha256 cr (promise_message p bond script t)) s
        \<and> schnorr cr (MATCHER p) (sha256 cr (promise_message p bond script t)) m
        \<and> schnorr cr (OWNER p) (sha256 cr (promise_message p bond script t')) s'
        \<and> schnorr cr (MATCHER p) (sha256 cr (promise_message p bond script t')) m')"

definition releases_ok :: "crypto \<Rightarrow> user_params \<Rightarrow> u256 \<Rightarrow> user_release \<Rightarrow> bool" where
  "releases_ok cr p m r \<longleftrightarrow> OWNER p \<noteq> MATCHER p \<and>
     (case r of Inl (s, s') \<Rightarrow> schnorr cr (OWNER p) m s \<and> schnorr cr (MATCHER p) m s' | Inr s \<Rightarrow> schnorr cr (OWNER p) m s)"

lemma user_receipt_hash_eq:
  assumes "current_input e = Some i"
  shows "user_receipt_hash cr p e t = Some (sha256 cr (promise_message p (prevOutpoint i) (in_script i) t))"
  using assms by (simp add: user_receipt_hash_def current_jets sha_jets promise_message_def Let_def)

lemma user_penalty_Some:
  assumes "small_env e" and "current_input e = Some i" and "OWNER p \<noteq> MATCHER p"
  shows "user_penalty cr p e ev = Some () \<longleftrightarrow> authorizations_ok cr p (prevOutpoint i) (in_script i) ev \<and> burned p e"
  using assms(3)
  by (auto simp: user_penalty_def verify_authorization_def authorizations_ok_def burned_jets [OF assms(1)]
      user_receipt_hash_eq [OF assms(2)] bind_eq_Some_conv split: prod.splits)

lemma user_release_Some:
  assumes "terms_ok p" and "OWNER p \<noteq> MATCHER p"
  shows "user_release_check cr p e r = Some () \<longleftrightarrow> matured p e \<and> releases_ok cr p (sigAllHash e) r"
  using assms by (auto simp: user_release_check_def releases_ok_def bind_eq_Some_conv matured_jets Let_def split: sum.splits)

lemma user_main_single:
  assumes "current_input e = Some i" "tx_input (env_tx e) = [i]" "ix e = 0"
  shows "user_main cr p e act = Some () \<longleftrightarrow> spends_bond p e i \<and> OWNER p \<noteq> MATCHER p \<and>
    (case act of Inl ev \<Rightarrow> user_penalty cr p e ev = Some () | Inr r \<Rightarrow> user_release_check cr p e r = Some ())"
  using assms issuance_absent [of "in_issuance i"]
  by (auto simp: user_main_def current_jets bind_eq_Some_conv spends_bond_def terms_ok_def holds_collateral_def
      outpoint_neq num_inputs_def split: sum.splits)

lemma user_main_input:
  assumes "small_env e" and "user_main cr p e act = Some ()"
  obtains i where "tx_input (env_tx e) = [i]" "ix e = 0"
proof -
  have "num_inputs e = 1" "ix e = 0" using assms(2) by (auto simp: user_main_def bind_eq_Some_conv)
  with single_input [OF assms(1)] that show ?thesis by blast
qed

lemma user_main_spends:
  assumes "small_env e"
  shows "user_main cr p e act = Some () \<longleftrightarrow> (\<exists>i. spends_bond p e i \<and>
    (case act of Inl ev \<Rightarrow> authorizations_ok cr p (prevOutpoint i) (in_script i) ev \<and> burned p e
     | Inr r \<Rightarrow> matured p e \<and> releases_ok cr p (sigAllHash e) r))"
    (is "?main \<longleftrightarrow> (\<exists>i. ?spend i)")
proof -
  have iff: "?main \<longleftrightarrow> ?spend i" if i: "tx_input (env_tx e) = [i]" "ix e = 0" for i
    unfolding user_main_single [OF current_input_single [OF i] i, of cr p act]
    using user_penalty_Some [OF assms current_input_single [OF i]] user_release_Some [of p cr e]
    by (auto simp: spends_bond_def authorizations_ok_def releases_ok_def split: sum.splits)
  have "?main \<Longrightarrow> \<exists>i. ?spend i" using user_main_input [OF assms] iff by metis
  moreover have "?main" if "?spend i" for i
    using iff [of i] that by (simp add: spends_bond_def)
  ultimately show ?thesis by blast
qed

interpretation ub: bond_covenant p "user_main cr p" "authorizations_ok cr p" "releases_ok cr p" for cr p
  by unfold_locales (simp_all add: user_main_spends)

end
