(* ===== verification/Bond_Demo.thy ===== *)
theory Bond_Demo
  imports Bond_Common
begin

text \<open>
  Concrete library and cryptography functions that satisfy the hypotheses of the bond theorems; the
  witnesses of both bond protocols use them.
\<close>

text \<open>
  An instance of the parameters: a hash function that returns the last 32 bytes and a scheme whose
  signature of a message is the message.
\<close>

definition sample_crypto :: crypto where
  "sample_crypto = \<lparr>sha256 = (\<lambda>bs. of_be_bytes (drop (length bs - 32) bs)), schnorr = (\<lambda>pk m s. s = ucast m)\<rparr>"

definition sample_lib :: elements_lib where
  "sample_lib = \<lparr>is_null = (\<lambda>b. op_txid b = 0 \<and> op_vout b = 0xffffffff),
     default_txin = \<lparr>prevout = \<lparr>op_txid = 0, op_vout = 0xffffffff\<rparr>, nSequence = 0xffffffff, m_pegin = None,
       assetBlindingNonce = replicate 32 0, assetEntropy = replicate 32 0, nAmount = [], nInflationKeys = []\<rparr>,
     new_fee = (\<lambda>v a. \<lparr>nAsset = SetToAsset a, nValue = SetToAmount v, scriptPubKey = []\<rparr>),
     ENABLE_LOCKTIME_NO_RBF = 0xfffffffe\<rparr>"

definition sample_outpoint :: outpoint where
  "sample_outpoint = \<lparr>op_txid = 85, op_vout = 1\<rparr>"

lemma sample_lib_ok: "elements_lib_ok sample_lib"
  by (simp add: elements_lib_ok_def sample_lib_def)

lemma sample_sha256: "sha256 sample_crypto (xs @ bytes32 t) = t"
  by (simp add: sample_crypto_def of_be_bytes_inverse)

lemma be_bytes_0: "be_bytes n (0 :: 'a::len word) = replicate n 0"
proof -
  have "byte_of (0 :: 'a word) = (\<lambda>_. 0)" by (simp add: byte_of_def fun_eq_iff)
  then show ?thesis by (simp add: be_bytes_def le_bytes_def map_replicate_const)
qed

lemma of_be_bytes_0: "of_be_bytes (replicate n 0) = 0"
proof -
  have "of_le_bytes (replicate n 0) = 0" by (induction n) simp_all
  then show ?thesis by (simp add: of_be_bytes_def)
qed

end
