(* ===== verification/Fixture_Contract.thy ===== *)
theory Fixture_Contract
  imports Fixture_Props Fixture_Mutations Operator_Bond User_Bond Bond_Demo
begin

text \<open>
  The interpreter check and the contracts together: the environment the driver builds from a decoded
  fixture, and that the contracts reject the mutated fixtures of \<^verbatim>\<open>scripts/check-fork.mjs\<close>, so
  that the negative checks of the script succeed for an interpreter that runs the contract.
\<close>

section \<open>The environment of a decoded run\<close>

text \<open>The driver's structures are zero-initialised: no peg-in, no issuance.\<close>

definition driver_input :: "raw_input \<Rightarrow> rawElementsInput" where
  "driver_input i =
     \<lparr>ri_prevTxid = prevTxid i, ri_prevIx = prevIx i, ri_sequence = raw_sequence i, ri_asset = Some (txo_asset i),
      ri_value = Some (txo_value i), ri_script = txo_script i, ri_pegin = None, ri_blindingNonce = [],
      ri_assetEntropy = [], ri_amount = None, ri_inflationKeys = None\<rparr>"

definition driver_output :: "raw_output \<Rightarrow> rawElementsOutput" where
  "driver_output x = \<lparr>ro_asset = Some (raw_asset x), ro_value = Some (raw_value x), ro_script = raw_script x\<rparr>"

definition driver_transaction :: "raw_run \<Rightarrow> rawElementsTransaction" where
  "driver_transaction r = \<lparr>rt_input = map driver_input (run_inputs r), rt_output = map driver_output (run_outputs r),
     rt_lockTime = run_lockTime r\<rparr>"

definition driver_env :: "crypto \<Rightarrow> (raw_run \<Rightarrow> u256) \<Rightarrow> (raw_run \<Rightarrow> u256) \<Rightarrow> raw_run \<Rightarrow> txEnv" where
  "driver_env cr txh tap r =
     build_txEnv cr (mallocTransaction cr (txh r) (driver_transaction r)) (tap r) (of_be_bytes (run_genesis r)) 0"

lemmas driver_defs = driver_env_def build_txEnv_def mallocTransaction_def driver_transaction_def Let_def

lemma driver_env_simps:
  "tx_input (env_tx (driver_env cr txh tap r)) = map (copyInput cr) (map driver_input (run_inputs r))"
  "tx_output (env_tx (driver_env cr txh tap r)) = map copyOutput (map driver_output (run_outputs r))"
  "lockTime (env_tx (driver_env cr txh tap r)) = run_lockTime r"
  "genesisHash (driver_env cr txh tap r) = of_be_bytes (run_genesis r)"
  "isFinal (env_tx (driver_env cr txh tap r)) \<longleftrightarrow> list_all (\<lambda>i. \<not> raw_sequence i < 0xffffffff) (run_inputs r)"
  by (simp_all add: driver_defs list.pred_map comp_def copyInput_def driver_input_def)

lemma driver_env_small: "decodes_run f r \<Longrightarrow> small_env (driver_env cr txh tap r)"
  by (simp add: small_env_def driver_env_simps decodes_run_def MAX_IO_def)

text \<open>
  The interpreter runs the contract: on a run of its program it returns a C \<open>int\<close>, and zero only if
  the contract accepts the environment of the run with some action.
\<close>

definition interprets :: "(raw_run \<Rightarrow> int \<Rightarrow> int option) \<Rightarrow> byte list \<Rightarrow> (raw_run \<Rightarrow> txEnv)
    \<Rightarrow> (txEnv \<Rightarrow> 'act \<Rightarrow> unit option) \<Rightarrow> bool" where
  "interprets exec prog env contract \<longleftrightarrow>
     (\<forall>r b. run_program r = prog \<longrightarrow>
        (\<exists>e. exec r b = Some e \<and> \<bar>e\<bar> \<le> 2147483648 \<and> (e = 0 \<longrightarrow> (\<exists>act. contract (env r) act = Some ()))))"

lemma rejected_check:
  assumes "interprets exec (run_program r) env contract" and "decodes_run g r" and "\<And>act. contract (env r) act \<noteq> Some ()"
  shows "check (fork_vm exec) g False k = Inr (Suc k)"
proof -
  obtain e where e: "exec r (budget r) = Some e" "\<bar>e\<bar> \<le> 2147483648" "e = 0 \<longrightarrow> (\<exists>act. contract (env r) act = Some ())"
    using assms(1) unfolding interprets_def by blast
  with assms(3) have "e \<noteq> 0" by blast
  with check_verdict [of g r exec, OF assms(2) e(1,2), of False k] show ?thesis by simp
qed

section \<open>Rejected by every covenant\<close>

context bond_covenant
begin

lemma not_spendable: "small_env e \<Longrightarrow> \<not> burned P e \<Longrightarrow> \<not> matured P e \<Longrightarrow> main e act \<noteq> Some ()"
  using early_spend_burns by blast

text \<open>A run that is too early for a release and does not burn the collateral fails its check.\<close>

lemma early_unburned_fails:
  assumes "interprets exec (run_program r) (driver_env cr txh tap) main" and d: "decodes_run g r"
    and "run_lockTime r < REFUND_HEIGHT P" "\<not> burned P (driver_env cr txh tap r)"
  shows "check (fork_vm exec) g False k = Inr (Suc k)"
proof (rule rejected_check [OF assms(1) d])
  have "\<not> matured P (driver_env cr txh tap r)" using assms(3) by (auto simp: matured_def driver_env_simps)
  then show "main (driver_env cr txh tap r) act \<noteq> Some ()" for act
    by (rule not_spendable [OF driver_env_small [OF d] assms(4)])
qed

lemma output_mutation_fails:
  assumes runs: "interprets exec (run_program r) (driver_env cr txh tap) main" and dec: "decodes_run f r"
    and out: "run_outputs r = [x]" and early: "run_lockTime r < REFUND_HEIGHT P"
    and h: "\<And>x y. decodes_output x y \<Longrightarrow> decodes_output (h x) (h' y)"
    and nb: "\<not> burned P (driver_env cr txh tap (r\<lparr>run_outputs := [h' x]\<rparr>))"
  shows "\<exists>g. first_output h f = Inr g \<and> check (fork_vm exec) g False k = Inr (Suc k)"
proof -
  obtain g where g: "first_output h f = Inr g"
    using dec out by (auto simp: first_output_def decodes_run_def list_all2_Cons2)
  have d: "decodes_run g (r\<lparr>run_outputs := [h' x]\<rparr>)"
    using first_output_decodes [OF dec g h] by (simp add: out)
  have "check (fork_vm exec) g False k = Inr (Suc k)"
    by (rule early_unburned_fails [OF _ d]) (use runs early nb in simp_all)
  with g show ?thesis by blast
qed

text \<open>A penalty run is early and has one input and one output.\<close>

lemma mutations_rejected:
  assumes runs: "interprets exec (run_program r) (driver_env cr txh tap) main" and dec: "decodes_run f r"
    and shape: "run_inputs r = [i]" "run_outputs r = [x]" and early: "run_lockTime r < REFUND_HEIGHT P"
    and other: "GENESIS P \<noteq> of_be_bytes (replicate 32 0x77)" "COLLATERAL P \<noteq> 1" "FEE_ASSET P \<noteq> of_be_bytes (replicate 32 0x99)"
    and mutate: "mutate \<in> {wrong_network, diverted_penalty, partial_penalty, wrong_penalty_asset, extra_output, extra_input}"
  shows "\<exists>g. mutate f = Inr g \<and> check (fork_vm exec) g False k = Inr (Suc k)"
proof -
  let ?env = "driver_env cr txh tap"
  note outputs = output_mutation_fails [OF runs dec shape(2) early]
  note sets = burned_def driver_env_simps copyOutput_def driver_output_def holds_collateral_def
  obtain a b where fx: "fx_inputs f = [a]" "fx_outputs f = [b]"
    using dec shape by (auto simp: decodes_run_def list_all2_Cons2)
  consider "mutate = wrong_network" | "mutate = diverted_penalty" | "mutate = partial_penalty" | "mutate = wrong_penalty_asset"
    | "mutate = extra_output" | "mutate = extra_input" using mutate by blast
  then show ?thesis
  proof cases
    case 1
    obtain g where g: "wrong_network f = Inr g" by (simp add: wrong_network_def)
    note d = wrong_network_decodes [OF dec g]
    have "check (fork_vm exec) g False k = Inr (Suc k)"
      by (rule rejected_check [OF _ d, of exec ?env main])
         (use runs rejects_other_network [OF driver_env_small [OF d]] other(1) in \<open>simp_all add: driver_env_simps\<close>)
    with g 1 show ?thesis by blast
  next
    case 2
    show ?thesis unfolding 2 diverted_penalty_def
      by (rule outputs [OF output_mutations(1)]) (simp_all add: sets)
  next
    case 3
    show ?thesis unfolding 3 partial_penalty_def
      by (rule outputs [OF output_mutations(2)])
         (use other(2) in \<open>simp_all add: sets copyRawAmt_def of_be_bytes_def\<close>)
  next
    case 4
    show ?thesis unfolding 4 wrong_penalty_asset_def
      by (rule outputs [OF output_mutations(3)])
         (use other(3) in \<open>simp_all add: sets copyRawConfidential_def\<close>)
  next
    case 5
    obtain g where g: "extra_output f = Inr g" by (simp add: extra_output_def fx)
    have "check (fork_vm exec) g False k = Inr (Suc k)"
      by (rule early_unburned_fails [OF _ extra_output_decodes [OF dec g shape(2)]])
         (use runs early in \<open>simp_all add: burned_def driver_env_simps\<close>)
    with g 5 show ?thesis by blast
  next
    case 6
    obtain g where g: "extra_input f = Inr g" by (simp add: extra_input_def fx)
    note d = extra_input_decodes [OF dec g shape(1)]
    have "check (fork_vm exec) g False k = Inr (Suc k)"
      by (rule rejected_check [OF _ d, of exec ?env main])
         (use runs rejects_extra_input [OF driver_env_small [OF d]] in \<open>simp_all add: driver_env_simps\<close>)
    with g 6 show ?thesis by blast
  qed
qed

text \<open>A release run that pays somewhere, with an earlier lock time or a final sequence number.\<close>

lemma releases_rejected:
  assumes runs: "interprets exec (run_program r) (driver_env cr txh tap) main" and dec: "decodes_run f r"
    and i: "run_inputs r = [i]" and unburned: "\<not> burned P (driver_env cr txh tap r)" and "1009 < REFUND_HEIGHT P"
    and "mutate \<in> {early_release, disabled_locktime}"
  shows "\<exists>g. mutate f = Inr g \<and> check (fork_vm exec) g False k = Inr (Suc k)"
proof -
  let ?env = "driver_env cr txh tap"
  have ok: "check (fork_vm exec) g False k = Inr (Suc k)"
    if d: "decodes_run g r'" and p: "run_program r' = run_program r" "run_outputs r' = run_outputs r" and nm: "\<not> matured P (?env r')" for g r'
  proof (rule rejected_check [where r = r' and contract = main and env = ?env])
    have "\<not> burned P (?env r')" using unburned p(2) by (simp add: burned_def driver_env_simps)
    then show "main (?env r') act \<noteq> Some ()" for act by (rule not_spendable [OF driver_env_small [OF d] _ nm])
  qed (use runs d p in simp_all)
  consider "mutate = early_release" | "mutate = disabled_locktime" using assms(6) by blast
  then show ?thesis
  proof cases
    case 1
    obtain g where g: "early_release f = Inr g" by (simp add: early_release_def)
    have "\<not> matured P (?env (r\<lparr>run_lockTime := 1009\<rparr>))" using assms(5) by (auto simp: matured_def driver_env_simps)
    with g 1 ok [OF early_release_decodes [OF dec g]] show ?thesis by simp
  next
    case 2
    obtain g where g: "disabled_locktime f = Inr g"
      using dec i by (auto simp: disabled_locktime_def first_input_def decodes_run_def list_all2_Cons2)
    have d: "decodes_run g (r\<lparr>run_inputs := [i\<lparr>raw_sequence := 0xffffffff\<rparr>]\<rparr>)"
      using first_input_decodes [OF dec g [unfolded disabled_locktime_def] disabled_sequence] by (simp add: i)
    have "\<not> matured P (?env (r\<lparr>run_inputs := [i\<lparr>raw_sequence := 0xffffffff\<rparr>]\<rparr>))"
      by (simp add: matured_def driver_env_simps)
    with g 2 ok [OF d] show ?thesis by simp
  qed
qed

end

text \<open>
  The negative checks of the operator penalty fixture succeed: for an interpreter that runs the
  contract, a wrong network, a diverted, partial or wrong-asset penalty, an extra output and an extra
  input make the fixture fail, as the script expects.
\<close>

theorem penalty_mutations_rejected:
  assumes "interprets exec (run_program r) (driver_env cr txh tap) (operator_main cr p)" and "decodes_run f r"
    and "run_inputs r = [i]" "run_outputs r = [x]" "run_lockTime r < REFUND_HEIGHT p"
    and "GENESIS p \<noteq> of_be_bytes (replicate 32 0x77)" "COLLATERAL p \<noteq> 1" "FEE_ASSET p \<noteq> of_be_bytes (replicate 32 0x99)"
    and "mutate \<in> {wrong_network, diverted_penalty, partial_penalty, wrong_penalty_asset, extra_output, extra_input}"
  shows "\<exists>g. mutate f = Inr g \<and> check (fork_vm exec) g False k = Inr (Suc k)"
  using assms by (rule opb.mutations_rejected)

text \<open>An interpreter that runs a contract with a fixed action.\<close>

definition run_contract :: "(txEnv \<Rightarrow> 'act \<Rightarrow> unit option) \<Rightarrow> (raw_run \<Rightarrow> txEnv) \<Rightarrow> 'act \<Rightarrow> raw_run \<Rightarrow> int \<Rightarrow> int option" where
  "run_contract contract env act r b = Some (if contract (env r) act = Some () then 0 else 5)"

lemma run_contract_interprets: "interprets (run_contract contract env act) prog env contract"
  by (auto simp: interprets_def run_contract_def)

definition sample_operator_params :: operator_params where
  "sample_operator_params = \<lparr>DOMAIN = 1, GENESIS = 17, FEE_ASSET = 34, PROTECTED_TXID = 51, PROTECTED_VOUT = 0, EPOCH = 1,
     COLLATERAL = 5000, ACTIVE_UNTIL = 1000, REFUND_HEIGHT = 1010, PRECONFER = 68\<rparr>"

lemma sample_words: "(17 :: u256) \<noteq> of_be_bytes (replicate 32 0x77)" "(34 :: u256) \<noteq> of_be_bytes (replicate 32 0x99)"
  by code_simp+

theorem penalty_mutations_rejected_witness:
  "\<exists>g. partial_penalty (fixture_of demo_raw) = Inr g
     \<and> check (fork_vm (run_contract (operator_main sample_crypto sample_operator_params)
         (driver_env sample_crypto (\<lambda>_. 0) (\<lambda>_. 0)) (Inl ((1, 1), (2, 2))))) g False 0 = Inr 1"
  using penalty_mutations_rejected [where cr = sample_crypto and txh = "\<lambda>_. 0" and tap = "\<lambda>_. 0" and p = sample_operator_params
      and mutate = partial_penalty and k = 0, OF run_contract_interprets demo_raw_decodes] sample_words
  by (simp add: demo_raw_def sample_operator_params_def)

text \<open>
  The negative checks of the release fixtures succeed: with a lock time of 1009 below the refund
  height, or with the lock time disabled, no release of the user bond passes.
\<close>

theorem release_mutations_rejected:
  assumes "interprets exec (run_program r) (driver_env cr txh tap) (user_main cr p)" and "decodes_run f r"
    and "run_inputs r = [i]" "\<not> burned p (driver_env cr txh tap r)" "1009 < REFUND_HEIGHT p"
    and "mutate \<in> {early_release, disabled_locktime}"
  shows "\<exists>g. mutate f = Inr g \<and> check (fork_vm exec) g False k = Inr (Suc k)"
  using assms by (rule ub.releases_rejected)

definition release_raw :: raw_run where
  "release_raw = demo_raw\<lparr>run_lockTime := 1010, run_outputs := [\<lparr>raw_asset = 1 # replicate 32 10,
     raw_value = 1 # replicate 8 11, raw_script = [0x52]\<rparr>]\<rparr>"

definition sample_user_params :: user_params where
  "sample_user_params = \<lparr>DOMAIN = 1, GENESIS = 17, FEE_ASSET = 34, PROTECTED_TXID = 51, PROTECTED_VOUT = 0, EPOCH = 1,
     COLLATERAL = 5000, ACTIVE_UNTIL = 1000, REFUND_HEIGHT = 1010, OWNER = 68, MATCHER = 69\<rparr>"

lemma release_raw_decodes: "decodes_run (fixture_of release_raw) release_raw"
  by (simp add: fixture_of_def release_raw_def demo_raw_def decodes_defs explicit_def MAX_BLOB_def MAX_IO_def)

theorem release_mutations_rejected_witness:
  "\<exists>g. early_release (fixture_of release_raw) = Inr g
     \<and> check (fork_vm (run_contract (user_main sample_crypto sample_user_params)
         (driver_env sample_crypto (\<lambda>_. 0) (\<lambda>_. 0)) (Inr (Inr 3)))) g False 0 = Inr 1"
proof -
  have "\<not> burned sample_user_params (driver_env sample_crypto (\<lambda>_. 0) (\<lambda>_. 0) release_raw)"
    by (simp add: burned_def driver_env_simps release_raw_def copyOutput_def driver_output_def)
  moreover obtain i where "run_inputs release_raw = [i]" by (simp add: release_raw_def demo_raw_def)
  ultimately show ?thesis
    using release_mutations_rejected [where cr = sample_crypto and txh = "\<lambda>_. 0" and tap = "\<lambda>_. 0" and p = sample_user_params
        and mutate = early_release and k = 0 and i = i, OF run_contract_interprets release_raw_decodes]
    by (simp add: sample_user_params_def)
qed

end
