(* ===== verification/Operator_Props.thy ===== *)
theory Operator_Props
  imports Operator_Bond Bond_Demo
begin

text \<open>
  Properties of the operator bond: what its contract accepts, that conflicting promises verified by
  the host code are always slashable, that an operator who promises once is safe and gets the
  collateral back, and that a promise binds its session.
\<close>

section \<open>Host code and contract\<close>

lemma operator_compiled:
  assumes "operator_compile cr L taproot c = Inr B"
  shows "b_config B = c" "terms_ok (operator_arguments cr c)" "taproot (operator_arguments cr c) = Inr (b_script B)"
    "protected (operator_arguments cr c) = c_protected_output c" "\<not> is_null L (c_protected_output c)"
  using assms by (auto simp: operator_compile_def terms_ok_def operator_arguments_def protected_def word_gt_0
      not_le guard_Inr bind_res_Inr)

lemma operator_digest_message:
  "operator_digest cr B bond t =
     sha256 cr (promise_message (operator_arguments cr (b_config B)) bond (sha256 cr (b_script B)) t)"
  by (simp add: operator_digest_def promise_message_def operator_arguments_def Let_def)

lemma operator_verified:
  assumes "operator_verify cr L B r = Inr ()"
  shows "r_bond r \<noteq> c_protected_output (b_config B)" "\<not> is_null L (r_bond r)"
    "schnorr cr (c_preconfer (b_config B)) (operator_digest cr B (r_bond r) (r_txid r)) (r_signature r)"
  using assms by (auto simp: operator_verify_def guard_Inr)

lemma operator_funding_simps [simp]:
  "nAsset (operator_funding_output B) = SetToAsset (c_fee_asset (b_config B))"
  "nValue (operator_funding_output B) = SetToAmount (c_collateral (b_config B))"
  "scriptPubKey (operator_funding_output B) = b_script B"
  by (simp_all add: operator_funding_output_def)

lemma operator_argument_simps [simp]:
  "FEE_ASSET (operator_arguments cr c) = c_fee_asset c" "COLLATERAL (operator_arguments cr c) = c_collateral c"
  "GENESIS (operator_arguments cr c) = c_genesis c" "PRECONFER (operator_arguments cr c) = c_preconfer c"
  "REFUND_HEIGHT (operator_arguments cr c) = c_refund_height c"
  by (simp_all add: operator_arguments_def)

text \<open>
  C13. The contract is exact: a spend is accepted exactly if its only input is the collateral on the
  configured chain, distinct from the protected output, and either two valid promises of the
  preconfer for different transactions are shown and the whole collateral becomes a fee, or the
  refund height is reached and the preconfer signed this spend.
\<close>

theorem operator_contract_exact:
  assumes "small_env e"
  shows "operator_main cr p e act = Some () \<longleftrightarrow> (\<exists>i. spends_bond p e i \<and>
    (case act of Inl ev \<Rightarrow> promises_ok cr p (prevOutpoint i) (in_script i) ev \<and> burned p e
     | Inr s \<Rightarrow> matured p e \<and> schnorr cr (PRECONFER p) (sigAllHash e) s))"
  by (rule operator_main_spends [OF assms])

section \<open>Conflicting promises\<close>

lemma conflict_accepted:
  assumes "elements_lib_ok L" and B: "operator_compile cr L taproot c = Inr B"
    and v: "operator_verify cr L B r1 = Inr ()" "operator_verify cr L B r2 = Inr ()"
    and "r_bond r1 = r_bond r2" "r_txid r1 \<noteq> r_txid r2"
  shows "\<exists>tx act e. operator_penalty_transaction L B (r_bond r1) = Inr tx \<and> operator_penalty_action r1 r2 = Inr act
    \<and> bond_environment cr h tap tx [operator_funding_output B] (c_genesis c) = Inr e \<and> small_env e
    \<and> operator_main cr (operator_arguments cr c) e act = Some ()"
proof -
  let ?P = "operator_arguments cr c" and ?ev = "((r_txid r1, r_signature r1), (r_txid r2, r_signature r2))"
  note comp = operator_compiled [OF B] and v1 = operator_verified [OF v(1)] and v2 = operator_verified [OF v(2)]
  obtain tx where tx: "operator_penalty_transaction L B (r_bond r1) = Inr tx"
    using v1 by (simp add: operator_penalty_transaction_def)
  then have "vin tx = [(default_txin L)\<lparr>prevout := r_bond r1, nSequence := ENABLE_LOCKTIME_NO_RBF L\<rparr>]"
    "vout tx = [new_fee L (c_collateral c) (c_fee_asset c)]" "r_bond r1 \<noteq> protected ?P"
    using comp by (auto simp: operator_penalty_transaction_def guard_Inr)
  then obtain e i where e: "bond_environment cr h tap tx [operator_funding_output B] (c_genesis c) = Inr e" "small_env e"
      "burned ?P e" and i: "spends_bond ?P e i" "prevOutpoint i = r_bond r1" "in_script i = sha256 cr (b_script B)"
    using penalty_spends [OF assms(1) comp(2), of "r_bond r1" tx "operator_funding_output B" cr h tap] comp(1) by auto
  have "promises_ok cr ?P (r_bond r1) (sha256 cr (b_script B)) ?ev"
    using v1 v2 assms(5,6) comp(1) by (simp add: promises_ok_def operator_digest_message)
  then have "operator_main cr ?P e (Inl ?ev) = Some ()" using opb.penalty_accepted [OF e(2,3) i(1)] i(2,3) by simp
  moreover have "operator_penalty_action r1 r2 = Inr (Inl ?ev)"
    using assms(5,6) by (simp add: operator_penalty_action_def receipt_witness_def)
  ultimately show ?thesis using tx e(1,2) by blast
qed

text \<open>
  C14. Conflicting promises are always slashable: for two receipts of the same bond with different
  transactions that the host code verified, the penalty transaction and the penalty action are
  built without error, and the contract accepts them.
\<close>

theorem conflicting_promises_slash:
  assumes "elements_lib_ok L" and B: "operator_compile cr L taproot c = Inr B"
    and v: "operator_verify cr L B r1 = Inr ()" "operator_verify cr L B r2 = Inr ()"
    and "r_bond r1 = r_bond r2" "r_txid r1 \<noteq> r_txid r2"
  shows "\<exists>tx act e. operator_penalty_transaction L B (r_bond r1) = Inr tx \<and> operator_penalty_action r1 r2 = Inr act
    \<and> bond_environment cr h tap tx [operator_funding_output B] (c_genesis c) = Inr e
    \<and> operator_main cr (operator_arguments cr c) e act = Some ()"
  using conflict_accepted [OF assms] by blast

section \<open>Honest operators\<close>

text \<open>
  C15. An operator who promises at most one transaction for a bond cannot lose the collateral: if
  signatures under the operator's key exist only for messages the operator signed, every accepted
  spend of the bond is a refund at or after the refund height that the operator signed.
\<close>

theorem honest_operator_safe:
  assumes unforgeable: "\<forall>m s. schnorr cr (c_preconfer (b_config B)) m s \<longrightarrow> m \<in> signed_messages"
    and once: "\<forall>t. operator_digest cr B bond t \<in> signed_messages \<longrightarrow> t = t0"
    and "small_env e" and accepted: "operator_main cr (operator_arguments cr (b_config B)) e act = Some ()"
    and i: "tx_input (env_tx e) = [i]" "prevOutpoint i = bond" "in_script i = sha256 cr (b_script B)"
  shows "matured (operator_arguments cr (b_config B)) e \<and> (\<exists>s. act = Inr s) \<and> sigAllHash e \<in> signed_messages"
  using assms(3) accepted
proof (cases rule: opb.accepted_cases)
  case (penalty ev j)
  then have "j = i" using i(1) by (simp add: spends_bond_def)
  obtain t s t' s' where ev: "ev = ((t, s), (t', s'))" by (metis surj_pair)
  have "operator_digest cr B bond t \<in> signed_messages" "operator_digest cr B bond t' \<in> signed_messages" "t \<noteq> t'"
    using penalty(3) unforgeable unfolding \<open>j = i\<close> i(2,3) ev
    by (auto simp: promises_ok_def operator_digest_message)
  with once show ?thesis by blast
next
  case (release s j)
  with unforgeable show ?thesis by auto
qed

text \<open>
  The operator recovers the collateral: a spend of the bond with any outputs, at a lock time at or
  after the refund height and with the operator's signature, is accepted.
\<close>

theorem operator_refund_accepted:
  assumes B: "operator_compile cr L taproot c = Inr B" and vin: "vin tx = [i]" "m_pegin i = None" "nAmount i = []"
      "nInflationKeys i = []" "prevout i \<noteq> c_protected_output c" and outs: "length (vout tx) < 2 ^ 32"
    and lock: "nSequence i < 0xffffffff" "c_refund_height c \<le> nLockTime tx" "nLockTime tx < 500000000"
    and env: "bond_environment cr h tap tx [operator_funding_output B] (c_genesis c) = Inr e"
    and sig: "schnorr cr (c_preconfer c) (sigAllHash e) s"
  shows "operator_main cr (operator_arguments cr c) e (operator_refund_action s) = Some ()"
proof -
  note comp = operator_compiled [OF B] and es = environment_simps [OF env]
  have small: "small_env e" using outs by (simp add: small_env_def es vin)
  have "bond_environment cr h tap tx [operator_funding_output B] (GENESIS (operator_arguments cr c)) = Inr e" using env by simp
  note sp = environment_spends(1) [OF this vin(1)]
  have "spends_bond (operator_arguments cr c) e (copyInput cr (init_input i (operator_funding_output B)))"
    by (rule sp) (use vin comp in simp_all)
  moreover have "matured (operator_arguments cr c) e"
    using lock by (simp add: matured_def es vin copyInput_def init_input_def)
  ultimately show ?thesis using sig opb.main_release [OF small] by (auto simp: operator_refund_action_def)
qed

section \<open>Binding\<close>

text \<open>
  C16. A promise cannot be replayed: if the hash function has no collision on the messages and scripts
  of two bonds, promises that differ in the chain, the collateral outpoint, the covenant script, the
  protected output, the session terms or the transaction have different digests.
\<close>

theorem promise_binds_session:
  assumes "inj_on (sha256 cr) M"
    and "promise_message (operator_arguments cr (b_config B)) bond (sha256 cr (b_script B)) t \<in> M"
    and "promise_message (operator_arguments cr (b_config B')) bond' (sha256 cr (b_script B')) t' \<in> M"
    and "b_script B \<in> M" "b_script B' \<in> M"
    and "c_genesis (b_config B) \<noteq> c_genesis (b_config B') \<or> bond \<noteq> bond' \<or> b_script B \<noteq> b_script B'
      \<or> c_protected_output (b_config B) \<noteq> c_protected_output (b_config B') \<or> c_epoch (b_config B) \<noteq> c_epoch (b_config B')
      \<or> c_active_until (b_config B) \<noteq> c_active_until (b_config B')
      \<or> c_refund_height (b_config B) \<noteq> c_refund_height (b_config B') \<or> t \<noteq> t'"
  shows "operator_digest cr B bond t \<noteq> operator_digest cr B' bond' t'"
proof
  assume "operator_digest cr B bond t = operator_digest cr B' bond' t'"
  then have "promise_message (operator_arguments cr (b_config B)) bond (sha256 cr (b_script B)) t
      = promise_message (operator_arguments cr (b_config B')) bond' (sha256 cr (b_script B')) t'"
    using inj_onD [OF assms(1) _ assms(2,3)] by (simp add: operator_digest_message)
  note eqs = promise_message_inject [OF this]
  have "b_script B = b_script B'" using eqs(4) inj_onD [OF assms(1) _ assms(4,5)] by blast
  with eqs assms(6) show False by (simp add: operator_arguments_def protected_def)
qed

section \<open>A concrete bond\<close>

definition sample_config :: operator_config where
  "sample_config = \<lparr>c_genesis = 17, c_fee_asset = 34, c_protected_output = \<lparr>op_txid = 51, op_vout = 0\<rparr>, c_epoch = 1,
     c_collateral = 5000, c_active_until = 1000, c_refund_height = 1010, c_preconfer = 68\<rparr>"

definition sample_bond :: operator_bond where
  "sample_bond = \<lparr>b_config = sample_config, b_script = [81, 32]\<rparr>"

definition sample_receipt :: "u256 \<Rightarrow> operator_receipt" where
  "sample_receipt t = \<lparr>r_bond = sample_outpoint, r_txid = t, r_signature = ucast t\<rparr>"

lemma sample_compile: "operator_compile cr sample_lib (\<lambda>_. Inr [81, 32]) sample_config = Inr sample_bond"
  by (simp add: operator_compile_def sample_lib_def sample_config_def sample_bond_def)

lemma sample_digest: "operator_digest sample_crypto B bond t = t"
  unfolding operator_digest_message promise_message_def append_assoc [symmetric] by (rule sample_sha256)

lemma sample_verify: "operator_verify sample_crypto sample_lib sample_bond (sample_receipt t) = Inr ()"
  by (simp add: operator_verify_def sample_digest)
     (simp add: sample_crypto_def sample_receipt_def sample_lib_def sample_bond_def sample_config_def sample_outpoint_def)

lemma sample_receipts: "r_bond (sample_receipt t) = sample_outpoint" "r_txid (sample_receipt t) = t"
  by (simp_all add: sample_receipt_def)

theorem conflicting_promises_slash_witness:
  "\<exists>tx act e. operator_penalty_transaction sample_lib sample_bond sample_outpoint = Inr tx
     \<and> operator_penalty_action (sample_receipt 1) (sample_receipt 2) = Inr act
     \<and> bond_environment sample_crypto 0 0 tx [operator_funding_output sample_bond] (c_genesis sample_config) = Inr e
     \<and> operator_main sample_crypto (operator_arguments sample_crypto sample_config) e act = Some ()"
  using conflicting_promises_slash [OF sample_lib_ok sample_compile sample_verify [of 1] sample_verify [of 2], of 0 0]
  by (simp add: sample_receipts)

theorem operator_contract_exact_witness:
  "\<exists>e act i. operator_main sample_crypto (operator_arguments sample_crypto sample_config) e act = Some ()
     \<and> spends_bond (operator_arguments sample_crypto sample_config) e i"
proof -
  obtain act e where "operator_main sample_crypto (operator_arguments sample_crypto sample_config) e act = Some ()" "small_env e"
    using conflict_accepted [OF sample_lib_ok sample_compile sample_verify [of 1] sample_verify [of 2], of 0 0]
    by (auto simp: sample_receipts)
  with operator_contract_exact [of e] show ?thesis by blast
qed

text \<open>A refund of this bond, and an operator who signs only its hash.\<close>

definition sample_refund :: CTransaction where
  "sample_refund = \<lparr>vin = [(default_txin sample_lib)\<lparr>prevout := sample_outpoint, nSequence := 0xfffffffe\<rparr>],
     vout = [\<lparr>nAsset = SetToAsset 34, nValue = SetToAmount 4000, scriptPubKey = [82]\<rparr>], nLockTime = 1010\<rparr>"

definition honest_crypto :: crypto where
  "honest_crypto = sample_crypto\<lparr>schnorr := (\<lambda>pk m s. m = 0 \<and> s = 3)\<rparr>"

definition sample_refund_env :: txEnv where
  "sample_refund_env = build_txEnv honest_crypto (mallocTransaction honest_crypto 0
     (Init sample_refund [operator_funding_output sample_bond])) 0 (c_genesis sample_config) 0"

lemma sample_refund_env:
  "bond_environment honest_crypto 0 0 sample_refund [operator_funding_output sample_bond] (c_genesis sample_config) = Inr sample_refund_env"
  by (simp add: bond_environment_def sample_refund_def sample_refund_env_def)

lemma sample_refund_hash: "sigAllHash sample_refund_env = 0"
proof -
  have "sha256 honest_crypto (xs @ ys @ replicate 32 0 @ replicate 32 0 @ replicate 4 0) = 0" for xs ys
    by (simp add: honest_crypto_def sample_crypto_def of_be_bytes_0 flip: replicate_add)
  then show ?thesis
    by (simp add: sample_refund_env_def build_txEnv_def mallocTransaction_def Let_def be_bytes_0)
qed

lemma sample_refund_input:
  "tx_input (env_tx sample_refund_env) = [copyInput honest_crypto (init_input
     ((default_txin sample_lib)\<lparr>prevout := sample_outpoint, nSequence := 0xfffffffe\<rparr>) (operator_funding_output sample_bond))]"
  by (simp add: environment_simps [OF sample_refund_env] sample_refund_def)

lemma sample_refund_small: "small_env sample_refund_env"
  by (simp add: small_env_def environment_simps [OF sample_refund_env] sample_refund_def)

lemma sample_refund_accepted:
  "operator_main honest_crypto (operator_arguments honest_crypto sample_config) sample_refund_env (operator_refund_action 3) = Some ()"
proof -
  have "spends_bond (operator_arguments honest_crypto sample_config) sample_refund_env
      (copyInput honest_crypto (init_input ((default_txin sample_lib)\<lparr>prevout := sample_outpoint, nSequence := 0xfffffffe\<rparr>)
        (operator_funding_output sample_bond)))"
    by (rule environment_spends(1) [of _ 0 0 sample_refund])
       (use sample_refund_env operator_compiled(2,4) [OF sample_compile, of honest_crypto] in
         \<open>simp_all add: sample_refund_def sample_lib_def sample_bond_def sample_outpoint_def sample_config_def\<close>)
  moreover have "matured (operator_arguments honest_crypto sample_config) sample_refund_env"
    by (simp add: matured_def environment_simps [OF sample_refund_env] sample_refund_def copyInput_def init_input_def)
       (simp add: sample_config_def)
  ultimately show ?thesis
    unfolding operator_refund_action_def opb.main_release [OF sample_refund_small]
    by (auto simp: sample_refund_hash) (simp add: honest_crypto_def)
qed

theorem operator_refund_accepted_witness:
  "operator_main honest_crypto (operator_arguments honest_crypto sample_config) sample_refund_env (operator_refund_action 3) = Some ()
   \<and> lockTime (env_tx sample_refund_env) = 1010"
proof -
  have "schnorr honest_crypto (c_preconfer sample_config) (sigAllHash sample_refund_env) 3"
    unfolding sample_refund_hash by (simp add: honest_crypto_def)
  with operator_refund_accepted [OF sample_compile _ _ _ _ _ _ _ _ _ sample_refund_env] show ?thesis
    by (simp add: sample_refund_def sample_lib_def sample_config_def sample_outpoint_def environment_simps [OF sample_refund_env])
qed

lemma honest_digest: "operator_digest honest_crypto B bond t = t"
proof -
  have "sha256 honest_crypto = sha256 sample_crypto" by (simp add: honest_crypto_def)
  then show ?thesis using sample_digest [of B bond t] by (simp add: operator_digest_def)
qed

theorem honest_operator_safe_witness:
  "matured (operator_arguments honest_crypto sample_config) sample_refund_env \<and> sigAllHash sample_refund_env \<in> {0}"
proof -
  have "\<forall>m s. schnorr honest_crypto (c_preconfer (b_config sample_bond)) m s \<longrightarrow> m \<in> {0}"
    by (simp add: honest_crypto_def)
  moreover have "\<forall>t. operator_digest honest_crypto sample_bond sample_outpoint t \<in> {0} \<longrightarrow> t = 0" by (simp add: honest_digest)
  moreover have "b_config sample_bond = sample_config" by (simp add: sample_bond_def)
  moreover have "prevOutpoint (copyInput honest_crypto (init_input ((default_txin sample_lib)\<lparr>prevout := sample_outpoint,
      nSequence := 0xfffffffe\<rparr>) (operator_funding_output sample_bond))) = sample_outpoint"
    "in_script (copyInput honest_crypto (init_input ((default_txin sample_lib)\<lparr>prevout := sample_outpoint,
      nSequence := 0xfffffffe\<rparr>) (operator_funding_output sample_bond))) = sha256 honest_crypto (b_script sample_bond)"
    by (simp_all add: copyInput_def init_input_def of_be_bytes_inverse)
  ultimately show ?thesis
    using honest_operator_safe [OF _ _ sample_refund_small _ sample_refund_input] sample_refund_accepted by metis
qed

theorem promise_binds_session_witness:
  "operator_digest sample_crypto sample_bond sample_outpoint 9 \<noteq> operator_digest sample_crypto sample_bond sample_outpoint 8"
proof -
  let ?m = "promise_message (operator_arguments sample_crypto (b_config sample_bond)) sample_outpoint (sha256 sample_crypto (b_script sample_bond))"
  have "sha256 sample_crypto (?m t) = t" for t
    unfolding promise_message_def append_assoc [symmetric] by (rule sample_sha256)
  moreover have "sha256 sample_crypto (b_script sample_bond) = 20768"
    by (simp add: sample_crypto_def of_be_bytes_def sample_bond_def)
  ultimately have "inj_on (sha256 sample_crypto) {?m 9, ?m 8, b_script sample_bond}" by (simp add: inj_on_def)
  then show ?thesis by (rule promise_binds_session) simp_all
qed

end
