(* ===== verification/User_Props.thy ===== *)
theory User_Props
  imports User_Bond Bond_Demo
begin

text \<open>
  Properties of the user bond: what its contract accepts, that no signature releases the collateral
  early, that doubly authorized conflicting transactions are slashable, and that the subject check
  admits exactly the intended transactions.
\<close>

lemma user_validated:
  assumes "user_compile cr L taproot c = Inr B"
  shows "u_config B = c" "terms_ok (user_arguments cr c)" "c_owner c \<noteq> c_matcher c"
    "protected (user_arguments cr c) = c_protected_output c"
  using assms by (auto simp: user_compile_def validate_def terms_ok_def user_arguments_def protected_def word_gt_0
      not_le guard_Inr bind_res_Inr)

lemma receipt_digest_message:
  "receipt_digest cr B bond t =
     sha256 cr (promise_message (user_arguments cr (u_config B)) bond (sha256 cr (u_script_pubkey B)) t)"
  by (simp add: receipt_digest_def promise_message_def user_arguments_def Let_def)

lemma user_funding_simps [simp]:
  "nAsset (user_funding_output B) = SetToAsset (c_fee_asset (u_config B))"
  "nValue (user_funding_output B) = SetToAmount (c_collateral (u_config B))"
  "scriptPubKey (user_funding_output B) = u_script_pubkey B"
  by (simp_all add: user_funding_output_def)

lemma user_argument_simps [simp]:
  "FEE_ASSET (user_arguments cr c) = c_fee_asset c" "COLLATERAL (user_arguments cr c) = c_collateral c"
  "GENESIS (user_arguments cr c) = c_genesis c" "OWNER (user_arguments cr c) = c_owner c"
  "MATCHER (user_arguments cr c) = c_matcher c" "REFUND_HEIGHT (user_arguments cr c) = c_refund_height c"
  by (simp_all add: user_arguments_def)

text \<open>
  C17. The contract is exact: a spend is accepted exactly if its only input is the collateral on the
  configured chain, distinct from the protected output, owner and matcher differ, and either both of
  them signed authorizations of two different transactions and the whole collateral becomes a fee, or
  the refund height is reached and the owner alone or with the matcher signed this spend.
\<close>

theorem user_contract_exact:
  assumes "small_env e"
  shows "user_main cr p e act = Some () \<longleftrightarrow> (\<exists>i. spends_bond p e i \<and>
    (case act of Inl ev \<Rightarrow> authorizations_ok cr p (prevOutpoint i) (in_script i) ev \<and> burned p e
     | Inr r \<Rightarrow> matured p e \<and> releases_ok cr p (sigAllHash e) r))"
  by (rule user_main_spends [OF assms])

text \<open>
  C18. No early release: before the refund height, or with a final sequence number, no signature of the
  owner or the matcher moves the collateral; an accepted spend burns it all as a fee and shows two
  authorizations of different transactions.
\<close>

theorem no_early_release:
  assumes "small_env e" and "user_main cr p e act = Some ()"
    and "lockTime (env_tx e) < REFUND_HEIGHT p \<or> isFinal (env_tx e)"
  shows "burned p e \<and> (\<exists>ev. act = Inl ev)"
proof -
  have "\<not> matured p e" using assms(3) by (auto simp: matured_def)
  from ub.early_spend_burns [OF assms(1,2) this] show ?thesis by blast
qed

lemma authorization_conflict_accepted:
  assumes L: "elements_lib_ok L" and B: "user_compile cr L taproot c = Inr B"
    and "bond \<noteq> c_protected_output c" "\<not> is_null L bond" "spend_txid a \<noteq> spend_txid b"
    and "schnorr cr (c_owner c) (receipt_digest cr B bond (spend_txid a)) (owner_signature a)"
      "schnorr cr (c_matcher c) (receipt_digest cr B bond (spend_txid a)) (matcher_signature a)"
      "schnorr cr (c_owner c) (receipt_digest cr B bond (spend_txid b)) (owner_signature b)"
      "schnorr cr (c_matcher c) (receipt_digest cr B bond (spend_txid b)) (matcher_signature b)"
  shows "\<exists>tx e. user_penalty_transaction L B bond = Inr tx
    \<and> bond_environment cr h tap tx [user_funding_output B] (c_genesis c) = Inr e \<and> small_env e
    \<and> user_main cr (user_arguments cr c) e (user_penalty_action a b) = Some ()"
proof -
  let ?P = "user_arguments cr c"
  note comp = user_validated [OF B]
  obtain tx where tx: "user_penalty_transaction L B bond = Inr tx"
    using assms(3,4) comp(1) by (simp add: user_penalty_transaction_def)
  then have "vin tx = [(default_txin L)\<lparr>prevout := bond, nSequence := ENABLE_LOCKTIME_NO_RBF L\<rparr>]"
    "vout tx = [new_fee L (c_collateral c) (c_fee_asset c)]" "bond \<noteq> protected ?P"
    using comp by (auto simp: user_penalty_transaction_def guard_Inr)
  then obtain e i where e: "bond_environment cr h tap tx [user_funding_output B] (c_genesis c) = Inr e" "small_env e"
      "burned ?P e" and i: "spends_bond ?P e i" "prevOutpoint i = bond" "in_script i = sha256 cr (u_script_pubkey B)"
    using penalty_spends [OF L comp(2), of bond tx "user_funding_output B" cr h tap] comp(1) by auto
  have "authorizations_ok cr ?P bond (sha256 cr (u_script_pubkey B)) (authorization_witness a, authorization_witness b)"
    using assms(5-9) comp(1,3) by (simp add: authorizations_ok_def authorization_witness_def receipt_digest_message)
  then have "user_main cr ?P e (user_penalty_action a b) = Some ()"
    using ub.penalty_accepted [OF e(2,3) i(1)] i(2,3) by (simp add: user_penalty_action_def)
  then show ?thesis using tx e(1,2) by blast
qed

text \<open>
  C19. Doubly authorized conflicts are slashable: if owner and matcher both signed the digests of two
  different transactions for a bond, the penalty transaction is built and the contract accepts it
  with the penalty action.
\<close>

theorem conflicting_authorizations_slash:
  assumes L: "elements_lib_ok L" and B: "user_compile cr L taproot c = Inr B"
    and "bond \<noteq> c_protected_output c" "\<not> is_null L bond" "spend_txid a \<noteq> spend_txid b"
    and "schnorr cr (c_owner c) (receipt_digest cr B bond (spend_txid a)) (owner_signature a)"
      "schnorr cr (c_matcher c) (receipt_digest cr B bond (spend_txid a)) (matcher_signature a)"
      "schnorr cr (c_owner c) (receipt_digest cr B bond (spend_txid b)) (owner_signature b)"
      "schnorr cr (c_matcher c) (receipt_digest cr B bond (spend_txid b)) (matcher_signature b)"
  shows "\<exists>tx e. user_penalty_transaction L B bond = Inr tx
    \<and> bond_environment cr h tap tx [user_funding_output B] (c_genesis c) = Inr e
    \<and> user_main cr (user_arguments cr c) e (user_penalty_action a b) = Some ()"
  using authorization_conflict_accepted [OF assms] by blast

section \<open>Subject of an authorization\<close>

lemma single_filter_iff: "length (filter Q xs) = 1 \<longleftrightarrow> (\<exists>!k. k < length xs \<and> Q (xs ! k))"
proof -
  have "length (filter Q xs) = card {k. k < length xs \<and> Q (xs ! k)}" by (rule length_filter_conv_card)
  also have "(\<dots> = 1) = (\<exists>!k. k < length xs \<and> Q (xs ! k))"
    unfolding One_nat_def card_1_singleton_iff set_eq_iff mem_Collect_eq singleton_iff Ex1_def by blast
  finally show ?thesis .
qed

text \<open>
  The subject check admits exactly the transactions that spend a non-null protected output in
  exactly one input and have no peg-in or issuance input.
\<close>

theorem authorization_subject_exact:
  "check_authorization_subject L has_issuance prot tx = Inr () \<longleftrightarrow>
     \<not> is_null L prot \<and> (\<exists>!k. k < length (vin tx) \<and> prevout (vin tx ! k) = prot)
     \<and> list_all (\<lambda>i. m_pegin i = None \<and> \<not> has_issuance i) (vin tx)"
proof (cases "list_all (\<lambda>i. m_pegin i = None \<and> \<not> has_issuance i) (vin tx)")
  case True
  then have "filter (\<lambda>i. m_pegin i = None \<and> prevout i = prot) (vin tx) = filter (\<lambda>i. prevout i = prot) (vin tx)"
    by (intro filter_cong) (simp_all add: list_all_iff)
  moreover have "\<not> list_ex (\<lambda>i. m_pegin i \<noteq> None \<or> has_issuance i) (vin tx)"
    using True by (simp add: list_all_iff list_ex_iff)
  ultimately show ?thesis
    using True single_filter_iff [of "\<lambda>i. prevout i = prot" "vin tx"] by (simp add: check_authorization_subject_def guard_Inr)
next
  case False
  then have "list_ex (\<lambda>i. m_pegin i \<noteq> None \<or> has_issuance i) (vin tx)" by (simp add: list_all_iff list_ex_iff)
  with False show ?thesis by (simp add: check_authorization_subject_def guard_Inr)
qed

section \<open>A concrete bond\<close>

definition sample_user_config :: user_config where
  "sample_user_config = \<lparr>c_genesis = 17, c_fee_asset = 34, c_protected_output = \<lparr>op_txid = 51, op_vout = 0\<rparr>, c_epoch = 1,
     c_collateral = 5000, c_active_until = 1000, c_refund_height = 1010, c_owner = 68, c_matcher = 69\<rparr>"

definition sample_user_bond :: user_bond where
  "sample_user_bond = \<lparr>u_config = sample_user_config, u_script_pubkey = [81, 33]\<rparr>"

definition sample_authorization :: "u256 \<Rightarrow> authorization" where
  "sample_authorization t = \<lparr>spend_txid = t, owner_signature = ucast t, matcher_signature = ucast t\<rparr>"

lemma sample_user_compile: "user_compile cr sample_lib (\<lambda>_. Inr [81, 33]) sample_user_config = Inr sample_user_bond"
  by (simp add: user_compile_def validate_def sample_lib_def sample_user_config_def sample_user_bond_def)

lemma sample_receipt_digest: "receipt_digest sample_crypto B bond t = t"
  unfolding receipt_digest_message promise_message_def append_assoc [symmetric] by (rule sample_sha256)

lemma sample_authorization_valid:
  "sample_outpoint \<noteq> c_protected_output sample_user_config" "\<not> is_null sample_lib sample_outpoint"
  "schnorr sample_crypto pk (receipt_digest sample_crypto B bond (spend_txid (sample_authorization t))) (owner_signature (sample_authorization t))"
  "schnorr sample_crypto pk (receipt_digest sample_crypto B bond (spend_txid (sample_authorization t))) (matcher_signature (sample_authorization t))"
  "spend_txid (sample_authorization 1) \<noteq> spend_txid (sample_authorization 2)"
  unfolding sample_receipt_digest
  by (simp_all add: sample_crypto_def sample_lib_def sample_user_config_def sample_outpoint_def sample_authorization_def)

theorem conflicting_authorizations_slash_witness:
  "\<exists>tx e. user_penalty_transaction sample_lib sample_user_bond sample_outpoint = Inr tx
    \<and> bond_environment sample_crypto 0 0 tx [user_funding_output sample_user_bond] (c_genesis sample_user_config) = Inr e
    \<and> user_main sample_crypto (user_arguments sample_crypto sample_user_config) e
        (user_penalty_action (sample_authorization 1) (sample_authorization 2)) = Some ()"
  by (rule conflicting_authorizations_slash [OF sample_lib_ok sample_user_compile sample_authorization_valid(1,2,5,3,4,3,4)])

lemma sample_user_penalty:
  obtains e act where "user_main sample_crypto (user_arguments sample_crypto sample_user_config) e act = Some ()" "small_env e"
    "lockTime (env_tx e) = 0"
proof -
  obtain tx e where e: "user_penalty_transaction sample_lib sample_user_bond sample_outpoint = Inr tx"
      "bond_environment sample_crypto 0 0 tx [user_funding_output sample_user_bond] (c_genesis sample_user_config) = Inr e"
      "small_env e" "user_main sample_crypto (user_arguments sample_crypto sample_user_config) e
        (user_penalty_action (sample_authorization 1) (sample_authorization 2)) = Some ()"
    using authorization_conflict_accepted [OF sample_lib_ok sample_user_compile sample_authorization_valid(1,2,5,3,4,3,4), of 0 0]
    by blast
  have "nLockTime tx = 0" using e(1) by (auto simp: user_penalty_transaction_def guard_Inr)
  then have "lockTime (env_tx e) = 0" by (simp add: environment_simps [OF e(2)])
  with e(3,4) that show ?thesis by blast
qed

theorem user_contract_exact_witness:
  "\<exists>e act i. user_main sample_crypto (user_arguments sample_crypto sample_user_config) e act = Some ()
     \<and> spends_bond (user_arguments sample_crypto sample_user_config) e i"
proof -
  obtain e act where "user_main sample_crypto (user_arguments sample_crypto sample_user_config) e act = Some ()" "small_env e"
    using sample_user_penalty by blast
  with user_contract_exact [of e] show ?thesis by blast
qed

theorem no_early_release_witness:
  "\<exists>e act. user_main sample_crypto (user_arguments sample_crypto sample_user_config) e act = Some ()
     \<and> burned (user_arguments sample_crypto sample_user_config) e"
proof -
  obtain e act where e: "user_main sample_crypto (user_arguments sample_crypto sample_user_config) e act = Some ()" "small_env e"
      "lockTime (env_tx e) = 0"
    using sample_user_penalty by blast
  have "lockTime (env_tx e) < REFUND_HEIGHT (user_arguments sample_crypto sample_user_config)"
    using e(3) by (simp add: sample_user_config_def)
  with no_early_release [OF e(2,1)] e(1) show ?thesis by blast
qed

end
