(* ===== verification/User_Node.thy ===== *)
theory User_Node
  imports User_Props Wire
begin









section \<open>A concrete node\<close>







end
