(* ===== verification/Relay.thy ===== *)
theory Relay
  imports Operator_Bond Wire "HOL-Library.Product_Lexorder"
begin

text \<open>
  The relay of \<^verbatim>\<open>src/relay/mod.rs\<close>: the administrative profile, the append-only journal of verified
  promises and the cursor validation of a subscriber. Sequence numbers are natural numbers; the
  bound of two events for each of at most 128 bonds, proved for the store, keeps them far below the
  range of \<open>u64\<close>. What \<open>serde\<close> reads back is a parameter with its round trips as hypotheses.
\<close>

section \<open>Constants and data\<close>

definition MAX_SESSIONS :: nat where
  "MAX_SESSIONS = 128"

definition RELAY_MAX_FRAME :: nat where
  "RELAY_MAX_FRAME = 4096"

definition MAX_JOURNAL :: nat where
  "MAX_JOURNAL = 1048576"

record session =
  s_bond :: outpoint
  s_config :: operator_config

record relay_profile =
  p_version :: nat
  p_sessions :: "session list"

record validated_profile =
  vp_id :: string
  vp_bonds :: "(outpoint \<times> operator_bond) list"

record relay_event =
  e_seq :: nat
  e_receipt :: operator_receipt
  e_conflict_with :: "operator_receipt option"

record relay_cursor =
  k_stream :: string
  k_seq :: nat

datatype client_message =
    Subscribe string "relay_cursor option"
  | Publish operator_receipt

datatype server_message =
    Begin string string nat nat
  | EventMessage relay_event
  | CaughtUp relay_cursor
  | Heartbeat relay_cursor
  | Published nat string
  | ErrorMessage string

record journal_header =
  hd_version :: nat
  hd_profile :: string
  hd_stream :: string

section \<open>Wire formats\<close>

text \<open>
  The display form of a transaction id and the readers of \<^verbatim>\<open>serde_json\<close>. A transaction id prints as
  64 lowercase hexadecimal digits, and a reader accepts what was written for its type.
\<close>

record serde =
  show_txid :: "u256 \<Rightarrow> string"
  read_header :: "string \<Rightarrow> journal_header option"
  read_event :: "string \<Rightarrow> relay_event option"
  read_client :: "string \<Rightarrow> client_message option"
  read_server :: "string \<Rightarrow> server_message option"

definition show_outpoint :: "serde \<Rightarrow> outpoint \<Rightarrow> string" where
  "show_outpoint S b = show_txid S (op_txid b) @ CHR '':'' # show_nat (unat (op_vout b))"

definition show_signature :: "signature \<Rightarrow> string" where
  "show_signature s = hex_encode (be_bytes 64 s)"

definition receipt_json :: "serde \<Rightarrow> operator_receipt \<Rightarrow> json" where
  "receipt_json S r = wire_receipt (show_outpoint S (r_bond r)) (show_txid S (r_txid r)) (show_signature (r_signature r))"

definition event_json :: "serde \<Rightarrow> relay_event \<Rightarrow> json" where
  "event_json S e = wire_record (e_seq e) (receipt_json S (e_receipt e)) (map_option (receipt_json S) (e_conflict_with e))"

definition header_json :: "journal_header \<Rightarrow> json" where
  "header_json h = JObj [(''version'', jnat (hd_version h)), (''profile'', JStr (hd_profile h)), (''stream'', JStr (hd_stream h))]"

definition cursor_json :: "relay_cursor \<Rightarrow> json" where
  "cursor_json c = wire_cursor (k_stream c) (k_seq c)"

definition server_json :: "serde \<Rightarrow> server_message \<Rightarrow> json" where
  "server_json S m =
     (case m of
        Begin p s f t \<Rightarrow> wire_begin p s f t
      | EventMessage e \<Rightarrow> wire_event (event_json S e)
      | CaughtUp c \<Rightarrow> wire_caught_up (cursor_json c)
      | Heartbeat c \<Rightarrow> wire_heartbeat (cursor_json c)
      | Published n st \<Rightarrow> wire_published n st
      | ErrorMessage r \<Rightarrow> wire_error r)"

definition client_json :: "serde \<Rightarrow> client_message \<Rightarrow> json" where
  "client_json S m =
     (case m of
        Subscribe p c \<Rightarrow> wire_subscribe p (map_option cursor_json c)
      | Publish r \<Rightarrow> wire_publish (receipt_json S r))"

text \<open>Messages whose numbers are below \<open>2^53\<close>; every number of the protocol is at most 256.\<close>

definition small_client :: "client_message \<Rightarrow> bool" where
  "small_client m = (case m of Subscribe p (Some c) \<Rightarrow> k_seq c \<le> 9007199254740991 | _ \<Rightarrow> True)"

definition small_server :: "server_message \<Rightarrow> bool" where
  "small_server m =
     (case m of
        Begin p s f t \<Rightarrow> f \<le> 9007199254740991 \<and> t \<le> 9007199254740991
      | EventMessage e \<Rightarrow> e_seq e \<le> 9007199254740991
      | CaughtUp c \<Rightarrow> k_seq c \<le> 9007199254740991
      | Heartbeat c \<Rightarrow> k_seq c \<le> 9007199254740991
      | Published n st \<Rightarrow> n \<le> 9007199254740991
      | ErrorMessage r \<Rightarrow> True)"

definition serde_ok :: "serde \<Rightarrow> bool" where
  "serde_ok S \<longleftrightarrow> inj (show_txid S) \<and> (\<forall>t. hex_string 64 (show_txid S t))
     \<and> (\<forall>h. hd_version h \<le> 4294967295 \<longrightarrow> read_header S (json_print (header_json h)) = Some h)
     \<and> (\<forall>e. e_seq e \<le> 9007199254740991 \<longrightarrow> read_event S (json_print (event_json S e)) = Some e)
     \<and> (\<forall>m. small_client m \<longrightarrow> read_client S (json_print (client_json S m)) = Some m)
     \<and> (\<forall>m. small_server m \<longrightarrow> read_server S (json_print (server_json S m)) = Some m)"

section \<open>Profile\<close>

definition outpoint_key :: "outpoint \<Rightarrow> int \<times> int" where
  "outpoint_key b = (uint (op_txid b), uint (op_vout b))"

fun validate_sessions :: "crypto \<Rightarrow> elements_lib \<Rightarrow> (operator_params \<Rightarrow> byte list res) \<Rightarrow> operator_config
    \<Rightarrow> (outpoint \<times> operator_bond) list \<Rightarrow> outpoint list \<Rightarrow> session list \<Rightarrow> (outpoint \<times> operator_bond) list res" where
  "validate_sessions cr L taproot fst_config bs prot [] = Inr bs"
| "validate_sessions cr L taproot fst_config bs prot (s # ss) =
     guard (\<not> (is_null L (s_bond s) \<or> s_bond s = c_protected_output (s_config s)
         \<or> c_genesis (s_config s) \<noteq> c_genesis fst_config \<or> c_fee_asset (s_config s) \<noteq> c_fee_asset fst_config
         \<or> s_bond s \<in> fst ` set bs \<or> c_protected_output (s_config s) \<in> set prot))
       ''profile requires unique bonds/subjects on one chain and fee asset''
       (bind_res (operator_compile cr L taproot (s_config s)) (\<lambda>B.
          validate_sessions cr L taproot fst_config (bs @ [(s_bond s, B)])
            (c_protected_output (s_config s) # prot) ss))"

text \<open>\<open>Profile::validate\<close>; the identifier hashes the serialised, sorted profile.\<close>

definition profile_validate :: "crypto \<Rightarrow> elements_lib \<Rightarrow> (operator_params \<Rightarrow> byte list res)
    \<Rightarrow> (relay_profile \<Rightarrow> string) \<Rightarrow> relay_profile \<Rightarrow> validated_profile res" where
  "profile_validate cr L taproot profile_id p =
     guard (\<not> (p_version p \<noteq> 1 \<or> p_sessions p = [] \<or> length (p_sessions p) > MAX_SESSIONS))
       ''invalid profile version or session count''
       (let ss = sort_key (\<lambda>s. outpoint_key (s_bond s)) (p_sessions p) in
        bind_res (validate_sessions cr L taproot (s_config (hd ss)) [] [] ss) (\<lambda>bs.
          Inr \<lparr>vp_id = profile_id (p\<lparr>p_sessions := ss\<rparr>), vp_bonds = bs\<rparr>))"

definition profile_verify :: "crypto \<Rightarrow> elements_lib \<Rightarrow> validated_profile \<Rightarrow> operator_receipt \<Rightarrow> unit res" where
  "profile_verify cr L vp r =
     (case map_of (vp_bonds vp) (r_bond r) of
        None \<Rightarrow> Inl ''unknown bond/session''
      | Some B \<Rightarrow> operator_verify cr L B r)"

section \<open>Store\<close>

record store =
  st_profile :: validated_profile
  st_stream :: string
  st_events :: "relay_event list"
  st_journal :: string
  st_failed :: bool

text \<open>
  \<open>append\<close> with the outcome of writing and syncing: \<open>None\<close> is success, \<open>Some k\<close> a failure after \<open>k\<close> bytes
  reached the file.
\<close>

definition append_journal :: "string \<Rightarrow> nat option \<Rightarrow> json \<Rightarrow> string \<times> unit res" where
  "append_journal file io v =
     (let line = json_print v in
      if length line > RELAY_MAX_FRAME then (file, Inl ''oversized journal record'')
      else (case io of
              None \<Rightarrow> (file @ line @ [CHR 0x0A], Inr ())
            | Some k \<Rightarrow> (file @ take k (line @ [CHR 0x0A]), Inl ''journal write failed; monitoring disabled'')))"

definition store_head :: "store \<Rightarrow> nat" where
  "store_head st = length (st_events st)"

definition replay :: "store \<Rightarrow> relay_cursor option \<Rightarrow> relay_event list res" where
  "replay st cur =
     (if st_failed st then Inl ''journal unavailable''
      else (case cur of
              Some c \<Rightarrow> guard (\<not> (k_stream c \<noteq> st_stream st \<or> k_seq c > store_head st))
                 ''cursor gap or stream changed; full revalidation required'' (Inr (drop (k_seq c) (st_events st)))
            | None \<Rightarrow> Inr (st_events st)))"

definition prepare :: "crypto \<Rightarrow> elements_lib \<Rightarrow> store \<Rightarrow> operator_receipt
    \<Rightarrow> (relay_event option \<times> string \<times> nat) res" where
  "prepare cr L st r =
     (if st_failed st then Inl ''journal unavailable''
      else bind_res (profile_verify cr L (st_profile st) r) (\<lambda>_.
        let previous = filter (\<lambda>e. r_bond (e_receipt e) = r_bond r) (st_events st) in
        (case find (\<lambda>e. r_txid (e_receipt e) = r_txid r) previous of
           Some d \<Rightarrow> Inr (None, ''duplicate'', e_seq d)
         | None \<Rightarrow>
             if length previous = 2 then Inr (None, ''already_conflicted'', e_seq (previous ! 1))
             else let e = \<lparr>e_seq = store_head st + 1, e_receipt = r,
                           e_conflict_with = (case previous of [] \<Rightarrow> None | d # _ \<Rightarrow> Some (e_receipt d))\<rparr>
                  in Inr (Some e, ''stored'', e_seq e))))"

definition publish :: "crypto \<Rightarrow> elements_lib \<Rightarrow> serde \<Rightarrow> nat option \<Rightarrow> store \<Rightarrow> operator_receipt
    \<Rightarrow> store \<times> (relay_event option \<times> string \<times> nat) res" where
  "publish cr L S io st r =
     (case prepare cr L st r of
        Inl msg \<Rightarrow> (st, Inl msg)
      | Inr (None, status) \<Rightarrow> (st, Inr (None, status))
      | Inr (Some e, status) \<Rightarrow>
          (case append_journal (st_journal st) io (event_json S e) of
             (file, Inl msg) \<Rightarrow> (st\<lparr>st_journal := file, st_failed := True\<rparr>, Inl msg)
           | (file, Inr _) \<Rightarrow> (st\<lparr>st_journal := file, st_events := st_events st @ [e]\<rparr>, Inr (Some e, status))))"

text \<open>\<open>Store::open\<close> from the bytes of the locked file on.\<close>

fun split_lines :: "string \<Rightarrow> string list" where
  "split_lines [] = [[]]"
| "split_lines (c # cs) =
     (if c = CHR 0x0A then [] # split_lines cs
      else (case split_lines cs of [] \<Rightarrow> [[c]] | l # ls \<Rightarrow> (c # l) # ls))"

fun read_records :: "serde \<Rightarrow> string list \<Rightarrow> relay_event list res" where
  "read_records S [] = Inr []"
| "read_records S (l # ls) =
     guard (l \<noteq> []) ''empty journal record''
     (guard (length l \<le> RELAY_MAX_FRAME) ''oversized journal record''
     (case read_event S l of
        None \<Rightarrow> Inl ''bad journal event''
      | Some e \<Rightarrow> bind_res (read_records S ls) (\<lambda>es. Inr (e # es))))"

fun load_records :: "crypto \<Rightarrow> elements_lib \<Rightarrow> store \<Rightarrow> relay_event list \<Rightarrow> store res" where
  "load_records cr L st [] = Inr st"
| "load_records cr L st (e # es) =
     bind_res (prepare cr L st (e_receipt e)) (\<lambda>(expected, _).
       guard (expected = Some e) ''noncanonical or duplicate journal event''
         (load_records cr L (st\<lparr>st_events := st_events st @ [e]\<rparr>) es))"

definition hex_64 :: "string \<Rightarrow> bool" where
  "hex_64 s \<longleftrightarrow> length s = 64 \<and> list_all (\<lambda>c. c \<in> set ''0123456789abcdefABCDEF'') s"

definition open_header :: "serde \<Rightarrow> validated_profile \<Rightarrow> string \<Rightarrow> nat option \<Rightarrow> string
    \<Rightarrow> (journal_header \<times> relay_event list \<times> string) res" where
  "open_header S vp random_id io bytes =
     (if bytes = []
      then let h = \<lparr>hd_version = 1, hd_profile = vp_id vp, hd_stream = random_id\<rparr> in
           (case append_journal bytes io (header_json h) of
              (_, Inl msg) \<Rightarrow> Inl msg
            | (file, Inr _) \<Rightarrow> Inr (h, [], file))
      else guard (last bytes = CHR 0x0A) ''torn journal: preserve it and restore from verified evidence''
        (let ls = split_lines (butlast bytes) in
         (case read_header S (hd ls) of
            None \<Rightarrow> Inl ''bad journal header''
          | Some h \<Rightarrow> bind_res (read_records S (tl ls)) (\<lambda>es. Inr (h, es, bytes)))))"

definition open_store :: "crypto \<Rightarrow> elements_lib \<Rightarrow> serde \<Rightarrow> validated_profile \<Rightarrow> string \<Rightarrow> nat option \<Rightarrow> string
    \<Rightarrow> store res" where
  "open_store cr L S vp random_id io bytes =
     guard (length bytes \<le> MAX_JOURNAL) ''oversized journal''
     (bind_res (open_header S vp random_id io bytes) (\<lambda>(h, records, file).
        guard (\<not> (hd_version h \<noteq> 1 \<or> hd_profile h \<noteq> vp_id vp \<or> \<not> hex_64 (hd_stream h))) ''journal/profile mismatch''
          (load_records cr L \<lparr>st_profile = vp, st_stream = hd_stream h, st_events = [], st_journal = file,
             st_failed = False\<rparr> records)))"

section \<open>Tracker\<close>

record tracker =
  t_cursor :: "relay_cursor option"
  t_caught_up :: bool
  t_through :: "nat option"

definition new_tracker :: tracker where
  "new_tracker = \<lparr>t_cursor = None, t_caught_up = False, t_through = None\<rparr>"

definition disconnected :: "tracker \<Rightarrow> tracker" where
  "disconnected t = t\<lparr>t_caught_up := False, t_through := None\<rparr>"

definition max_events :: "validated_profile \<Rightarrow> nat" where
  "max_events vp = length (vp_bonds vp) * 2"

definition track_begin :: "validated_profile \<Rightarrow> tracker \<Rightarrow> string \<Rightarrow> string \<Rightarrow> nat \<Rightarrow> nat \<Rightarrow> tracker res" where
  "track_begin vp t profile stream from through =
     guard (\<not> (t_through t \<noteq> None \<or> profile \<noteq> vp_id vp \<or> through < from \<or> through > max_events vp \<or> \<not> hex_64 stream))
       ''invalid synchronization header''
     (let ok = Inr (t\<lparr>t_cursor := Some \<lparr>k_stream = stream, k_seq = from\<rparr>, t_through := Some through, t_caught_up := False\<rparr>) in
      (case t_cursor t of
         Some c \<Rightarrow> guard (\<not> (k_stream c \<noteq> stream \<or> k_seq c \<noteq> from)) ''stream/cursor gap'' ok
       | None \<Rightarrow> guard (\<not> from \<noteq> 0) ''snapshot must start at zero'' ok))"

text \<open>\<open>Some(event.seq) > self.through\<close> compares options; the first disjunct covers an absent one.\<close>

definition track_event :: "crypto \<Rightarrow> elements_lib \<Rightarrow> validated_profile \<Rightarrow> tracker \<Rightarrow> relay_event
    \<Rightarrow> (operator_receipt option \<times> tracker) res" where
  "track_event cr L vp t e =
     (case t_cursor t of
        None \<Rightarrow> Inl ''event before begin''
      | Some c \<Rightarrow>
          guard (\<not> (t_through t = None \<or> e_seq e \<noteq> k_seq c + 1 \<or> e_seq e > max_events vp
              \<or> (\<not> t_caught_up t \<and> e_seq e > the (t_through t)))) ''event sequence gap''
          (bind_res (profile_verify cr L vp (e_receipt e)) (\<lambda>_.
             let ok = Inr (Some (e_receipt e), t\<lparr>t_cursor := Some (c\<lparr>k_seq := e_seq e\<rparr>)\<rparr>) in
             (case e_conflict_with e of
                None \<Rightarrow> ok
              | Some d \<Rightarrow> bind_res (profile_verify cr L vp d) (\<lambda>_.
                  guard (\<not> (r_bond d \<noteq> r_bond (e_receipt e) \<or> r_txid d = r_txid (e_receipt e)))
                    ''invalid conflict evidence'' ok)))))"

definition process_inner :: "crypto \<Rightarrow> elements_lib \<Rightarrow> validated_profile \<Rightarrow> tracker \<Rightarrow> server_message
    \<Rightarrow> (operator_receipt option \<times> tracker) res" where
  "process_inner cr L vp t m =
     (case m of
        Begin profile stream from through \<Rightarrow>
          bind_res (track_begin vp t profile stream from through) (\<lambda>t'. Inr (None, t'))
      | EventMessage e \<Rightarrow> track_event cr L vp t e
      | CaughtUp c \<Rightarrow>
          guard (\<not> (t_caught_up t \<or> t_cursor t \<noteq> Some c \<or> t_through t \<noteq> Some (k_seq c))) ''incomplete replay''
            (Inr (None, t\<lparr>t_caught_up := True\<rparr>))
      | Heartbeat c \<Rightarrow>
          guard (\<not> (\<not> t_caught_up t \<or> t_cursor t \<noteq> Some c)) ''heartbeat gap'' (Inr (None, t))
      | Published _ _ \<Rightarrow> Inr (None, t)
      | ErrorMessage _ \<Rightarrow> Inl ''relay reported unavailable/gap'')"

text \<open>\<open>process\<close> returns its result and leaves a disconnected tracker behind on an error.\<close>

definition tracker_process :: "crypto \<Rightarrow> elements_lib \<Rightarrow> validated_profile \<Rightarrow> tracker \<Rightarrow> server_message
    \<Rightarrow> operator_receipt option res \<times> tracker" where
  "tracker_process cr L vp t m =
     (case process_inner cr L vp t m of
        Inl msg \<Rightarrow> (Inl msg, disconnected t)
      | Inr (r, t') \<Rightarrow> (Inr r, t'))"

end
