(* ===== verification/Relay_Store.thy ===== *)
theory Relay_Store
  imports Relay
begin

text \<open>
  The journal of the relay: an abstract description of the retained events, its preservation by
  \<open>publish\<close>, the bounds that follow from it, and that a journal is read back as the store that wrote it.
\<close>

section \<open>Retained events\<close>

definition of_bond :: "outpoint \<Rightarrow> relay_event list \<Rightarrow> relay_event list" where
  "of_bond b es = filter (\<lambda>e. r_bond (e_receipt e) = b) es"

definition first_receipt :: "relay_event list \<Rightarrow> operator_receipt option" where
  "first_receipt es = (case es of [] \<Rightarrow> None | d # _ \<Rightarrow> Some (e_receipt d))"

text \<open>
  Events are numbered from 1, verified, at most two for a bond with different transactions, and the
  second one names the first.
\<close>

inductive journal_ok :: "(operator_receipt \<Rightarrow> unit res) \<Rightarrow> relay_event list \<Rightarrow> bool" for vf where
  journal_Nil: "journal_ok vf []"
| journal_snoc: "journal_ok vf es \<Longrightarrow> vf (e_receipt e) = Inr () \<Longrightarrow> e_seq e = Suc (length es)
    \<Longrightarrow> \<forall>d \<in> set (of_bond (r_bond (e_receipt e)) es). r_txid (e_receipt d) \<noteq> r_txid (e_receipt e)
    \<Longrightarrow> length (of_bond (r_bond (e_receipt e)) es) < 2
    \<Longrightarrow> e_conflict_with e = first_receipt (of_bond (r_bond (e_receipt e)) es)
    \<Longrightarrow> journal_ok vf (es @ [e])"

inductive_simps journal_snoc_iff: "journal_ok vf (es @ [e])"

lemma of_bond_simps [simp]:
  "of_bond b [] = []"
  "of_bond b (es @ es') = of_bond b es @ of_bond b es'"
  "of_bond b [e] = (if r_bond (e_receipt e) = b then [e] else [])"
  by (simp_all add: of_bond_def)

lemma set_of_bond: "d \<in> set (of_bond b es) \<longleftrightarrow> d \<in> set es \<and> r_bond (e_receipt d) = b"
  by (simp add: of_bond_def)

lemma journal_prefix: "journal_ok vf (es @ es') \<Longrightarrow> journal_ok vf es"
proof (induction es' rule: rev_induct)
  case (snoc e es')
  then show ?case by (simp flip: append_assoc add: journal_snoc_iff)
qed simp

lemma journal_bond:
  assumes "journal_ok vf es"
  shows "length (of_bond b es) \<le> 2 \<and> distinct (map (\<lambda>e. r_txid (e_receipt e)) (of_bond b es))"
  using assms by (induction rule: journal_ok.induct) auto

lemma journal_seq: "journal_ok vf es \<Longrightarrow> map e_seq es = [1..<Suc (length es)]"
  by (induction rule: journal_ok.induct) simp_all

lemma journal_nth_seq: "journal_ok vf es \<Longrightarrow> n < length es \<Longrightarrow> e_seq (es ! n) = Suc n"
  by (induction rule: journal_ok.induct) (auto simp: nth_append less_Suc_eq)

lemma journal_verified: "journal_ok vf es \<Longrightarrow> e \<in> set es \<Longrightarrow> vf (e_receipt e) = Inr ()"
  by (induction rule: journal_ok.induct) auto

lemma journal_conflict:
  assumes "journal_ok vf es" and "e \<in> set es" and "e_conflict_with e = Some d"
  shows "r_bond d = r_bond (e_receipt e) \<and> r_txid d \<noteq> r_txid (e_receipt e) \<and> vf d = Inr ()"
  using assms
proof (induction rule: journal_ok.induct)
  case (journal_snoc es e')
  show ?case
  proof (cases "e \<in> set es")
    case True
    with journal_snoc show ?thesis by blast
  next
    case False
    with journal_snoc have e: "e = e'" by simp
    have first: "first_receipt (of_bond (r_bond (e_receipt e)) es) = Some d"
      using journal_snoc.hyps(6) journal_snoc.prems(2) e by simp
    obtain d' where "d' \<in> set (of_bond (r_bond (e_receipt e)) es)" "d = e_receipt d'"
    proof (cases "of_bond (r_bond (e_receipt e)) es")
      case (Cons d' ds)
      with first that [of d'] show ?thesis by (simp add: first_receipt_def)
    qed (use first in \<open>simp add: first_receipt_def\<close>)
    then have "d' \<in> set es" "r_bond d = r_bond (e_receipt e)" "r_txid d \<noteq> r_txid (e_receipt e)"
      using journal_snoc.hyps(4) e by (simp_all add: set_of_bond)
    with journal_verified [OF journal_snoc.hyps(1)] \<open>d = e_receipt d'\<close> show ?thesis by blast
  qed
qed simp

lemma journal_second:
  assumes "journal_ok vf es" and "length (of_bond b es) = 2"
  obtains d e where "d \<in> set es" "e \<in> set es" "r_bond (e_receipt e) = b" "e_conflict_with e = Some (e_receipt d)"
proof -
  have "length (of_bond b es) = 2 \<Longrightarrow> \<exists>d \<in> set es. \<exists>e \<in> set es. r_bond (e_receipt e) = b \<and> e_conflict_with e = Some (e_receipt d)"
    using assms(1)
  proof (induction rule: journal_ok.induct)
    case (journal_snoc es e)
    show ?case
    proof (cases "r_bond (e_receipt e) = b")
      case True
      with journal_snoc.prems have "length (of_bond b es) = 1" by simp
      then obtain d where d: "of_bond b es = [d]" by (auto simp: length_Suc_conv)
      then have "d \<in> set es" using set_of_bond [of d b es] by simp
      with journal_snoc.hyps(6) d True show ?thesis by (force simp: first_receipt_def)
    next
      case False
      with journal_snoc show ?thesis by fastforce
    qed
  qed simp
  with assms(2) that show thesis by blast
qed

lemma two_events:
  assumes "journal_ok vf es" "e1 \<in> set es" "e2 \<in> set es" "r_bond (e_receipt e1) = b" "r_bond (e_receipt e2) = b" "e1 \<noteq> e2"
  shows "length (of_bond b es) = 2"
proof -
  have "card {e1, e2} \<le> card (set (of_bond b es))" using assms by (intro card_mono) (auto simp: set_of_bond)
  then have "2 \<le> length (of_bond b es)" using assms(6) card_length [of "of_bond b es"] by simp
  with journal_bond [OF assms(1), of b] show ?thesis by simp
qed

text \<open>Only receipts of the profile are verified, so there are at most two events for each bond.\<close>

lemma journal_length:
  assumes "journal_ok vf es" and "\<And>r. vf r = Inr () \<Longrightarrow> r_bond r \<in> set bs" and "distinct bs"
  shows "length es \<le> 2 * length bs"
proof -
  have "r_bond (e_receipt e) \<in> set bs" if "e \<in> set es" for e
    using that journal_verified [OF assms(1)] assms(2) by blast
  then have "length es = sum_list (map (\<lambda>b. length (of_bond b es)) bs)"
    using assms(3)
  proof (induction es)
    case (Cons e es)
    have "sum_list (map (\<lambda>b. length (of_bond b (e # es))) bs) =
        sum_list (map (\<lambda>b. (if b = r_bond (e_receipt e) then 1 else 0) + length (of_bond b es)) bs)"
      by (intro arg_cong [where f = sum_list] map_cong) (auto simp: of_bond_def)
    also have "\<dots> = 1 + sum_list (map (\<lambda>b. length (of_bond b es)) bs)"
      using Cons.prems by (simp add: sum_list_addf sum_list_map_eq_sum_count [symmetric]
          sum_list_distinct_conv_sum_set)
    finally show ?case using Cons by simp
  qed simp
  also have "\<dots> \<le> sum_list (map (\<lambda>_. 2) bs)"
    using journal_bond [OF assms(1)] by (intro sum_list_mono) simp
  finally show ?thesis by (simp add: sum_list_triv)
qed

section \<open>Preparing an event\<close>

lemma find_SomeD: "find Q xs = Some x \<Longrightarrow> x \<in> set xs \<and> Q x"
  by (induction xs) (auto split: if_splits)

lemma prepare_stored:
  assumes "\<not> st_failed st" "journal_ok (profile_verify cr L (st_profile st)) (st_events st @ [e])"
  shows "prepare cr L st (e_receipt e) = Inr (Some e, ''stored'', e_seq e)"
proof -
  let ?p = "of_bond (r_bond (e_receipt e)) (st_events st)"
  from assms(2) have e: "profile_verify cr L (st_profile st) (e_receipt e) = Inr ()" "e_seq e = Suc (length (st_events st))" "length ?p < 2"
    "\<forall>d \<in> set ?p. r_txid (e_receipt d) \<noteq> r_txid (e_receipt e)" "e_conflict_with e = first_receipt ?p"
    by (simp_all add: journal_snoc_iff)
  have "find (\<lambda>d. r_txid (e_receipt d) = r_txid (e_receipt e)) ?p = None"
    unfolding find_None_iff using e(4) by blast
  with e assms(1) show ?thesis
    by (simp add: prepare_def store_head_def Let_def first_receipt_def flip: of_bond_def)
qed

lemma prepare_cases:
  assumes "prepare cr L st r = Inr (res, status, n)" and ok: "journal_ok (profile_verify cr L (st_profile st)) (st_events st)"
  obtains (stored) e where "res = Some e" "status = ''stored''" "e_receipt e = r" "n = e_seq e" "journal_ok (profile_verify cr L (st_profile st)) (st_events st @ [e])"
    | (duplicate) d where "res = None" "status = ''duplicate''" "d \<in> set (st_events st)" "r_bond (e_receipt d) = r_bond r"
        "r_txid (e_receipt d) = r_txid r" "n = e_seq d"
    | (conflicted) "res = None" "status = ''already_conflicted''" "length (of_bond (r_bond r) (st_events st)) = 2"
proof -
  let ?p = "of_bond (r_bond r) (st_events st)"
  let ?e = "\<lparr>e_seq = store_head st + 1, e_receipt = r, e_conflict_with = first_receipt ?p\<rparr>"
  have nf: "\<not> st_failed st" using assms(1) by (simp add: prepare_def split: if_splits)
  have v: "profile_verify cr L (st_profile st) r = Inr ()" using assms(1) nf by (simp add: prepare_def bind_res_Inr)
  have p: "prepare cr L st r = (case find (\<lambda>e. r_txid (e_receipt e) = r_txid r) ?p of
      Some d \<Rightarrow> Inr (None, ''duplicate'', e_seq d)
    | None \<Rightarrow> if length ?p = 2 then Inr (None, ''already_conflicted'', e_seq (?p ! 1)) else Inr (Some ?e, ''stored'', e_seq ?e))"
    unfolding prepare_def of_bond_def first_receipt_def Let_def using nf v by simp
  show thesis
  proof (cases "find (\<lambda>e. r_txid (e_receipt e) = r_txid r) ?p")
    case (Some d)
    with p assms(1) have r: "res = None" "status = ''duplicate''" "n = e_seq d" by simp_all
    from find_SomeD [OF Some] have "d \<in> set (st_events st)" "r_bond (e_receipt d) = r_bond r" "r_txid (e_receipt d) = r_txid r"
      by (simp_all add: set_of_bond)
    from duplicate [OF r(1,2) this r(3)] show ?thesis .
  next
    case None
    show ?thesis
    proof (cases "length ?p = 2")
      case True
      with None p assms(1) have "res = None" "status = ''already_conflicted''" by simp_all
      from conflicted [OF this True] show ?thesis .
    next
      case False
      with None p assms(1) have r: "res = Some ?e" "status = ''stored''" "n = e_seq ?e" by simp_all
      have "journal_ok (profile_verify cr L (st_profile st)) (st_events st @ [?e])"
      proof (rule journal_snoc [OF ok])
        show "length (of_bond (r_bond (e_receipt ?e)) (st_events st)) < 2"
          using False journal_bond [OF ok, of "r_bond r"] by simp
        show "\<forall>d \<in> set (of_bond (r_bond (e_receipt ?e)) (st_events st)). r_txid (e_receipt d) \<noteq> r_txid (e_receipt ?e)"
          using None unfolding find_None_iff by auto
      qed (simp_all add: v store_head_def)
      with r show ?thesis by (intro stored [of ?e]) simp_all
    qed
  qed
qed

lemma load_records_ok:
  assumes "\<not> st_failed st" "journal_ok (profile_verify cr L (st_profile st)) (st_events st @ es)"
  shows "load_records cr L st es = Inr (st\<lparr>st_events := st_events st @ es\<rparr>)"
  using assms
proof (induction es arbitrary: st)
  case (Cons e es)
  then have "journal_ok (profile_verify cr L (st_profile st)) (st_events st @ [e])" using journal_prefix [of "profile_verify cr L (st_profile st)" "st_events st @ [e]" es] by simp
  note prepare_stored [OF Cons.prems(1) this]
  with Cons.IH [of "st\<lparr>st_events := st_events st @ [e]\<rparr>"] Cons.prems show ?case by simp
qed simp

section \<open>Journal text\<close>

abbreviation NL :: char where
  "NL \<equiv> CHR 0x0A"

lemma hex_digit_no_NL: "n < 256 \<Longrightarrow> hex_digit (n div 16) \<noteq> NL \<and> hex_digit (n mod 16) \<noteq> NL"
proof -
  have "list_all (\<lambda>d. hex_digit d \<noteq> NL) [0..<16]" by code_simp
  then have "d < 16 \<Longrightarrow> hex_digit d \<noteq> NL" for d by (simp add: list_all_iff)
  then show "n < 256 \<Longrightarrow> ?thesis" by simp
qed

lemma escape_no_NL: "NL \<notin> set (escape_char c)"
proof (cases "short_escape c")
  case None
  then have "c \<noteq> NL" by (auto simp: short_escape_def)
  moreover have "of_char c < (32 :: nat) \<Longrightarrow> hex_digit (of_char c div 16) \<noteq> NL \<and> hex_digit (of_char c mod 16) \<noteq> NL"
    by (rule hex_digit_no_NL) simp
  ultimately show ?thesis using None by (auto simp: escape_char_def)
next
  case (Some d)
  then have "d \<noteq> NL" by (auto simp: short_escape_def split: if_splits)
  with Some show ?thesis by (simp add: escape_char_def)
qed

lemma quote_no_NL: "NL \<notin> set (quote s)"
  using escape_no_NL by (auto simp: quote_def)

lemma digits_no_NL: "list_all is_digit s \<Longrightarrow> NL \<notin> set s"
proof -
  have "\<not> is_digit NL" by (simp add: is_digit_def)
  then show "list_all is_digit s \<Longrightarrow> NL \<notin> set s" by (auto simp: list_all_iff)
qed

lemma commas_no_NL: "(\<And>s. s \<in> set ss \<Longrightarrow> NL \<notin> set s) \<Longrightarrow> NL \<notin> set (commas ss)"
  by (induction ss rule: commas.induct) auto

lemma json_print_no_NL: "NL \<notin> set (json_print v)"
proof (induction v rule: json_print.induct)
  case (3 r)
  show ?case using digits_no_NL [OF show_nat_digits] by (simp add: show_int_def)
next
  case (6 vs)
  then show ?case by (auto intro!: commas_no_NL)
next
  case (7 kvs)
  then show ?case using quote_no_NL by (auto intro!: commas_no_NL)
qed (simp_all add: quote_no_NL)

text \<open>Lines that each end with a newline.\<close>

definition unlines :: "string list \<Rightarrow> string" where
  "unlines ls = concat (map (\<lambda>l. l @ [NL]) ls)"

lemma split_line: "NL \<notin> set l \<Longrightarrow> split_lines (l @ NL # cs) = l # split_lines cs"
  by (induction l) auto

lemma split_single: "NL \<notin> set l \<Longrightarrow> split_lines l = [l]"
  by (induction l) auto

lemma unlines_simps [simp]: "unlines [] = []" "unlines (l # ls) = l @ NL # unlines ls" "unlines (ls @ ls') = unlines ls @ unlines ls'"
  by (simp_all add: unlines_def)

lemma unlines_Nil [simp]: "unlines ls = [] \<longleftrightarrow> ls = []"
  by (cases ls) simp_all

lemma last_unlines: "ls \<noteq> [] \<Longrightarrow> last (unlines ls) = NL"
  by (induction ls) auto

lemma split_unlines: "ls \<noteq> [] \<Longrightarrow> (\<And>l. l \<in> set ls \<Longrightarrow> NL \<notin> set l) \<Longrightarrow> split_lines (butlast (unlines ls)) = ls"
proof (induction ls)
  case (Cons l ls)
  show ?case
  proof (cases "ls = []")
    case True
    with Cons.prems show ?thesis by (simp add: split_single butlast_append)
  next
    case False
    then have "butlast (unlines (l # ls)) = l @ NL # butlast (unlines ls)" by (simp add: butlast_append)
    with Cons False show ?thesis by (simp add: split_line)
  qed
qed simp

definition event_lines :: "serde \<Rightarrow> relay_event list \<Rightarrow> string list" where
  "event_lines S es = map (\<lambda>e. json_print (event_json S e)) es"

definition store_header :: "store \<Rightarrow> journal_header" where
  "store_header st = \<lparr>hd_version = 1, hd_profile = vp_id (st_profile st), hd_stream = st_stream st\<rparr>"

definition journal_text :: "serde \<Rightarrow> journal_header \<Rightarrow> relay_event list \<Rightarrow> string" where
  "journal_text S h es = unlines (json_print (header_json h) # event_lines S es)"

section \<open>Sizes\<close>

lemma hex_char_lower: "n < 16 \<Longrightarrow> is_lower_hex (hex_char n)"
proof -
  have "list_all (\<lambda>d. is_lower_hex (hex_char d)) [0..<16]" by code_simp
  then show "n < 16 \<Longrightarrow> is_lower_hex (hex_char n)" by (simp add: list_all_iff)
qed

lemma hex_encode_hex: "hex_string (2 * length bs) (hex_encode bs)"
proof -
  have "list_all is_lower_hex (hex_byte b)" for b
  proof -
    have "unat b < 256" using unsigned_less [of b, where ?'a = nat] by simp
    then show ?thesis by (simp add: hex_byte_def hex_char_lower)
  qed
  then have "list_all is_lower_hex (hex_encode bs)" by (induction bs) (simp_all add: hex_encode_def)
  then show ?thesis by (simp add: hex_string_def)
qed

lemma show_signature_hex: "hex_string 128 (show_signature s)"
  using hex_encode_hex [of "be_bytes 64 s"] by (simp add: show_signature_def)

lemma plain_show_nat: "plain_string (show_nat n)"
proof -
  have "set ''0123456789'' \<subseteq> set ''0123456789abcdef''" by simp
  then have "is_digit c \<Longrightarrow> is_lower_hex c" for c unfolding is_digit_def is_lower_hex_def by (rule subsetD)
  with show_nat_digits [of n] show ?thesis by (auto simp: plain_string_def list_all_iff)
qed

lemma show_outpoint_plain:
  assumes "serde_ok S"
  shows "plain_string (show_outpoint S b) \<and> length (show_outpoint S b) \<le> 75"
proof -
  have t: "hex_string 64 (show_txid S (op_txid b))" using assms by (simp add: serde_ok_def)
  have "unat (op_vout b) < 10 ^ Suc 9" using unsigned_less [of "op_vout b", where ?'a = nat] by simp
  from length_show_nat [OF this] have "length (show_nat (unat (op_vout b))) \<le> 10" by simp
  with t plain_hex [OF t] plain_show_nat show ?thesis by (simp add: show_outpoint_def hex_string_def)
qed

lemma wire_ok_receipt: "wire_ok (receipt_json S r)"
  by (simp add: receipt_json_def)

lemma wire_ok_event: "e_seq e \<le> 9007199254740991 \<Longrightarrow> wire_ok (event_json S e)"
  using wire_ok_receipt unfolding event_json_def by (intro wire_ok_messages(4)) auto

lemma wire_ok_cursor: "k_seq c \<le> 9007199254740991 \<Longrightarrow> wire_ok (cursor_json c)"
  by (simp add: cursor_json_def)

lemma wire_ok_client: "small_client m \<Longrightarrow> wire_ok (client_json S m)"
  by (auto simp: client_json_def small_client_def wire_ok_receipt wire_ok_cursor split: client_message.splits option.splits)

lemma wire_ok_server: "small_server m \<Longrightarrow> wire_ok (server_json S m)"
  by (auto simp: server_json_def small_server_def wire_ok_event wire_ok_cursor split: server_message.splits)

lemma length_receipt_json:
  assumes "serde_ok S"
  shows "length (json_print (receipt_json S r)) \<le> 303"
proof -
  have t: "hex_string 64 (show_txid S (r_txid r))" using assms by (simp add: serde_ok_def)
  from show_outpoint_plain [OF assms, of "r_bond r"] plain_hex [OF t] plain_hex [OF show_signature_hex] t show_signature_hex
  show ?thesis by (simp add: receipt_json_def length_wire_receipt hex_string_def)
qed

lemma length_event_json:
  assumes "serde_ok S" "e_seq e \<le> 9007199254740991"
  shows "length (json_print (event_json S e)) \<le> 700"
proof -
  let ?o = "map_option (receipt_json S) (e_conflict_with e)"
  have "length (json_print (wire_option ?o)) \<le> 303"
    using length_receipt_json [OF assms(1)] by (simp add: wire_option_def split: option.split)
  with length_receipt_json [OF assms(1), of "e_receipt e"] length_wire_event [OF assms(2), of "receipt_json S (e_receipt e)" ?o]
  have "length (json_print (wire_event (event_json S e))) \<le> 700" by (simp add: event_json_def)
  moreover have "length (json_print (event_json S e)) \<le> length (json_print (wire_event (event_json S e)))"
    by (simp add: wire_event_def)
  ultimately show ?thesis by simp
qed

lemma event_line_nonempty: "json_print (event_json S e) \<noteq> []"
  by (simp add: event_json_def wire_record_def)

section \<open>Stores\<close>

text \<open>A profile as \<open>validate\<close> returns it: its identifier is a hash and its bonds are distinct.\<close>

definition profile_ok :: "validated_profile \<Rightarrow> bool" where
  "profile_ok vp \<longleftrightarrow> hex_string 64 (vp_id vp) \<and> length (vp_bonds vp) \<le> MAX_SESSIONS \<and> distinct (map fst (vp_bonds vp))"

lemma validate_sessions_bonds:
  assumes "validate_sessions cr L taproot c bs prot ss = Inr bs'" "distinct (map fst bs)"
  shows "distinct (map fst bs') \<and> length bs' = length bs + length ss
    \<and> (\<forall>(b, B) \<in> set bs'. (b, B) \<in> set bs \<or> (\<exists>s \<in> set ss. s_bond s = b \<and> operator_compile cr L taproot (s_config s) = Inr B))"
  using assms
proof (induction ss arbitrary: bs prot)
  case (Cons s ss)
  then obtain B where B: "operator_compile cr L taproot (s_config s) = Inr B" "s_bond s \<notin> fst ` set bs"
    "validate_sessions cr L taproot c (bs @ [(s_bond s, B)]) (c_protected_output (s_config s) # prot) ss = Inr bs'"
    by (auto simp: bind_res_Inr guard_Inr)
  from Cons.IH [OF B(3)] Cons.prems(2) B(1,2) show ?case by fastforce
qed auto

lemma profile_validate_bonds:
  assumes "profile_validate cr L taproot profile_id p = Inr vp"
  shows "distinct (map fst (vp_bonds vp))" "length (vp_bonds vp) = length (p_sessions p)" "length (vp_bonds vp) \<le> MAX_SESSIONS"
    "(b, B) \<in> set (vp_bonds vp) \<Longrightarrow> \<exists>s \<in> set (p_sessions p). s_bond s = b \<and> operator_compile cr L taproot (s_config s) = Inr B"
proof -
  let ?ss = "sort_key (\<lambda>s. outpoint_key (s_bond s)) (p_sessions p)"
  from assms have "validate_sessions cr L taproot (s_config (hd ?ss)) [] [] ?ss = Inr (vp_bonds vp)"
    and n: "length (p_sessions p) \<le> MAX_SESSIONS"
    by (auto simp: profile_validate_def bind_res_Inr guard_Inr Let_def)
  from validate_sessions_bonds [OF this(1)] n
  show "distinct (map fst (vp_bonds vp))" "length (vp_bonds vp) = length (p_sessions p)" "length (vp_bonds vp) \<le> MAX_SESSIONS"
    "(b, B) \<in> set (vp_bonds vp) \<Longrightarrow> \<exists>s \<in> set (p_sessions p). s_bond s = b \<and> operator_compile cr L taproot (s_config s) = Inr B"
    by auto
qed

lemma profile_validate_ok:
  "profile_validate cr L taproot profile_id p = Inr vp \<Longrightarrow> hex_string 64 (vp_id vp) \<Longrightarrow> profile_ok vp"
  using profile_validate_bonds by (simp add: profile_ok_def)

definition store_ok :: "crypto \<Rightarrow> elements_lib \<Rightarrow> store \<Rightarrow> bool" where
  "store_ok cr L st \<longleftrightarrow> profile_ok (st_profile st)
     \<and> journal_ok (profile_verify cr L (st_profile st)) (st_events st) \<and> hex_64 (st_stream st)"

text \<open>The journal holds exactly what the relay wrote.\<close>

definition journaled :: "serde \<Rightarrow> store \<Rightarrow> bool" where
  "journaled S st \<longleftrightarrow> st_journal st = journal_text S (store_header st) (st_events st)"

lemma profile_verify_bond: "profile_verify cr L vp r = Inr () \<Longrightarrow> r_bond r \<in> set (map fst (vp_bonds vp))"
  by (auto simp: profile_verify_def split: option.splits dest!: map_of_SomeD intro: rev_image_eqI)

lemma store_bounded:
  assumes "store_ok cr L st"
  shows "length (st_events st) \<le> 2 * length (vp_bonds (st_profile st))" "length (st_events st) \<le> 256"
proof -
  have p: "profile_ok (st_profile st)" using assms by (simp add: store_ok_def)
  show "length (st_events st) \<le> 2 * length (vp_bonds (st_profile st))"
    using journal_length [OF _ profile_verify_bond] assms p by (fastforce simp: store_ok_def profile_ok_def)
  with p show "length (st_events st) \<le> 256" by (simp add: profile_ok_def MAX_SESSIONS_def)
qed

lemma store_seq_small:
  assumes "store_ok cr L st" "e \<in> set (st_events st)"
  shows "e_seq e \<le> 256"
proof -
  have "e_seq e \<in> set (map e_seq (st_events st))" using assms(2) by simp
  moreover have "map e_seq (st_events st) = [1..<Suc (length (st_events st))]"
    using assms(1) journal_seq unfolding store_ok_def by blast
  ultimately have "e_seq e \<in> set [1..<Suc (length (st_events st))]" by (simp only:)
  with store_bounded(2) [OF assms(1)] show ?thesis by auto
qed

end
