(* ===== verification/Relay_Journal.thy ===== *)
theory Relay_Journal
  imports Relay_Store
begin

text \<open>
  Operations of the relay's store: a journal is read back as the events it lists, a publication keeps
  the store well formed, and every opened store is well formed.
\<close>

section \<open>Reading a journal back\<close>

lemma length_escape: "length (escape_char c) \<le> 6"
  by (simp add: escape_char_def split: option.split)

lemma length_quote: "length (quote s) \<le> 6 * length s + 2"
proof -
  have "length (concat (map escape_char s)) \<le> 6 * length s"
    using length_escape by (induction s) (auto intro: add_mono simp: trans_le_add1)
  then show ?thesis by (simp add: quote_def)
qed

lemma length_header:
  assumes "length (hd_profile h) = 64" "length (hd_stream h) = 64" "hd_version h = 1"
  shows "length (json_print (header_json h)) \<le> 1000"
proof -
  have "length (json_print (jnat 1)) \<le> 16" by (rule length_jnat) simp
  moreover have "length (quote ''version'') \<le> 44" "length (quote ''profile'') \<le> 44" "length (quote ''stream'') \<le> 38"
    using length_quote [of "''version''"] length_quote [of "''profile''"] length_quote [of "''stream''"] by simp_all
  ultimately show ?thesis
    using length_quote [of "hd_profile h"] length_quote [of "hd_stream h"] assms by (simp add: header_json_def)
qed

lemma length_unlines: "\<forall>l \<in> set ls. length l \<le> n \<Longrightarrow> length (unlines ls) \<le> Suc n * length ls"
  by (induction ls) fastforce+

lemma read_event_lines:
  assumes "serde_ok S" "\<forall>e \<in> set es. e_seq e \<le> 256"
  shows "read_records S (event_lines S es) = Inr es"
  using assms(2)
proof (induction es)
  case (Cons e es)
  have small: "e_seq e \<le> 9007199254740991" using Cons.prems by simp
  then have "read_event S (json_print (event_json S e)) = Some e" using assms(1) by (simp add: serde_ok_def)
  moreover have "length (json_print (event_json S e)) \<le> RELAY_MAX_FRAME"
    using length_event_json [OF assms(1) small] by (simp add: RELAY_MAX_FRAME_def)
  ultimately show ?case using Cons by (simp add: event_lines_def event_line_nonempty)
qed (simp add: event_lines_def)

lemma journal_text_lines:
  "journal_text S h es \<noteq> []" "last (journal_text S h es) = NL"
  "split_lines (butlast (journal_text S h es)) = json_print (header_json h) # event_lines S es"
proof -
  let ?ls = "json_print (header_json h) # event_lines S es"
  have "NL \<notin> set l" if "l \<in> set ?ls" for l using that json_print_no_NL by (auto simp: event_lines_def)
  then show "split_lines (butlast (journal_text S h es)) = ?ls" unfolding journal_text_def by (intro split_unlines) simp_all
  show "last (journal_text S h es) = NL" unfolding journal_text_def by (rule last_unlines) simp
qed (simp add: journal_text_def)

lemma event_line_sizes:
  assumes "serde_ok S" "\<forall>e \<in> set es. e_seq e \<le> 256"
  shows "length (unlines (event_lines S es)) \<le> 701 * length es"
proof -
  have "length l \<le> 700" if l: "l \<in> set (event_lines S es)" for l
  proof -
    from l obtain e where "e \<in> set es" "l = json_print (event_json S e)" by (auto simp: event_lines_def)
    moreover from this assms(2) have "e_seq e \<le> 9007199254740991" by fastforce
    ultimately show ?thesis using length_event_json [OF assms(1)] by simp
  qed
  then have "\<forall>l \<in> set (event_lines S es). length l \<le> 700" by blast
  from length_unlines [OF this] show ?thesis by (simp add: event_lines_def)
qed

lemma open_text:
  assumes S: "serde_ok S" and vp: "profile_ok vp" and es: "journal_ok (profile_verify cr L vp) es" and st: "hex_64 stream"
  defines "h \<equiv> \<lparr>hd_version = 1, hd_profile = vp_id vp, hd_stream = stream\<rparr>"
  shows "open_store cr L S vp random_id io (journal_text S h es) =
      Inr \<lparr>st_profile = vp, st_stream = stream, st_events = es, st_journal = journal_text S h es, st_failed = False\<rparr>"
    and "length (journal_text S h es) \<le> 190000"
proof -
  have ok: "store_ok cr L \<lparr>st_profile = vp, st_stream = stream, st_events = es, st_journal = [], st_failed = False\<rparr>"
    using vp es st by (simp add: store_ok_def)
  have small: "\<forall>e \<in> set es. e_seq e \<le> 256" using store_seq_small [OF ok] by simp
  have n: "length es \<le> 256" using store_bounded(2) [OF ok] by simp
  have "length (json_print (header_json h)) \<le> 1000"
    using vp st by (intro length_header) (simp_all add: h_def profile_ok_def hex_string_def hex_64_def)
  with event_line_sizes [OF S small] n show len: "length (journal_text S h es) \<le> 190000"
    by (simp add: journal_text_def)
  have "read_header S (json_print (header_json h)) = Some h" using S by (simp add: serde_ok_def h_def)
  then have "open_header S vp random_id io (journal_text S h es) = Inr (h, es, journal_text S h es)"
    by (simp add: open_header_def journal_text_lines read_event_lines [OF S small])
  with len st show "open_store cr L S vp random_id io (journal_text S h es) =
      Inr \<lparr>st_profile = vp, st_stream = stream, st_events = es, st_journal = journal_text S h es, st_failed = False\<rparr>"
    by (simp add: open_store_def MAX_JOURNAL_def h_def load_records_ok es)
qed

section \<open>Publishing\<close>

text \<open>The outcome of a publication on a store that works.\<close>

lemma publish_cases:
  assumes "publish cr L S io st r = (st', res)" and ok: "store_ok cr L st"
  obtains (refused) msg where "st' = st" "res = Inl msg"
    | (known) status where "st' = st" "res = Inr (None, status)"
    | (stored) e where "\<not> st_failed st" "e_receipt e = r" "journal_ok (profile_verify cr L (st_profile st)) (st_events st @ [e])" "res = Inr (Some e, ''stored'', e_seq e)"
        "st' = st\<lparr>st_journal := st_journal st @ json_print (event_json S e) @ [NL], st_events := st_events st @ [e]\<rparr>" "io = None"
    | (failed) e msg jr where "\<not> st_failed st" "e_receipt e = r" "journal_ok (profile_verify cr L (st_profile st)) (st_events st @ [e])" "res = Inl msg"
        "append_journal (st_journal st) io (event_json S e) = (jr, Inl msg)"
        "st' = st\<lparr>st_journal := jr, st_failed := True\<rparr>"
proof -
  have jo: "journal_ok (profile_verify cr L (st_profile st)) (st_events st)" using ok by (simp add: store_ok_def)
  show thesis
  proof (cases "prepare cr L st r")
    case (Inl msg)
    with assms(1) show ?thesis by (intro refused [of msg]) (simp_all add: publish_def)
  next
    case (Inr out)
    obtain ev status n where out: "out = (ev, status, n)" by (cases out) blast
    have nf: "\<not> st_failed st" using Inr by (auto simp: prepare_def)
    from Inr [unfolded out] jo show ?thesis
    proof (cases rule: prepare_cases)
      case (stored e)
      show ?thesis
      proof (cases "append_journal (st_journal st) io (event_json S e)")
        case (Pair jr r')
        show ?thesis
        proof (cases r')
          case (Inl msg)
          with Pair \<open>prepare cr L st r = Inr out\<close> out stored assms(1) nf show ?thesis
            by (intro failed [of e msg jr]) (simp_all add: publish_def)
        next
          case (Inr u)
          then have "io = None" "jr = st_journal st @ json_print (event_json S e) @ [NL]"
            using Pair by (auto simp: append_journal_def Let_def split: if_splits option.splits)
          with Inr Pair \<open>prepare cr L st r = Inr out\<close> out stored assms(1) nf show ?thesis
            by (intro that(3) [of e]) (simp_all add: publish_def)
        qed
      qed
    next
      case duplicate
      with Inr out assms(1) show ?thesis by (intro known [of "(status, n)"]) (simp_all add: publish_def)
    next
      case conflicted
      with Inr out assms(1) show ?thesis by (intro known [of "(status, n)"]) (simp_all add: publish_def)
    qed
  qed
qed

lemma publish_keeps_ok:
  assumes "store_ok cr L st"
  shows "store_ok cr L (fst (publish cr L S io st r))"
proof -
  obtain st' res where p: "publish cr L S io st r = (st', res)" by fastforce
  from p assms have "store_ok cr L st'"
    by (cases rule: publish_cases) (use assms in \<open>simp_all add: store_ok_def\<close>)
  with p show ?thesis by simp
qed

lemma publish_extends: "store_ok cr L st \<Longrightarrow> \<exists>es. st_events (fst (publish cr L S io st r)) = st_events st @ es"
  by (cases "publish cr L S io st r") (auto elim: publish_cases)

lemma load_records_journal:
  assumes "load_records cr L st es = Inr st'" "journal_ok (profile_verify cr L (st_profile st)) (st_events st)"
  shows "st' = st\<lparr>st_events := st_events st @ es\<rparr> \<and> journal_ok (profile_verify cr L (st_profile st)) (st_events st')"
  using assms
proof (induction es arbitrary: st)
  case (Cons e es)
  then obtain status n where p: "prepare cr L st (e_receipt e) = Inr (Some e, status, n)"
    and l: "load_records cr L (st\<lparr>st_events := st_events st @ [e]\<rparr>) es = Inr st'"
    by (auto simp: bind_res_Inr guard_Inr)
  have "journal_ok (profile_verify cr L (st_profile st)) (st_events st @ [e])"
    using p Cons.prems(2) by (cases rule: prepare_cases) simp_all
  with Cons.IH [OF l] show ?case by auto
qed simp

lemma open_store_ok:
  assumes "profile_ok vp" "open_store cr L S vp random_id io bytes = Inr st"
  shows "store_ok cr L st \<and> st_profile st = vp \<and> \<not> st_failed st"
proof -
  obtain h :: journal_header and es jr where h: "hex_64 (hd_stream h)"
    "load_records cr L \<lparr>st_profile = vp, st_stream = hd_stream h, st_events = [], st_journal = jr, st_failed = False\<rparr> es = Inr st"
  proof -
    from assms(2) obtain x where x: "open_header S vp random_id io bytes = Inr x"
      by (auto simp: open_store_def bind_res_Inr guard_Inr)
    obtain h :: journal_header and es jr where h: "x = (h, es, jr)" by (cases x) blast
    from assms(2) x h show ?thesis by (intro that [of h jr es]) (auto simp: open_store_def bind_res_Inr guard_Inr)
  qed
  from load_records_journal [OF h(2)] assms(1) h(1) journal_Nil [of "profile_verify cr L vp"] show ?thesis by (auto simp: store_ok_def)
qed

end
