(* ===== verification/Relay_History.thy ===== *)
theory Relay_History
  imports Relay_Journal
begin

text \<open>
  Histories of the relay's journal over publications, failed writes and restarts: what the file holds
  at every moment and what the next process reads from it.
\<close>

section \<open>Histories of a journal\<close>

text \<open>
  A process publishes, each time with an outcome of the write, and a later process opens the file it
  left. A crash during a write is a failed write followed by an opening.
\<close>

inductive journal_step :: "crypto \<Rightarrow> elements_lib \<Rightarrow> serde \<Rightarrow> store \<Rightarrow> store \<Rightarrow> bool" for cr L S where
  step_publish: "journal_step cr L S st (fst (publish cr L S io st r))"
| step_open: "open_store cr L S (st_profile st) random_id io (st_journal st) = Inr st' \<Longrightarrow> journal_step cr L S st st'"

definition fresh_store :: "crypto \<Rightarrow> elements_lib \<Rightarrow> serde \<Rightarrow> validated_profile \<Rightarrow> store \<Rightarrow> bool" where
  "fresh_store cr L S vp st \<longleftrightarrow> (\<exists>random_id. open_store cr L S vp random_id None [] = Inr st)"

text \<open>
  The file holds the lines of the retained events; after a failed write also the first bytes of one
  more event that could be appended.
\<close>

definition journal_state :: "crypto \<Rightarrow> elements_lib \<Rightarrow> serde \<Rightarrow> store \<Rightarrow> bool" where
  "journal_state cr L S st \<longleftrightarrow> store_ok cr L st \<and>
     (if st_failed st
      then \<exists>e k. journal_ok (profile_verify cr L (st_profile st)) (st_events st @ [e])
        \<and> st_journal st = journal_text S (store_header st) (st_events st) @ take k (json_print (event_json S e) @ [NL])
      else journaled S st)"

lemma journal_text_snoc:
  "journal_text S h (es @ [e]) = journal_text S h es @ json_print (event_json S e) @ [NL]"
  by (simp add: journal_text_def event_lines_def)

lemma store_header_update [simp]:
  "store_header (st\<lparr>st_journal := j\<rparr>) = store_header st" "store_header (st\<lparr>st_events := es\<rparr>) = store_header st"
  "store_header (st\<lparr>st_failed := b\<rparr>) = store_header st"
  by (simp_all add: store_header_def)

lemma event_fits:
  assumes "serde_ok S" "store_ok cr L st" "journal_ok (profile_verify cr L (st_profile st)) (st_events st @ [e])"
  shows "length (json_print (event_json S e)) \<le> RELAY_MAX_FRAME"
proof -
  have "store_ok cr L (st\<lparr>st_events := st_events st @ [e]\<rparr>)" using assms(2,3) by (simp add: store_ok_def)
  from store_seq_small [OF this, of e] have "e_seq e \<le> 9007199254740991" by simp
  from length_event_json [OF assms(1) this] show ?thesis by (simp add: RELAY_MAX_FRAME_def)
qed

lemma append_failed:
  assumes "append_journal jr io v = (jr', Inl msg)" "length (json_print v) \<le> RELAY_MAX_FRAME"
  obtains k where "io = Some k" "jr' = jr @ take k (json_print v @ [NL])"
  using assms by (auto simp: append_journal_def Let_def split: option.splits)

lemma publish_stored:
  assumes "serde_ok S" "store_ok cr L st" "\<not> st_failed st"
    and e: "journal_ok (profile_verify cr L (st_profile st)) (st_events st @ [e])"
  shows "publish cr L S None st (e_receipt e) = (st\<lparr>st_journal := st_journal st @ json_print (event_json S e) @ [NL],
      st_events := st_events st @ [e]\<rparr>, Inr (Some e, ''stored'', e_seq e))"
  using prepare_stored [OF assms(3) e] event_fits [OF assms(1,2) e] by (simp add: publish_def append_journal_def)

lemma journal_state_publish:
  assumes S: "serde_ok S" and st: "journal_state cr L S st"
  shows "journal_state cr L S (fst (publish cr L S io st r))"
proof -
  obtain st' res where p: "publish cr L S io st r = (st', res)" by fastforce
  have ok: "store_ok cr L st" using st by (simp add: journal_state_def)
  have ok': "store_ok cr L st'" using publish_keeps_ok [OF ok, of S io r] p by simp
  from p ok have "journal_state cr L S st'"
  proof (cases rule: publish_cases)
    case (stored e)
    with st ok' show ?thesis by (simp add: journal_state_def journaled_def journal_text_snoc)
  next
    case (failed e msg jr)
    obtain k where "jr = st_journal st @ take k (json_print (event_json S e) @ [NL])"
      using append_failed [OF failed(5) event_fits [OF S ok failed(3)]] by blast
    with failed st ok' show ?thesis by (auto simp: journal_state_def journaled_def)
  qed (use st in simp_all)
  with p show ?thesis by simp
qed

text \<open>Bytes that end before the newline of the last record are refused.\<close>

lemma open_torn:
  assumes "bytes \<noteq> []" "last bytes \<noteq> NL" "length bytes \<le> MAX_JOURNAL"
  shows "open_store cr L S vp random_id io bytes = Inl ''torn journal: preserve it and restore from verified evidence''"
  using assms by (simp add: open_store_def open_header_def)

text \<open>What a process finds after a write that failed after \<open>k\<close> bytes.\<close>

definition recovered :: "serde \<Rightarrow> store \<Rightarrow> relay_event \<Rightarrow> nat \<Rightarrow> store res" where
  "recovered S st e k =
     (let line = json_print (event_json S e); old = st\<lparr>st_journal := journal_text S (store_header st) (st_events st), st_failed := False\<rparr> in
      if k = 0 then Inr old
      else if k \<le> length line then Inl ''torn journal: preserve it and restore from verified evidence''
      else Inr (old\<lparr>st_events := st_events st @ [e], st_journal := st_journal old @ line @ [NL]\<rparr>))"

lemma open_journal:
  assumes "serde_ok S" "store_ok cr L st"
  shows "open_store cr L S (st_profile st) random_id io (journal_text S (store_header st) (st_events st))
      = Inr (st\<lparr>st_journal := journal_text S (store_header st) (st_events st), st_failed := False\<rparr>)"
    and "length (journal_text S (store_header st) (st_events st)) \<le> 190000"
  using open_text [OF assms(1), of "st_profile st" cr L "st_events st" "st_stream st"] assms(2)
  by (simp_all add: store_ok_def store_header_def)

lemma open_recovered:
  assumes S: "serde_ok S" and ok: "store_ok cr L st"
    and e: "journal_ok (profile_verify cr L (st_profile st)) (st_events st @ [e])"
  shows "open_store cr L S (st_profile st) random_id io
      (journal_text S (store_header st) (st_events st) @ take k (json_print (event_json S e) @ [NL])) = recovered S st e k"
proof -
  let ?line = "json_print (event_json S e)"
  have ok': "store_ok cr L (st\<lparr>st_events := st_events st @ [e]\<rparr>)" using ok e by (simp add: store_ok_def)
  consider "k = 0" | "0 < k" "k \<le> length ?line" | "length ?line < k" by linarith
  then show ?thesis
  proof cases
    case 1
    with open_journal(1) [OF S ok] show ?thesis by (simp add: recovered_def)
  next
    case 2
    then have ne: "take k ?line \<noteq> []" using event_line_nonempty [of S e] by simp
    then have "last (take k ?line) \<in> set ?line" using last_in_set [of "take k ?line"] set_take_subset by fast
    then have "last (take k ?line) \<noteq> NL" using json_print_no_NL by metis
    moreover have "length (take k ?line) \<le> 4096" using event_fits [OF S ok e] by (simp add: RELAY_MAX_FRAME_def)
    ultimately show ?thesis using 2 ne open_journal(2) [OF S ok]
      by (subst open_torn) (simp_all add: recovered_def MAX_JOURNAL_def)
  next
    case 3
    with open_journal(1) [OF S ok'] show ?thesis by (simp add: recovered_def journal_text_snoc)
  qed
qed

lemma recovered_cases:
  assumes "recovered S st e k = Inr st'"
  shows "st' = st\<lparr>st_journal := journal_text S (store_header st) (st_events st), st_failed := False\<rparr>
    \<or> st' = st\<lparr>st_events := st_events st @ [e], st_journal := journal_text S (store_header st) (st_events st @ [e]), st_failed := False\<rparr>"
  using assms by (auto simp: recovered_def Let_def journal_text_snoc split: if_splits)

lemma journal_state_open:
  assumes S: "serde_ok S" and st: "journal_state cr L S st"
    and "open_store cr L S (st_profile st) random_id io (st_journal st) = Inr st'"
  shows "journal_state cr L S st' \<and> st_profile st' = st_profile st \<and> st_stream st' = st_stream st
    \<and> (\<exists>es. st_events st' = st_events st @ es)"
proof -
  have ok: "store_ok cr L st" using st by (simp add: journal_state_def)
  show ?thesis
  proof (cases "st_failed st")
    case True
    with st obtain e k where e: "journal_ok (profile_verify cr L (st_profile st)) (st_events st @ [e])"
      "st_journal st = journal_text S (store_header st) (st_events st) @ take k (json_print (event_json S e) @ [NL])"
      by (auto simp: journal_state_def)
    from assms(3) open_recovered [OF S ok e(1)] have "recovered S st e k = Inr st'" by (simp add: e(2))
    from recovered_cases [OF this] ok e(1) show ?thesis
      by (auto simp: journal_state_def journaled_def store_ok_def)
  next
    case False
    with st have "st_journal st = journal_text S (store_header st) (st_events st)" "\<not> st_failed st"
      by (simp_all add: journal_state_def journaled_def)
    with assms(3) open_journal(1) [OF S ok, of random_id io] have "st' = st" by (cases st) simp
    with st show ?thesis by simp
  qed
qed

lemma publish_keeps: "st_profile (fst (publish cr L S io st r)) = st_profile st" "st_stream (fst (publish cr L S io st r)) = st_stream st"
  by (simp_all add: publish_def split: sum.split prod.split option.split)

lemma journal_step_keeps:
  assumes "journal_step cr L S st st'" and S: "serde_ok S" and st: "journal_state cr L S st"
  shows "journal_state cr L S st' \<and> st_profile st' = st_profile st \<and> st_stream st' = st_stream st
    \<and> (\<exists>es. st_events st' = st_events st @ es)"
  using assms(1)
proof cases
  case (step_publish io r)
  have "store_ok cr L st" using st by (simp add: journal_state_def)
  with step_publish journal_state_publish [OF S st] publish_keeps publish_extends show ?thesis by metis
next
  case (step_open random_id io)
  from journal_state_open [OF S st this] show ?thesis .
qed

lemma journal_steps_keep:
  assumes "(journal_step cr L S)\<^sup>*\<^sup>* st st'" and S: "serde_ok S" and st: "journal_state cr L S st"
  shows "journal_state cr L S st' \<and> st_profile st' = st_profile st \<and> st_stream st' = st_stream st
    \<and> (\<exists>es. st_events st' = st_events st @ es)"
  using assms(1)
proof (induction rule: rtranclp_induct)
  case base
  with st show ?case by simp
next
  case (step st1 st2)
  with journal_step_keeps [OF step.hyps(2) S] show ?case by fastforce
qed

section \<open>Reachable stores\<close>

definition relay_reachable :: "crypto \<Rightarrow> elements_lib \<Rightarrow> serde \<Rightarrow> validated_profile \<Rightarrow> store \<Rightarrow> bool" where
  "relay_reachable cr L S vp st \<longleftrightarrow> (\<exists>st0. fresh_store cr L S vp st0 \<and> (journal_step cr L S)\<^sup>*\<^sup>* st0 st)"

lemma fresh_state:
  assumes "profile_ok vp" "fresh_store cr L S vp st"
  shows "journal_state cr L S st \<and> st_profile st = vp"
proof -
  from assms(2) obtain random_id where o: "open_store cr L S vp random_id None [] = Inr st"
    by (auto simp: fresh_store_def)
  then have "hex_64 random_id" "st = \<lparr>st_profile = vp, st_stream = random_id, st_events = [],
      st_journal = journal_text S \<lparr>hd_version = 1, hd_profile = vp_id vp, hd_stream = random_id\<rparr> [], st_failed = False\<rparr>"
    by (auto simp: open_store_def open_header_def append_journal_def Let_def bind_res_Inr guard_Inr journal_text_def
        event_lines_def split: if_splits)
  with assms(1) journal_Nil show ?thesis by (simp add: journal_state_def store_ok_def journaled_def store_header_def)
qed

lemma reachable_state:
  assumes "serde_ok S" "profile_ok vp" "relay_reachable cr L S vp st"
  shows "journal_state cr L S st" "st_profile st = vp" "store_ok cr L st"
proof -
  from assms(3) obtain st0 where "fresh_store cr L S vp st0" and steps: "(journal_step cr L S)\<^sup>*\<^sup>* st0 st"
    by (auto simp: relay_reachable_def)
  with fresh_state [OF assms(2)] have "journal_state cr L S st0" "st_profile st0 = vp" by simp_all
  with journal_steps_keep [OF steps assms(1)] show "journal_state cr L S st" "st_profile st = vp" by simp_all
  then show "store_ok cr L st" by (simp add: journal_state_def)
qed

text \<open>An acknowledged receipt is retained, unless its bond was already in conflict.\<close>

lemma publish_retains:
  assumes "publish cr L S io st r = (st', Inr (ev, status, n))" and ok: "store_ok cr L st"
  shows "profile_verify cr L (st_profile st) r = Inr ()"
    and "(\<exists>e \<in> set (st_events st'). e_seq e = n \<and> r_bond (e_receipt e) = r_bond r \<and> r_txid (e_receipt e) = r_txid r)
      \<or> status = ''already_conflicted'' \<and> st' = st \<and> length (of_bond (r_bond r) (st_events st)) = 2"
proof -
  have jo: "journal_ok (profile_verify cr L (st_profile st)) (st_events st)" using ok by (simp add: store_ok_def)
  obtain e where p: "prepare cr L st r = Inr (e, status, n)"
    using assms(1) by (auto simp: publish_def split: sum.splits prod.splits option.splits)
  then show "profile_verify cr L (st_profile st) r = Inr ()" by (auto simp: prepare_def bind_res_Inr split: if_splits)
  have st': "st_events st' = st_events st @ (case e of None \<Rightarrow> [] | Some e \<Rightarrow> [e])" "e = None \<Longrightarrow> st' = st"
    using assms(1) p by (auto simp: publish_def split: option.splits prod.splits sum.splits)
  from p jo show "(\<exists>e \<in> set (st_events st'). e_seq e = n \<and> r_bond (e_receipt e) = r_bond r \<and> r_txid (e_receipt e) = r_txid r)
      \<or> status = ''already_conflicted'' \<and> st' = st \<and> length (of_bond (r_bond r) (st_events st)) = 2"
    by (cases rule: prepare_cases) (use st' in auto)
qed

lemma publish_fails:
  assumes "serde_ok S" "store_ok cr L st" "\<not> st_failed st"
    and e: "journal_ok (profile_verify cr L (st_profile st)) (st_events st @ [e])"
  shows "publish cr L S (Some k) st (e_receipt e) = (st\<lparr>st_journal := st_journal st @ take k (json_print (event_json S e) @ [NL]),
      st_failed := True\<rparr>, Inl ''journal write failed; monitoring disabled'')"
  using prepare_stored [OF assms(3) e] event_fits [OF assms(1,2) e] by (simp add: publish_def append_journal_def Let_def)

end
