(* ===== verification/Relay_Demo.thy ===== *)
theory Relay_Demo
  imports Operator_Props Relay_History
begin

text \<open>
  A reader that satisfies the hypotheses on \<open>serde\<close>, and a profile with one session, a fresh journal
  and two conflicting promises; the witnesses of the relay use them.
\<close>

section \<open>Reading messages\<close>

definition read_word :: "string \<Rightarrow> 'a::len word option" where
  "read_word s = map_option of_be_bytes (hex_decode s)"

definition read_outpoint :: "string \<Rightarrow> outpoint option" where
  "read_outpoint s = map_option (\<lambda>t. \<lparr>op_txid = t, op_vout = word_of_nat (decimal_value (drop 65 s))\<rparr>) (read_word (take 64 s))"

fun read_receipt :: "json \<Rightarrow> operator_receipt option" where
  "read_receipt (JObj [(_, JStr b), (_, JStr t), (_, JStr g)]) =
     (case (read_outpoint b, read_word t, read_word g) of
        (Some b', Some t', Some g') \<Rightarrow> Some \<lparr>r_bond = b', r_txid = t', r_signature = g'\<rparr>
      | _ \<Rightarrow> None)"
| "read_receipt _ = None"

fun event_of_json :: "json \<Rightarrow> relay_event option" where
  "event_of_json (JObj [(_, JNum n), (_, rc), (_, oth)]) =
     (case (read_receipt rc, if oth = JNull then Some None else map_option Some (read_receipt oth)) of
        (Some r, Some d) \<Rightarrow> Some \<lparr>e_seq = nat \<lfloor>n\<rfloor>, e_receipt = r, e_conflict_with = d\<rparr>
      | _ \<Rightarrow> None)"
| "event_of_json _ = None"

fun header_of_json :: "json \<Rightarrow> journal_header option" where
  "header_of_json (JObj [(_, JNum n), (_, JStr p), (_, JStr s)]) = Some \<lparr>hd_version = nat \<lfloor>n\<rfloor>, hd_profile = p, hd_stream = s\<rparr>"
| "header_of_json _ = None"

fun cursor_of_json :: "json \<Rightarrow> relay_cursor option" where
  "cursor_of_json (JObj [(_, JStr s), (_, JNum n)]) = Some \<lparr>k_stream = s, k_seq = nat \<lfloor>n\<rfloor>\<rparr>"
| "cursor_of_json _ = None"

fun client_of_json :: "json \<Rightarrow> client_message option" where
  "client_of_json (JObj [_, (_, JStr p), (_, c)]) = (if c = JNull then Some (Subscribe p None) else map_option (\<lambda>c. Subscribe p (Some c)) (cursor_of_json c))"
| "client_of_json (JObj [_, (_, r)]) = map_option Publish (read_receipt r)"
| "client_of_json _ = None"

fun server_of_json :: "json \<Rightarrow> server_message option" where
  "server_of_json (JObj [_, (_, JStr p), (_, JStr s), (_, JNum f), (_, JNum t)]) = Some (Begin p s (nat \<lfloor>f\<rfloor>) (nat \<lfloor>t\<rfloor>))"
| "server_of_json (JObj [_, (_, JNum n), (_, JStr st)]) = Some (Published (nat \<lfloor>n\<rfloor>) st)"
| "server_of_json (JObj [_, (_, JStr r)]) = Some (ErrorMessage r)"
| "server_of_json (JObj [(_, ty), (_, v)]) =
     (if ty = JStr ''event'' then map_option EventMessage (event_of_json v)
      else if ty = JStr ''caught_up'' then map_option CaughtUp (cursor_of_json v)
      else map_option Heartbeat (cursor_of_json v))"
| "server_of_json _ = None"

definition sample_serde :: serde where
  "sample_serde = \<lparr>show_txid = (\<lambda>t. hex_encode (bytes32 t)),
     read_header = (\<lambda>s. Option.bind (json_parse s) header_of_json),
     read_event = (\<lambda>s. Option.bind (json_parse s) event_of_json),
     read_client = (\<lambda>s. Option.bind (json_parse s) client_of_json),
     read_server = (\<lambda>s. Option.bind (json_parse s) server_of_json)\<rparr>"

lemma read_word_hex: "LENGTH('a) \<le> 8 * n \<Longrightarrow> read_word (hex_encode (be_bytes n (w :: 'a::len word))) = Some w"
  by (simp add: read_word_def of_be_bytes_inverse)

lemma read_outpoint_show: "read_outpoint (show_outpoint sample_serde b) = Some b"
  by (simp add: read_outpoint_def show_outpoint_def sample_serde_def read_word_hex decimal_value_show)

lemma sample_show_txid: "show_txid sample_serde t = hex_encode (bytes32 t)"
  by (simp add: sample_serde_def)

lemma read_receipt_json: "read_receipt (receipt_json sample_serde r) = Some r"
  by (simp add: receipt_json_def wire_receipt_def read_outpoint_show show_signature_def sample_show_txid read_word_hex)

lemma event_of_event_json: "event_of_json (event_json sample_serde e) = Some e"
proof -
  have "receipt_json sample_serde r \<noteq> JNull" for r by (simp add: receipt_json_def wire_receipt_def)
  then show ?thesis
    by (simp add: event_json_def wire_record_def wire_option_def read_receipt_json split: option.split)
qed

lemma client_of_client_json: "client_of_json (client_json sample_serde m) = Some m"
proof -
  have "cursor_json c \<noteq> JNull" "cursor_of_json (cursor_json c) = Some c" for c by (simp_all add: cursor_json_def wire_cursor_def)
  then show ?thesis
    by (cases m) (simp_all add: client_json_def wire_subscribe_def wire_publish_def wire_option_def read_receipt_json split: option.split)
qed

lemma server_of_server_json: "server_of_json (server_json sample_serde m) = Some m"
proof -
  have "server_of_json (JObj [(k, ty), (k', event_json sample_serde e)]) =
      (if ty = JStr ''event'' then map_option EventMessage (event_of_json (event_json sample_serde e))
      else if ty = JStr ''caught_up'' then map_option CaughtUp (cursor_of_json (event_json sample_serde e))
      else map_option Heartbeat (cursor_of_json (event_json sample_serde e)))" for k k' ty e
    by (simp add: event_json_def wire_record_def)
  then show ?thesis
    by (cases m) (simp_all add: server_json_def wire_begin_def wire_event_def wire_caught_up_def wire_heartbeat_def wire_published_def
        wire_error_def event_of_event_json cursor_json_def wire_cursor_def)
qed

lemma sample_serde_ok: "serde_ok sample_serde"
proof -
  have "inj (\<lambda>t :: u256. hex_encode (bytes32 t))"
    by (rule inj_on_inverseI [of _ "\<lambda>s. the (read_word s)"]) (simp add: read_word_hex)
  moreover have "hex_string 64 (hex_encode (bytes32 t))" for t using hex_encode_hex [of "bytes32 t"] by simp
  moreover have "read_header sample_serde (json_print (header_json h)) = Some h" if "hd_version h \<le> 4294967295" for h
    using that json_round_trip [of "header_json h"] by (simp add: sample_serde_def header_json_def)
  moreover have "read_event sample_serde (json_print (event_json sample_serde e)) = Some e" if "e_seq e \<le> 9007199254740991" for e
  proof -
    have "read_event sample_serde (json_print (event_json sample_serde e)) = event_of_json (event_json sample_serde e)"
      using json_round_trip [OF wire_ok_event [OF that, of sample_serde]] by (simp only: sample_serde_def serde.simps Option.bind.simps)
    then show ?thesis by (simp only: event_of_event_json)
  qed
  moreover have "read_client sample_serde (json_print (client_json sample_serde m)) = Some m" if "small_client m" for m
  proof -
    have "read_client sample_serde (json_print (client_json sample_serde m)) = client_of_json (client_json sample_serde m)"
      using json_round_trip [OF wire_ok_client [OF that, of sample_serde]] by (simp only: sample_serde_def serde.simps Option.bind.simps)
    then show ?thesis by (simp only: client_of_client_json)
  qed
  moreover have "read_server sample_serde (json_print (server_json sample_serde m)) = Some m" if "small_server m" for m
  proof -
    have "read_server sample_serde (json_print (server_json sample_serde m)) = server_of_json (server_json sample_serde m)"
      using json_round_trip [OF wire_ok_server [OF that, of sample_serde]] by (simp only: sample_serde_def serde.simps Option.bind.simps)
    then show ?thesis by (simp only: server_of_server_json)
  qed
  ultimately show ?thesis by (simp add: serde_ok_def sample_show_txid [abs_def])
qed

section \<open>A journal\<close>

definition sample_profile :: relay_profile where
  "sample_profile = \<lparr>p_version = 1, p_sessions = [\<lparr>s_bond = sample_outpoint, s_config = sample_config\<rparr>]\<rparr>"

definition sample_validated :: validated_profile where
  "sample_validated = \<lparr>vp_id = replicate 64 (CHR ''a''), vp_bonds = [(sample_outpoint, sample_bond)]\<rparr>"

definition sample_event :: "nat \<Rightarrow> relay_event" where
  "sample_event n = \<lparr>e_seq = n, e_receipt = sample_receipt (word_of_nat n),
     e_conflict_with = (if n = 1 then None else Some (sample_receipt 1))\<rparr>"

text \<open>The store after the first \<open>n\<close> of two conflicting promises.\<close>

definition sample_store :: "nat \<Rightarrow> store" where
  "sample_store n = (let h = \<lparr>hd_version = 1, hd_profile = vp_id sample_validated, hd_stream = replicate 64 (CHR ''b'')\<rparr>;
       es = map sample_event [1..<Suc n] in
     \<lparr>st_profile = sample_validated, st_stream = hd_stream h, st_events = es,
      st_journal = journal_text sample_serde h es, st_failed = False\<rparr>)"

lemma sample_profile_validate:
  "profile_validate sample_crypto sample_lib (\<lambda>_. Inr [81, 32]) (\<lambda>_. replicate 64 (CHR ''a'')) sample_profile = Inr sample_validated"
  using sample_compile [of sample_crypto]
  by (simp add: profile_validate_def sample_profile_def sample_validated_def MAX_SESSIONS_def)
     (simp add: sample_lib_def sample_outpoint_def sample_config_def)

lemma sample_id_hex: "hex_string 64 (vp_id sample_validated)"
  by (simp add: sample_validated_def hex_string_def is_lower_hex_def list_all_iff)

lemma sample_profile_verify: "profile_verify sample_crypto sample_lib sample_validated (sample_receipt t) = Inr ()"
  using sample_verify by (simp add: profile_verify_def sample_validated_def sample_receipts)

lemma sample_journal_ok: "n \<le> 2 \<Longrightarrow> journal_ok (profile_verify sample_crypto sample_lib sample_validated) (map sample_event [1..<Suc n])"
proof -
  have 1: "journal_ok (profile_verify sample_crypto sample_lib sample_validated) [sample_event 1]"
    using journal_snoc [OF journal_Nil, of "profile_verify sample_crypto sample_lib sample_validated" "sample_event 1"]
    by (simp add: sample_event_def sample_profile_verify first_receipt_def)
  have 2: "journal_ok (profile_verify sample_crypto sample_lib sample_validated) [sample_event 1, sample_event 2]"
    using journal_snoc [OF 1, of "sample_event 2"]
    by (simp add: sample_event_def sample_profile_verify sample_receipts first_receipt_def)
  assume "n \<le> 2"
  then consider "n = 0" | "n = 1" | "n = 2" by linarith
  then show ?thesis using 1 2 journal_Nil by cases (simp_all add: upt_rec numeral_2_eq_2)
qed

lemma sample_store_simps:
  "st_profile (sample_store n) = sample_validated" "st_stream (sample_store n) = replicate 64 (CHR ''b'')"
  "st_events (sample_store n) = map sample_event [1..<Suc n]" "st_failed (sample_store n) = False"
  "st_journal (sample_store n) = journal_text sample_serde (store_header (sample_store n)) (map sample_event [1..<Suc n])"
  unfolding sample_store_def Let_def by (simp_all add: store_header_def)

lemma sample_stream_hex: "hex_64 (replicate 64 (CHR ''b''))"
  by (simp add: hex_64_def list_all_iff)

lemma sample_store_ok: "n \<le> 2 \<Longrightarrow> store_ok sample_crypto sample_lib (sample_store n)"
  using sample_journal_ok [of n] profile_validate_ok [OF sample_profile_validate sample_id_hex] sample_stream_hex
  unfolding store_ok_def sample_store_simps by blast

lemma sample_fresh: "fresh_store sample_crypto sample_lib sample_serde sample_validated (sample_store 0)"
proof -
  let ?h = "\<lparr>hd_version = 1, hd_profile = vp_id sample_validated, hd_stream = replicate 64 (CHR ''b'')\<rparr>"
  have "length (json_print (header_json ?h)) \<le> 1000"
    using sample_id_hex by (intro length_header) (simp_all add: hex_string_def)
  then have "open_store sample_crypto sample_lib sample_serde sample_validated (replicate 64 (CHR ''b'')) None [] = Inr (sample_store 0)"
    using sample_stream_hex
    by (simp add: open_store_def open_header_def append_journal_def RELAY_MAX_FRAME_def Let_def sample_store_def journal_text_def
        event_lines_def)
  then show ?thesis unfolding fresh_store_def by blast
qed

lemma sample_publish:
  assumes "n < 2"
  shows "publish sample_crypto sample_lib sample_serde None (sample_store n) (sample_receipt (word_of_nat (Suc n)))
    = (sample_store (Suc n), Inr (Some (sample_event (Suc n)), ''stored'', Suc n))"
proof -
  have e: "e_receipt (sample_event (Suc n)) = sample_receipt (word_of_nat (Suc n))" "e_seq (sample_event (Suc n)) = Suc n"
    by (simp_all add: sample_event_def)
  have "journal_ok (profile_verify sample_crypto sample_lib (st_profile (sample_store n)))
      (st_events (sample_store n) @ [sample_event (Suc n)])"
    using sample_journal_ok [of "Suc n"] assms unfolding sample_store_simps by simp
  from publish_stored [OF sample_serde_ok sample_store_ok _ this] assms
  have p: "publish sample_crypto sample_lib sample_serde None (sample_store n) (sample_receipt (word_of_nat (Suc n)))
      = ((sample_store n)\<lparr>st_journal := st_journal (sample_store n) @ json_print (event_json sample_serde (sample_event (Suc n))) @ [NL],
          st_events := st_events (sample_store n) @ [sample_event (Suc n)]\<rparr>, Inr (Some (sample_event (Suc n)), ''stored'', Suc n))"
    using sample_store_simps(4) by (simp only: e) simp
  also have "(sample_store n)\<lparr>st_journal := st_journal (sample_store n) @ json_print (event_json sample_serde (sample_event (Suc n))) @ [NL],
      st_events := st_events (sample_store n) @ [sample_event (Suc n)]\<rparr> = sample_store (Suc n)"
    unfolding sample_store_def Let_def by (simp add: journal_text_def event_lines_def)
  finally show ?thesis .
qed

lemma sample_step: "n < 2 \<Longrightarrow> journal_step sample_crypto sample_lib sample_serde (sample_store n) (sample_store (Suc n))"
  using step_publish [of sample_crypto sample_lib sample_serde "sample_store n" None "sample_receipt (word_of_nat (Suc n))"]
  by (simp add: sample_publish del: of_nat_Suc)

lemma sample_reachable: "n \<le> 2 \<Longrightarrow> relay_reachable sample_crypto sample_lib sample_serde sample_validated (sample_store n)"
proof -
  have "n \<le> 2 \<Longrightarrow> (journal_step sample_crypto sample_lib sample_serde)\<^sup>*\<^sup>* (sample_store 0) (sample_store n)"
  proof (induction n)
    case (Suc n)
    with sample_step [of n] show ?case by (auto intro: rtranclp.rtrancl_into_rtrancl)
  qed simp
  then show "n \<le> 2 \<Longrightarrow> ?thesis" using sample_fresh unfolding relay_reachable_def by blast
qed

end
