(* ===== verification/Relay_Props.thy ===== *)
theory Relay_Props
  imports Relay_Demo
begin

text \<open>
  Properties of the relay's store over all histories of its journal.
\<close>

section \<open>Evidence\<close>

text \<open>
  C22. The evidence invariant of the relay: after any publications, failed writes, crashes and
  restarts on a file the relay created, the retained events are numbered without gaps from 1,
  each was verified against the allowlisted bond, at most two of a bond are kept, with different
  transactions, the second naming the first, and there are at most two for each session.
\<close>

theorem evidence_invariant:
  assumes "serde_ok S" and "profile_validate cr L taproot profile_id p = Inr vp" and "hex_string 64 (vp_id vp)"
    and "relay_reachable cr L S vp st"
  shows "map e_seq (st_events st) = [1..<Suc (length (st_events st))]
    \<and> journal_ok (profile_verify cr L vp) (st_events st)
    \<and> length (of_bond b (st_events st)) \<le> 2 \<and> distinct (map (\<lambda>e. r_txid (e_receipt e)) (of_bond b (st_events st)))
    \<and> length (st_events st) \<le> 2 * length (p_sessions p)"
proof -
  note r = reachable_state [OF assms(1) profile_validate_ok [OF assms(2,3)] assms(4)]
  have j: "journal_ok (profile_verify cr L vp) (st_events st)" using r(2,3) by (simp add: store_ok_def)
  show ?thesis
    using j journal_seq [OF j] journal_bond [OF j, of b] store_bounded(1) [OF r(3)] profile_validate_bonds(2) [OF assms(2)] r(2)
    by simp
qed

text \<open>
  C23. Evidence is never lost, changed or reordered: whatever is published, whichever writes fail
  and however often the relay restarts, the events retained earlier remain the first events of the
  journal, on the same stream.
\<close>

theorem evidence_durable:
  assumes "serde_ok S" and "profile_validate cr L taproot profile_id p = Inr vp" and "hex_string 64 (vp_id vp)"
    and "relay_reachable cr L S vp st" and "(journal_step cr L S)\<^sup>*\<^sup>* st st'"
  shows "st_stream st' = st_stream st \<and> take (length (st_events st)) (st_events st') = st_events st"
proof -
  note r = reachable_state [OF assms(1) profile_validate_ok [OF assms(2,3)] assms(4)]
  from journal_steps_keep [OF assms(5,1) r(1)] show ?thesis by auto
qed

text \<open>
  C24. The journal is an exact image of a working store: opening it gives the store that wrote it,
  with the same stream, the same events and the same file.
\<close>

theorem journal_round_trip:
  assumes "serde_ok S" and "profile_validate cr L taproot profile_id p = Inr vp" and "hex_string 64 (vp_id vp)"
    and "relay_reachable cr L S vp st" and "\<not> st_failed st"
  shows "open_store cr L S vp random_id io (st_journal st) = Inr st"
proof -
  note r = reachable_state [OF assms(1) profile_validate_ok [OF assms(2,3)] assms(4)]
  have "st_journal st = journal_text S (store_header st) (st_events st)"
    using r(1) assms(5) by (simp add: journal_state_def journaled_def)
  with open_journal(1) [OF assms(1) r(3)] r(2) assms(5) show ?thesis by (cases st) simp
qed

text \<open>
  C25. A failed write is fail-stop and recoverable: the running store refuses every later publication
  and replay, and the next process finds either the events before the write, or these and exactly the
  new event, or refuses the file as torn, depending on how many bytes of the record were written.
\<close>

theorem failed_write_recovery:
  assumes "serde_ok S" and "profile_validate cr L taproot profile_id p = Inr vp" and "hex_string 64 (vp_id vp)"
    and "relay_reachable cr L S vp st" and "\<not> st_failed st"
    and "publish cr L S (Some k) st r = (st', res)" and "st_failed st'"
  shows "\<exists>e msg. res = Inl msg \<and> e_receipt e = r \<and> e_seq e = Suc (length (st_events st))
    \<and> st_events st' = st_events st
    \<and> publish cr L S io st' r' = (st', Inl ''journal unavailable'') \<and> replay st' c = Inl ''journal unavailable''
    \<and> open_store cr L S vp random_id io' (st_journal st') =
        (if k = 0 then Inr st
         else if k \<le> length (json_print (event_json S e)) then Inl ''torn journal: preserve it and restore from verified evidence''
         else Inr (fst (publish cr L S None st r)))"
proof -
  note st = reachable_state [OF assms(1) profile_validate_ok [OF assms(2,3)] assms(4)]
  have jr: "st_journal st = journal_text S (store_header st) (st_events st)"
    using st(1) assms(5) by (simp add: journal_state_def journaled_def)
  from assms(6) st(3) show ?thesis
  proof (cases rule: publish_cases)
    case (failed e msg jr')
    note fits = event_fits [OF assms(1) st(3) failed(3)]
    have j': "st_journal st' = st_journal st @ take k (json_print (event_json S e) @ [NL])"
      using append_failed [OF failed(5) fits] failed(6) by fastforce
    have "open_store cr L S vp random_id io' (st_journal st') = recovered S st e k"
      using open_recovered [OF assms(1) st(3) failed(3)] st(2) by (simp add: j' jr)
    moreover have "publish cr L S None st r = (st\<lparr>st_journal := st_journal st @ json_print (event_json S e) @ [NL],
        st_events := st_events st @ [e]\<rparr>, Inr (Some e, ''stored'', e_seq e))"
      using publish_stored [OF assms(1) st(3) assms(5) failed(3)] failed(2) by simp
    moreover have "st\<lparr>st_journal := st_journal st, st_failed := False\<rparr> = st" using assms(5) by (cases st) simp
    moreover have "e_seq e = Suc (length (st_events st))" using failed(3) by (simp add: journal_snoc_iff)
    moreover have "publish cr L S io st' r' = (st', Inl ''journal unavailable'')" "replay st' c = Inl ''journal unavailable''"
      using assms(7) by (simp_all add: publish_def prepare_def replay_def)
    ultimately show ?thesis using failed assms(5) jr by (intro exI [of _ e] exI [of _ msg]) (auto simp: recovered_def Let_def)
  qed (use assms(5,7) in simp_all)
qed

text \<open>
  An acknowledgement is a commitment to evidence: a receipt whose publication was acknowledged was
  verified, and the journal retains an event with the reported number for its bond and transaction,
  unless the bond already had two conflicting events.
\<close>

theorem acknowledged_retained:
  assumes "serde_ok S" and "profile_validate cr L taproot profile_id p = Inr vp" and "hex_string 64 (vp_id vp)"
    and "relay_reachable cr L S vp st" and "publish cr L S io st r = (st', Inr (ev, status, n))"
  shows "profile_verify cr L vp r = Inr ()
    \<and> ((\<exists>e \<in> set (st_events st'). e_seq e = n \<and> r_bond (e_receipt e) = r_bond r \<and> r_txid (e_receipt e) = r_txid r)
       \<or> status = ''already_conflicted'' \<and> st' = st \<and> length (of_bond (r_bond r) (st_events st)) = 2)"
proof -
  note r = reachable_state [OF assms(1) profile_validate_ok [OF assms(2,3)] assms(4)]
  from publish_retains [OF assms(5) r(3)] r(2) show ?thesis by simp
qed

section \<open>Recorded conflicts\<close>

text \<open>Two acknowledged receipts of a bond for different transactions leave a recorded conflict.\<close>

lemma acknowledged_conflict:
  assumes S: "serde_ok S" and st: "journal_state cr L S st"
    and p1: "publish cr L S io st r = (st1, Inr (ev1, status1, n1))" and steps: "(journal_step cr L S)\<^sup>*\<^sup>* st1 st2"
    and p2: "publish cr L S io' st2 r' = (st3, Inr (ev2, status2, n2))"
    and bond: "r_bond r = r_bond r'" "r_txid r \<noteq> r_txid r'"
  shows "st_profile st3 = st_profile st" "journal_ok (profile_verify cr L (st_profile st)) (st_events st3)"
    "length (of_bond (r_bond r) (st_events st3)) = 2"
proof -
  have st1: "journal_state cr L S st1" "st_profile st1 = st_profile st"
    using journal_state_publish [OF S st, of io r] publish_keeps(1) [of cr L S io st r] by (simp_all add: p1)
  note st2 = journal_steps_keep [OF steps S st1(1)]
  have st3: "journal_state cr L S st3" "st_profile st3 = st_profile st2"
    using journal_state_publish [OF S, of cr L st2 io' r'] publish_keeps(1) [of cr L S io' st2 r'] st2 by (simp_all add: p2)
  then show prof: "st_profile st3 = st_profile st" using st2 st1 by simp
  have ok: "store_ok cr L st" "store_ok cr L st1" "store_ok cr L st2" "store_ok cr L st3"
    using st st1 st2 st3 by (simp_all add: journal_state_def)
  then show j: "journal_ok (profile_verify cr L (st_profile st)) (st_events st3)" using prof by (simp add: store_ok_def)
  obtain es where es: "st_events st2 = st_events st1 @ es" using st2 by blast
  obtain es' where es': "st_events st3 = st_events st2 @ es'" using publish_extends [OF ok(3), of S io' r'] p2 by auto
  from publish_retains(2) [OF p1 ok(1)] publish_retains(2) [OF p2 ok(3)]
  consider (two) e1 e2 where "e1 \<in> set (st_events st1)" "e2 \<in> set (st_events st3)" "r_bond (e_receipt e1) = r_bond r"
      "r_bond (e_receipt e2) = r_bond r" "r_txid (e_receipt e1) = r_txid r" "r_txid (e_receipt e2) = r_txid r'"
    | (first) "length (of_bond (r_bond r) (st_events st1)) = 2" | (second) "length (of_bond (r_bond r) (st_events st2)) = 2"
    using bond(1) by metis
  then show "length (of_bond (r_bond r) (st_events st3)) = 2"
  proof cases
    case two
    with bond(2) have "e1 \<noteq> e2" by auto
    with two es es' show ?thesis by (intro two_events [OF j, of e1 e2]) simp_all
  qed (use es es' journal_bond [OF j, of "r_bond r"] in simp_all)
qed

section \<open>Concrete histories\<close>

lemmas sample_relay = sample_serde_ok sample_profile_validate sample_id_hex

theorem evidence_invariant_witness:
  "map e_seq (st_events (sample_store 2)) = [1, 2]
   \<and> journal_ok (profile_verify sample_crypto sample_lib sample_validated) (st_events (sample_store 2))
   \<and> length (of_bond sample_outpoint (st_events (sample_store 2))) = 2
   \<and> length (st_events (sample_store 2)) \<le> 2 * length (p_sessions sample_profile)"
proof -
  have "length (of_bond sample_outpoint (st_events (sample_store 2))) = 2"
    by (simp add: sample_store_simps sample_event_def sample_receipts of_bond_def)
  with evidence_invariant [OF sample_relay sample_reachable, of 2] show ?thesis
    by (simp add: sample_store_simps upt_rec)
qed

theorem evidence_durable_witness:
  "st_stream (sample_store 2) = st_stream (sample_store 1) \<and> take 1 (st_events (sample_store 2)) = st_events (sample_store 1)"
proof -
  have "(journal_step sample_crypto sample_lib sample_serde)\<^sup>*\<^sup>* (sample_store 1) (sample_store 2)"
    using sample_step [of 1] by (simp add: numeral_2_eq_2)
  from evidence_durable [OF sample_relay sample_reachable this] show ?thesis
    by (simp add: sample_store_simps)
qed

theorem journal_round_trip_witness:
  "open_store sample_crypto sample_lib sample_serde sample_validated [] None (st_journal (sample_store 2)) = Inr (sample_store 2)
   \<and> length (st_events (sample_store 2)) = 2"
  using journal_round_trip [OF sample_relay sample_reachable, of 2] by (simp add: sample_store_simps)

lemma sample_next: "journal_ok (profile_verify sample_crypto sample_lib (st_profile (sample_store 1)))
    (st_events (sample_store 1) @ [sample_event 2])"
  using sample_journal_ok [of 2] by (simp add: sample_store_simps upt_rec numeral_2_eq_2)

theorem failed_write_recovery_witness:
  "open_store sample_crypto sample_lib sample_serde sample_validated [] None
     (st_journal (fst (publish sample_crypto sample_lib sample_serde (Some 0) (sample_store 1) (sample_receipt 2)))) = Inr (sample_store 1)
   \<and> open_store sample_crypto sample_lib sample_serde sample_validated [] None
     (st_journal (fst (publish sample_crypto sample_lib sample_serde (Some 5000) (sample_store 1) (sample_receipt 2)))) = Inr (sample_store 2)"
proof -
  have e: "e_receipt (sample_event 2) = sample_receipt 2" by (simp add: sample_event_def)
  have f: "\<not> st_failed (sample_store 1)" by (simp add: sample_store_simps)
  have p: "\<exists>st' res. publish sample_crypto sample_lib sample_serde (Some k) (sample_store 1) (sample_receipt 2) = (st', res) \<and> st_failed st'" for k
    using publish_fails [OF sample_serde_ok sample_store_ok f sample_next] by (simp add: e)
  have n: "publish sample_crypto sample_lib sample_serde None (sample_store 1) (sample_receipt 2)
      = (sample_store 2, Inr (Some (sample_event 2), ''stored'', 2))"
    using sample_publish [of 1] by (simp add: numeral_2_eq_2)
  have fits: "e_seq e = 2 \<Longrightarrow> \<not> 5000 \<le> length (json_print (event_json sample_serde e))" for e
    using length_event_json [OF sample_serde_ok, of e] by simp
  have s: "Suc (length (st_events (sample_store 1))) = 2" by (simp add: sample_store_simps)
  obtain st0 res0 where p0: "publish sample_crypto sample_lib sample_serde (Some 0) (sample_store 1) (sample_receipt 2) = (st0, res0)" "st_failed st0"
    using p by blast
  obtain st5 res5 where p5: "publish sample_crypto sample_lib sample_serde (Some 5000) (sample_store 1) (sample_receipt 2) = (st5, res5)" "st_failed st5"
    using p by blast
  note rec = failed_write_recovery [OF sample_relay sample_reachable f]
  from rec [OF _ p0, of None undefined None "[]" None] rec [OF _ p5, of None undefined None "[]" None] fits
  show ?thesis unfolding p0(1) p5(1) n s by (auto simp del: One_nat_def)
qed

theorem acknowledged_retained_witness:
  "sample_event 2 \<in> set (st_events (sample_store 2)) \<and> profile_verify sample_crypto sample_lib sample_validated (sample_receipt 2) = Inr ()"
proof -
  have "publish sample_crypto sample_lib sample_serde None (sample_store 1) (sample_receipt 2)
      = (sample_store 2, Inr (Some (sample_event 2), ''stored'', 2))"
    using sample_publish [of 1] by (simp add: numeral_2_eq_2)
  from acknowledged_retained [OF sample_relay sample_reachable this]
  show ?thesis by (simp add: sample_store_simps upt_rec numeral_2_eq_2)
qed

end
