(* ===== verification/Relay_Server.thy ===== *)
theory Relay_Server
  imports Relay
begin

text \<open>
  The relay service of \<^verbatim>\<open>src/relay/server.rs\<close>: the hub that couples the store with a broadcast
  channel, a subscriber's connection, a peer session and the checks of \<open>serve\<close>. An asynchronous
  function is cut at its \<open>await\<close>s into operations on an explicit state; which branch of a
  \<open>select!\<close> runs next, the clock in milliseconds, the outcome of a write and a failing socket are
  inputs. The broadcast channel, the URL parser and the address parser are parameters. The store's
  mutex is never poisoned: no operation panics while it holds the lock.
\<close>

section \<open>Constants\<close>

definition IO_TIMEOUT :: nat where
  "IO_TIMEOUT = 10000"

definition HEARTBEAT :: nat where
  "HEARTBEAT = 3000"

definition MAX_CONNECTIONS :: nat where
  "MAX_CONNECTIONS = 32"

definition MAX_PUBLISH_PER_SECOND :: nat where
  "MAX_PUBLISH_PER_SECOND = 32"

section \<open>Hub\<close>

text \<open>
  A change is an event, or \<open>None\<close> for the announcement that the journal failed. \<open>bc_recv\<close> is
  \<open>None\<close> when nothing is pending, and its result \<open>None\<close> a receiver that fell behind.
\<close>

type_synonym change = "relay_event option"

record ('c, 'r) broadcast =
  bc_send :: "'c \<Rightarrow> change \<Rightarrow> 'c"
  bc_subscribe :: "'c \<Rightarrow> 'r"
  bc_recv :: "'c \<Rightarrow> 'r \<Rightarrow> (change option \<times> 'r) option"

record 'c hub =
  hub_store :: store
  hub_changes :: 'c

record 'r snapshot =
  sn_profile :: string
  sn_cursor :: relay_cursor
  sn_events :: "relay_event list"
  sn_changes :: 'r

definition hub_snapshot :: "('c, 'r) broadcast \<Rightarrow> 'c hub \<Rightarrow> relay_cursor option \<Rightarrow> 'r snapshot res" where
  "hub_snapshot C hub cur =
     (let st = hub_store hub; changes = bc_subscribe C (hub_changes hub) in
      bind_res (replay st cur) (\<lambda>events.
        Inr \<lparr>sn_profile = vp_id (st_profile st), sn_cursor = \<lparr>k_stream = st_stream st, k_seq = store_head st\<rparr>,
             sn_events = events, sn_changes = changes\<rparr>))"

definition hub_publish :: "crypto \<Rightarrow> elements_lib \<Rightarrow> serde \<Rightarrow> ('c, 'r) broadcast \<Rightarrow> nat option \<Rightarrow> 'c hub
    \<Rightarrow> operator_receipt \<Rightarrow> 'c hub \<times> server_message res" where
  "hub_publish cr L S C io hub r =
     (case publish cr L S io (hub_store hub) r of
        (st, Inr (event, status, n)) \<Rightarrow>
          (\<lparr>hub_store = st, hub_changes = (case event of None \<Rightarrow> hub_changes hub | Some e \<Rightarrow> bc_send C (hub_changes hub) (Some e))\<rparr>,
           Inr (Published n status))
      | (st, Inl msg) \<Rightarrow>
          (\<lparr>hub_store = st, hub_changes = (if st_failed st then bc_send C (hub_changes hub) None else hub_changes hub)\<rparr>, Inl msg))"

section \<open>Subscriber connections\<close>

datatype ws_message = Text string | Ping | Pong | OtherFrame

definition parse_client :: "serde \<Rightarrow> ws_message \<Rightarrow> client_message option res" where
  "parse_client S m =
     (case m of
        Text t \<Rightarrow>
          if length t \<le> RELAY_MAX_FRAME
          then (case read_client S t of None \<Rightarrow> Inl ''invalid client message'' | Some c \<Rightarrow> Inr (Some c))
          else Inl ''expected bounded JSON text''
      | Ping \<Rightarrow> Inr None
      | Pong \<Rightarrow> Inr None
      | OtherFrame \<Rightarrow> Inl ''expected bounded JSON text'')"

text \<open>
  The locals of \<open>subscription\<close>: the receiver, the messages of the snapshot still to be sent, the
  cursor of the last sent event and the publication rate; \<open>cn_out\<close> lists what was sent.
\<close>

record 'r connection =
  cn_changes :: 'r
  cn_todo :: "server_message list"
  cn_sent :: relay_cursor
  cn_rate_since :: nat
  cn_publishes :: nat
  cn_out :: "server_message list"
  cn_open :: bool

definition subscription_start :: "serde \<Rightarrow> ('c, 'r) broadcast \<Rightarrow> 'c hub \<Rightarrow> ws_message \<Rightarrow> 'r connection res" where
  "subscription_start S C hub first =
     bind_res (parse_client S first) (\<lambda>m.
       (case m of
          Some (Subscribe profile cur) \<Rightarrow>
            bind_res (hub_snapshot C hub cur) (\<lambda>sn.
              guard (\<not> profile \<noteq> sn_profile sn) ''profile mismatch''
                (Inr \<lparr>cn_changes = sn_changes sn,
                      cn_todo = Begin profile (k_stream (sn_cursor sn)) (case cur of None \<Rightarrow> 0 | Some c \<Rightarrow> k_seq c) (k_seq (sn_cursor sn))
                        # map EventMessage (sn_events sn) @ [CaughtUp (sn_cursor sn)],
                      cn_sent = sn_cursor sn, cn_rate_since = 0, cn_publishes = 0, cn_out = [], cn_open = True\<rparr>))
        | _ \<Rightarrow> Inl ''first message must subscribe''))"

text \<open>One completed \<open>send\<close> of the snapshot; the rate window opens after the last one.\<close>

definition subscription_send :: "nat \<Rightarrow> 'r connection \<Rightarrow> 'r connection" where
  "subscription_send now cn =
     (case cn_todo cn of
        [] \<Rightarrow> cn
      | m # ms \<Rightarrow>
          (let cn' = cn\<lparr>cn_todo := ms, cn_out := cn_out cn @ [m]\<rparr> in
           if ms = [] then cn'\<lparr>cn_rate_since := now, cn_publishes := 0\<rparr> else cn'))"

definition subscription_change :: "('c, 'r) broadcast \<Rightarrow> 'c hub \<Rightarrow> 'r connection \<Rightarrow> 'r connection res option" where
  "subscription_change C hub cn =
     (case bc_recv C (hub_changes hub) (cn_changes cn) of
        None \<Rightarrow> None
      | Some (change, rx) \<Rightarrow>
          Some (case change of
                  None \<Rightarrow> Inl ''live stream gap; reconnect with cursor''
                | Some None \<Rightarrow> Inl ''journal unavailable''
                | Some (Some e) \<Rightarrow>
                    guard (\<not> e_seq e \<noteq> k_seq (cn_sent cn) + 1) ''live stream gap''
                      (Inr (cn\<lparr>cn_changes := rx, cn_sent := (cn_sent cn)\<lparr>k_seq := e_seq e\<rparr>,
                               cn_out := cn_out cn @ [EventMessage e]\<rparr>))))"

definition subscription_message :: "crypto \<Rightarrow> elements_lib \<Rightarrow> serde \<Rightarrow> ('c, 'r) broadcast \<Rightarrow> nat option \<Rightarrow> nat \<Rightarrow> 'c hub
    \<Rightarrow> 'r connection \<Rightarrow> ws_message \<Rightarrow> 'c hub \<times> 'r connection res" where
  "subscription_message cr L S C io now hub cn m =
     (case parse_client S m of
        Inl msg \<Rightarrow> (hub, Inl msg)
      | Inr None \<Rightarrow> (hub, Inr cn)
      | Inr (Some (Subscribe _ _)) \<Rightarrow> (hub, Inl ''already subscribed'')
      | Inr (Some (Publish r)) \<Rightarrow>
          (let cn' = (if now - cn_rate_since cn \<ge> 1000 then cn\<lparr>cn_rate_since := now, cn_publishes := 0\<rparr> else cn);
               cn'' = cn'\<lparr>cn_publishes := cn_publishes cn' + 1\<rparr> in
           if cn_publishes cn'' > MAX_PUBLISH_PER_SECOND then (hub, Inl ''publish rate exceeded'')
           else (case hub_publish cr L S C io hub r of
                   (hub', Inl msg) \<Rightarrow> (hub', Inl msg)
                 | (hub', Inr reply) \<Rightarrow> (hub', Inr (cn''\<lparr>cn_out := cn_out cn'' @ [reply]\<rparr>)))))"

definition subscription_heartbeat :: "'c hub \<Rightarrow> 'r connection \<Rightarrow> 'r connection res" where
  "subscription_heartbeat hub cn =
     guard (\<not> st_failed (hub_store hub)) ''journal unavailable''
       (Inr (cn\<lparr>cn_out := cn_out cn @ [Heartbeat (cn_sent cn)]\<rparr>))"

text \<open>\<open>serve\<close> after \<open>subscription\<close> returned an error: the reason is sent if the socket allows it.\<close>

definition subscription_end :: "bool \<Rightarrow> string \<Rightarrow> 'r connection \<Rightarrow> 'r connection" where
  "subscription_end delivered reason cn =
     cn\<lparr>cn_open := False, cn_out := (if delivered then cn_out cn @ [ErrorMessage reason] else cn_out cn)\<rparr>"

section \<open>Peer sessions\<close>

record 'r peer =
  pr_tracker :: tracker
  pr_profile :: validated_profile
  pr_changes :: 'r
  pr_pending :: "operator_receipt list"
  pr_last_received :: nat

definition peer_start :: "('c, 'r) broadcast \<Rightarrow> 'c hub \<Rightarrow> nat \<Rightarrow> tracker \<Rightarrow> (client_message \<times> 'r peer) res" where
  "peer_start C hub now t =
     bind_res (hub_snapshot C hub None) (\<lambda>sn.
       let profile = st_profile (hub_store hub) in
       Inr (Subscribe (vp_id profile) (t_cursor t),
            \<lparr>pr_tracker = t, pr_profile = profile, pr_changes = sn_changes sn, pr_pending = map e_receipt (sn_events sn),
             pr_last_received = now\<rparr>))"

text \<open>The publications of a received message; the first error ends the session.\<close>

fun publish_each :: "crypto \<Rightarrow> elements_lib \<Rightarrow> serde \<Rightarrow> ('c, 'r) broadcast \<Rightarrow> nat option list \<Rightarrow> 'c hub
    \<Rightarrow> operator_receipt list \<Rightarrow> 'c hub \<times> unit res" where
  "publish_each cr L S C ios hub [] = (hub, Inr ())"
| "publish_each cr L S C ios hub (r # rs) =
     (case hub_publish cr L S C (case ios of [] \<Rightarrow> None | io # _ \<Rightarrow> io) hub r of
        (hub', Inl msg) \<Rightarrow> (hub', Inl msg)
      | (hub', Inr _) \<Rightarrow> publish_each cr L S C (tl ios) hub' rs)"

definition received_receipts :: "server_message \<Rightarrow> operator_receipt option \<Rightarrow> operator_receipt list" where
  "received_receipts response receipt =
     (case receipt of
        None \<Rightarrow> []
      | Some r \<Rightarrow> r # (case response of EventMessage e \<Rightarrow> (case e_conflict_with e of None \<Rightarrow> [] | Some other \<Rightarrow> [other]) | _ \<Rightarrow> []))"

definition peer_message :: "crypto \<Rightarrow> elements_lib \<Rightarrow> serde \<Rightarrow> ('c, 'r) broadcast \<Rightarrow> nat option list \<Rightarrow> nat \<Rightarrow> 'c hub
    \<Rightarrow> 'r peer \<Rightarrow> ws_message \<Rightarrow> 'c hub \<times> 'r peer res" where
  "peer_message cr L S C ios now hub pr m =
     (case m of
        Text t \<Rightarrow>
          if length t \<le> RELAY_MAX_FRAME
          then (case read_server S t of
                  None \<Rightarrow> (hub, Inl ''bad peer message'')
                | Some response \<Rightarrow>
                    (case tracker_process cr L (pr_profile pr) (pr_tracker pr) response of
                       (Inl msg, _) \<Rightarrow> (hub, Inl msg)
                     | (Inr receipt, t') \<Rightarrow>
                         (case publish_each cr L S C ios hub (received_receipts response receipt) of
                            (hub', Inl msg) \<Rightarrow> (hub', Inl msg)
                          | (hub', Inr _) \<Rightarrow>
                              (hub', Inr (pr\<lparr>pr_tracker := t', pr_last_received :=
                                (case response of Published _ _ \<Rightarrow> pr_last_received pr | _ \<Rightarrow> now)\<rparr>)))))
          else (hub, Inl ''invalid peer frame'')
      | Ping \<Rightarrow> (hub, Inr pr)
      | Pong \<Rightarrow> (hub, Inr pr)
      | OtherFrame \<Rightarrow> (hub, Inl ''invalid peer frame''))"

definition peer_change :: "('c, 'r) broadcast \<Rightarrow> 'c hub \<Rightarrow> 'r peer \<Rightarrow> 'r peer res option" where
  "peer_change C hub pr =
     (case bc_recv C (hub_changes hub) (pr_changes pr) of
        None \<Rightarrow> None
      | Some (change, rx) \<Rightarrow>
          Some (case change of
                  None \<Rightarrow> Inl ''peer fell behind''
                | Some None \<Rightarrow> Inl ''journal unavailable''
                | Some (Some e) \<Rightarrow>
                    guard (\<not> length (pr_pending pr) \<ge> MAX_SESSIONS * 2) ''peer queue exceeded''
                      (Inr (pr\<lparr>pr_changes := rx, pr_pending := pr_pending pr @ [e_receipt e]\<rparr>))))"

definition peer_tick :: "'r peer \<Rightarrow> (client_message \<times> 'r peer) option" where
  "peer_tick pr = (case pr_pending pr of [] \<Rightarrow> None | r # rs \<Rightarrow> Some (Publish r, pr\<lparr>pr_pending := rs\<rparr>))"

definition peer_timer :: "nat \<Rightarrow> 'r peer \<Rightarrow> unit res" where
  "peer_timer now pr = guard (\<not> now - pr_last_received pr \<ge> IO_TIMEOUT) ''peer stale'' (Inr ())"

text \<open>The reconnection loop of \<open>serve\<close>; delays in seconds.\<close>

definition next_delay :: "nat \<Rightarrow> nat" where
  "next_delay d = min (d * 2) 15"

section \<open>Configuration\<close>

record parsed_url =
  pu_username :: string
  pu_password :: "string option"
  pu_fragment :: "string option"
  pu_host :: "string option"
  pu_scheme :: string

definition trim_brackets :: "string \<Rightarrow> string" where
  "trim_brackets s = (let b = (\<lambda>c. c \<in> set ''[]'') in rev (dropWhile b (rev (dropWhile b s))))"

definition validate_peer :: "(string \<Rightarrow> parsed_url option) \<Rightarrow> (string \<Rightarrow> bool option) \<Rightarrow> string \<Rightarrow> unit res" where
  "validate_peer parse_url ip_loopback peer =
     (case parse_url peer of
        None \<Rightarrow> Inl ''invalid peer URL''
      | Some u \<Rightarrow>
          (let local = (case pu_host u of None \<Rightarrow> False | Some h \<Rightarrow> ip_loopback (trim_brackets h) = Some True) in
           guard (\<not> (pu_username u \<noteq> [] \<or> pu_password u \<noteq> None \<or> pu_fragment u \<noteq> None \<or> pu_host u = None
               \<or> \<not> (pu_scheme u = ''wss'' \<or> pu_scheme u = ''ws'' \<and> local)))
             ''peers require wss (or numeric loopback ws), without URL credentials/fragments'' (Inr ())))"

record server_config =
  allowed_origins :: "string list"
  peers :: "string list"

fun validate_peers :: "(string \<Rightarrow> parsed_url option) \<Rightarrow> (string \<Rightarrow> bool option) \<Rightarrow> string list \<Rightarrow> unit res" where
  "validate_peers parse_url ip_loopback [] = Inr ()"
| "validate_peers parse_url ip_loopback (p # ps) =
     bind_res (validate_peer parse_url ip_loopback p) (\<lambda>_. validate_peers parse_url ip_loopback ps)"

text \<open>The checks of \<open>serve\<close> before it accepts connections, and the origin check of a handshake.\<close>

definition serve_checks :: "(string \<Rightarrow> parsed_url option) \<Rightarrow> (string \<Rightarrow> bool option) \<Rightarrow> bool \<Rightarrow> server_config \<Rightarrow> unit res" where
  "serve_checks parse_url ip_loopback bound_loopback cfg =
     guard bound_loopback ''bind loopback only; use a TLS/auth reverse proxy for remote access''
     (guard (\<not> (length (peers cfg) > 8 \<or> length (allowed_origins cfg) > 16)) ''too many configured peers/origins''
     (bind_res (validate_peers parse_url ip_loopback (peers cfg)) (\<lambda>_.
        guard (\<not> list_ex (\<lambda>a. a = ''*'' \<or> a = ''null'' \<or> length a > 256) (allowed_origins cfg))
          ''origins must be explicit trusted browser origins'' (Inr ()))))"

definition origin_accepted :: "server_config \<Rightarrow> string option \<Rightarrow> bool" where
  "origin_accepted cfg origin = (case origin of None \<Rightarrow> True | Some a \<Rightarrow> a \<in> set (allowed_origins cfg))"

end
