(* ===== verification/Relay_Protocol.thy ===== *)
theory Relay_Protocol
  imports Relay_Store
begin

text \<open>
  The synchronisation protocol between a relay and its subscribers as an abstract automaton, and the
  contract of a subscriber. The tracker of \<^verbatim>\<open>src/relay/mod.rs\<close> is one implementation; the browser
  client is another.
\<close>

section \<open>Protocol\<close>

record progress =
  pg_cursor :: "relay_cursor option"
  pg_through :: "nat option"
  pg_live :: bool

definition protocol_begin :: "string \<Rightarrow> nat \<Rightarrow> progress \<Rightarrow> string \<Rightarrow> string \<Rightarrow> nat \<Rightarrow> nat \<Rightarrow> bool" where
  "protocol_begin P N v p s f t \<longleftrightarrow> pg_through v = None \<and> p = P \<and> hex_64 s \<and> f \<le> t \<and> t \<le> N
     \<and> (case pg_cursor v of None \<Rightarrow> f = 0 | Some c \<Rightarrow> c = \<lparr>k_stream = s, k_seq = f\<rparr>)"

definition protocol_step :: "string \<Rightarrow> nat \<Rightarrow> progress \<Rightarrow> server_message \<Rightarrow> progress option" where
  "protocol_step P N v m =
     (case m of
        Begin p s f t \<Rightarrow>
          if protocol_begin P N v p s f t
          then Some \<lparr>pg_cursor = Some \<lparr>k_stream = s, k_seq = f\<rparr>, pg_through = Some t, pg_live = False\<rparr> else None
      | EventMessage e \<Rightarrow>
          (case (pg_cursor v, pg_through v) of
             (Some c, Some t) \<Rightarrow>
               if e_seq e = Suc (k_seq c) \<and> e_seq e \<le> N \<and> (pg_live v \<or> e_seq e \<le> t)
               then Some (v\<lparr>pg_cursor := Some (c\<lparr>k_seq := e_seq e\<rparr>)\<rparr>) else None
           | _ \<Rightarrow> None)
      | CaughtUp c \<Rightarrow>
          if \<not> pg_live v \<and> pg_cursor v = Some c \<and> pg_through v = Some (k_seq c) then Some (v\<lparr>pg_live := True\<rparr>) else None
      | Heartbeat c \<Rightarrow> if pg_live v \<and> pg_cursor v = Some c then Some v else None
      | Published n st \<Rightarrow> Some v
      | ErrorMessage r \<Rightarrow> None)"

fun feed :: "('s \<Rightarrow> 'm \<Rightarrow> 's option) \<Rightarrow> 's \<Rightarrow> 'm list \<Rightarrow> 's option" where
  "feed f s [] = Some s"
| "feed f s (m # ms) = Option.bind (f s m) (\<lambda>s'. feed f s' ms)"

lemma feed_append: "feed f s (ms @ ms') = Option.bind (feed f s ms) (\<lambda>s'. feed f s' ms')"
  by (induction ms arbitrary: s) (simp_all add: bind_assoc)

lemma feed_snoc: "feed f s (ms @ [m]) = Option.bind (feed f s ms) (\<lambda>s'. f s' m)"
  by (simp add: feed_append)

text \<open>A subscriber accepts what the protocol allows, if each message is admissible to it.\<close>

locale subscriber =
  fixes accept :: "'s \<Rightarrow> server_message \<Rightarrow> 's option"
    and progress :: "'s \<Rightarrow> progress"
    and admits :: "server_message \<Rightarrow> bool"
    and P :: string
    and N :: nat
  assumes accepts: "protocol_step P N (progress s) m = Some v \<Longrightarrow> admits m \<Longrightarrow> \<exists>s'. accept s m = Some s' \<and> progress s' = v"
begin

lemma feed_accepts:
  "feed (protocol_step P N) (progress s) ms = Some v \<Longrightarrow> list_all admits ms
    \<Longrightarrow> \<exists>s'. feed accept s ms = Some s' \<and> progress s' = v"
proof (induction ms arbitrary: s)
  case (Cons m ms)
  from Cons.prems(1) obtain v' where v': "protocol_step P N (progress s) m = Some v'"
    "feed (protocol_step P N) v' ms = Some v" by (auto simp: bind_eq_Some_conv)
  then obtain s' where "accept s m = Some s'" "progress s' = v'" using accepts [OF v'(1)] Cons.prems(2) by auto
  with Cons v' show ?case by auto
qed simp

end

section \<open>Tracker\<close>

definition tracker_progress :: "tracker \<Rightarrow> progress" where
  "tracker_progress t = \<lparr>pg_cursor = t_cursor t, pg_through = t_through t, pg_live = t_caught_up t\<rparr>"

definition tracker_accept :: "crypto \<Rightarrow> elements_lib \<Rightarrow> validated_profile \<Rightarrow> tracker \<Rightarrow> server_message \<Rightarrow> tracker option" where
  "tracker_accept cr L vp t m = (case tracker_process cr L vp t m of (Inl _, _) \<Rightarrow> None | (Inr _, t') \<Rightarrow> Some t')"

text \<open>The evidence of an event: verified receipts, a conflict of one bond and two transactions.\<close>

definition event_sound :: "(operator_receipt \<Rightarrow> unit res) \<Rightarrow> relay_event \<Rightarrow> bool" where
  "event_sound vf e \<longleftrightarrow> vf (e_receipt e) = Inr () \<and>
     (case e_conflict_with e of None \<Rightarrow> True
      | Some d \<Rightarrow> vf d = Inr () \<and> r_bond d = r_bond (e_receipt e) \<and> r_txid d \<noteq> r_txid (e_receipt e))"

definition message_sound :: "(operator_receipt \<Rightarrow> unit res) \<Rightarrow> server_message \<Rightarrow> bool" where
  "message_sound vf m = (case m of EventMessage e \<Rightarrow> event_sound vf e | _ \<Rightarrow> True)"

lemma process_inner_eq:
  "process_inner cr L vp t m = Inr (r, t') \<longleftrightarrow>
    protocol_step (vp_id vp) (max_events vp) (tracker_progress t) m = Some (tracker_progress t')
    \<and> message_sound (profile_verify cr L vp) m \<and> r = (case m of EventMessage e \<Rightarrow> Some (e_receipt e) | _ \<Rightarrow> None)"
proof (cases m)
  case (EventMessage e)
  then show ?thesis
    by (cases t; cases t'; cases "t_cursor t"; cases "t_through t")
       (auto simp: process_inner_def track_event_def protocol_step_def tracker_progress_def message_sound_def event_sound_def
         bind_res_Inr guard_Inr Let_def split: option.splits)
next
  case (Begin p s f th)
  then show ?thesis
    by (cases t; cases t'; cases "t_cursor t")
       (auto simp: process_inner_def track_begin_def protocol_step_def protocol_begin_def tracker_progress_def message_sound_def
         bind_res_Inr guard_Inr Let_def split: option.splits)
qed (cases t; cases t'; auto simp: process_inner_def protocol_step_def tracker_progress_def message_sound_def guard_Inr)+

lemma tracker_accept_iff:
  "tracker_accept cr L vp t m = Some t' \<longleftrightarrow>
    protocol_step (vp_id vp) (max_events vp) (tracker_progress t) m = Some (tracker_progress t')
    \<and> message_sound (profile_verify cr L vp) m"
proof -
  have "tracker_accept cr L vp t m = Some t' \<longleftrightarrow> (\<exists>r. process_inner cr L vp t m = Inr (r, t'))"
    by (auto simp: tracker_accept_def tracker_process_def split: sum.splits prod.splits)
  then show ?thesis by (simp add: process_inner_eq)
qed

lemma tracker_progress_surj: "\<exists>t. tracker_progress t = v"
  by (intro exI [of _ "\<lparr>t_cursor = pg_cursor v, t_caught_up = pg_live v, t_through = pg_through v\<rparr>"]) (simp add: tracker_progress_def)

interpretation trk: subscriber "tracker_accept cr L vp" tracker_progress "message_sound (profile_verify cr L vp)" "vp_id vp" "max_events vp"
  for cr L vp
proof
  fix s m v
  assume "protocol_step (vp_id vp) (max_events vp) (tracker_progress s) m = Some v" "message_sound (profile_verify cr L vp) m"
  moreover obtain t where "tracker_progress t = v" using tracker_progress_surj by blast
  ultimately show "\<exists>s'. tracker_accept cr L vp s m = Some s' \<and> tracker_progress s' = v"
    using tracker_accept_iff by blast
qed

end
