(* ===== verification/Relay_Subscription.thy ===== *)
theory Relay_Subscription
  imports Relay_Server Relay_Protocol Relay_History
begin

text \<open>
  A subscriber's connection over its whole life, interleaved with the publications of all other
  tasks: what the broadcast channel holds, what was sent, and that it follows the protocol.
\<close>

section \<open>Broadcast channel\<close>

text \<open>
  What the documentation of the channel promises: a receiver gets the values sent after it
  subscribed, in order, unless more than the capacity are waiting. \<open>chlog\<close> is everything ever sent and
  \<open>pos\<close> the number of values before the next one of a receiver.
\<close>

definition broadcast_ok :: "('c, 'r) broadcast \<Rightarrow> nat \<Rightarrow> ('c \<Rightarrow> change list) \<Rightarrow> ('r \<Rightarrow> nat) \<Rightarrow> bool" where
  "broadcast_ok C cap chlog pos \<longleftrightarrow>
     (\<forall>c x. chlog (bc_send C c x) = chlog c @ [x]) \<and> (\<forall>c. pos (bc_subscribe C c) = length (chlog c))
     \<and> (\<forall>c r. length (chlog c) \<le> pos r \<longrightarrow> bc_recv C c r = None)
     \<and> (\<forall>c r. pos r < length (chlog c) \<and> length (chlog c) - pos r \<le> cap \<longrightarrow>
          (\<exists>r'. bc_recv C c r = Some (Some (chlog c ! pos r), r') \<and> pos r' = Suc (pos r)))
     \<and> (\<forall>c r. cap < length (chlog c) - pos r \<longrightarrow> (\<exists>r'. bc_recv C c r = Some (None, r')))"

lemma broadcast_send: "broadcast_ok C cap chlog pos \<Longrightarrow> chlog (bc_send C c x) = chlog c @ [x]"
  by (simp add: broadcast_ok_def)

lemma broadcast_subscribe: "broadcast_ok C cap chlog pos \<Longrightarrow> pos (bc_subscribe C c) = length (chlog c)"
  by (simp add: broadcast_ok_def)

lemma broadcast_recv_None: "broadcast_ok C cap chlog pos \<Longrightarrow> length (chlog c) \<le> pos r \<Longrightarrow> bc_recv C c r = None"
  by (simp add: broadcast_ok_def)

lemma broadcast_recv_next:
  "broadcast_ok C cap chlog pos \<Longrightarrow> pos r < length (chlog c) \<Longrightarrow> length (chlog c) - pos r \<le> cap
    \<Longrightarrow> \<exists>r'. bc_recv C c r = Some (Some (chlog c ! pos r), r') \<and> pos r' = Suc (pos r)"
  by (simp add: broadcast_ok_def)

lemma broadcast_recv_SomeD:
  assumes "broadcast_ok C cap chlog pos" "bc_recv C c r = Some (Some x, r')"
  shows "pos r < length (chlog c) \<and> x = chlog c ! pos r \<and> pos r' = Suc (pos r)"
proof -
  consider "length (chlog c) \<le> pos r" | "pos r < length (chlog c)" "length (chlog c) - pos r \<le> cap" | "cap < length (chlog c) - pos r"
    by linarith
  then show ?thesis
    using assms unfolding broadcast_ok_def by cases fastforce+
qed

section \<open>Hub\<close>

text \<open>
  Since a moment at which the log was \<open>base\<close> and the store had \<open>h\<close> events, the channel carried exactly
  the events stored since, then only failure announcements.
\<close>

definition hub_log :: "crypto \<Rightarrow> elements_lib \<Rightarrow> ('c \<Rightarrow> change list) \<Rightarrow> change list \<Rightarrow> nat \<Rightarrow> 'c hub \<Rightarrow> bool" where
  "hub_log cr L chlog base h hub \<longleftrightarrow>
     (let st = hub_store hub in store_ok cr L st \<and> h \<le> length (st_events st)
      \<and> (\<exists>k. chlog (hub_changes hub) = base @ map Some (drop h (st_events st)) @ replicate k None \<and> (0 < k \<longleftrightarrow> st_failed st)))"

lemma hub_log_start:
  "store_ok cr L (hub_store hub) \<Longrightarrow> \<not> st_failed (hub_store hub)
    \<Longrightarrow> hub_log cr L chlog (chlog (hub_changes hub)) (store_head (hub_store hub)) hub"
  by (simp add: hub_log_def store_head_def Let_def)

lemma hub_publish_store: "hub_store (fst (hub_publish cr L S C io hub r)) = fst (publish cr L S io (hub_store hub) r)"
  by (simp add: hub_publish_def split: prod.split sum.split)

lemma publish_failed: "st_failed st \<Longrightarrow> publish cr L S io st r = (st, Inl ''journal unavailable'')"
  by (simp add: publish_def prepare_def)

lemma hub_publish_cases:
  assumes C: "broadcast_ok C cap chlog pos" and ok: "store_ok cr L (hub_store hub)"
    and p: "hub_publish cr L S C io hub r = (hub', res)"
  obtains (same) "hub_store hub' = hub_store hub" "chlog (hub_changes hub') = chlog (hub_changes hub)" "\<not> st_failed (hub_store hub)"
    | (stored) e where "st_events (hub_store hub') = st_events (hub_store hub) @ [e]"
        "chlog (hub_changes hub') = chlog (hub_changes hub) @ [Some e]" "\<not> st_failed (hub_store hub)" "\<not> st_failed (hub_store hub')"
    | (failed) "st_events (hub_store hub') = st_events (hub_store hub)" "chlog (hub_changes hub') = chlog (hub_changes hub) @ [None]"
        "st_failed (hub_store hub')" "\<exists>msg. res = Inl msg"
proof (cases "st_failed (hub_store hub)")
  case True
  with p C show thesis
    by (intro failed) (auto simp: hub_publish_def publish_failed broadcast_send)
next
  case False
  obtain st x where q: "publish cr L S io (hub_store hub) r = (st, x)" by fastforce
  from q ok show thesis
  proof (cases rule: publish_cases)
    case (stored e)
    with p q False C show thesis by (intro that(2)) (auto simp: hub_publish_def broadcast_send)
  next
    case failed
    with p q C show thesis by (intro that(3)) (auto simp: hub_publish_def broadcast_send)
  qed (use p q False in \<open>auto simp: hub_publish_def intro!: same\<close>)
qed

lemma hub_publish_keeps:
  "st_profile (hub_store (fst (hub_publish cr L S C io hub r))) = st_profile (hub_store hub)"
  "st_stream (hub_store (fst (hub_publish cr L S C io hub r))) = st_stream (hub_store hub)"
  "store_ok cr L (hub_store hub) \<Longrightarrow> store_ok cr L (hub_store (fst (hub_publish cr L S C io hub r)))"
  by (simp_all add: hub_publish_store publish_keeps publish_keeps_ok)

lemma hub_log_publish:
  assumes C: "broadcast_ok C cap chlog pos" and hub: "hub_log cr L chlog base h hub"
  shows "hub_log cr L chlog base h (fst (hub_publish cr L S C io hub r))"
proof -
  obtain hub' res where p: "hub_publish cr L S C io hub r = (hub', res)" by fastforce
  have ok: "store_ok cr L (hub_store hub)" using hub by (simp add: hub_log_def Let_def)
  have ok': "store_ok cr L (hub_store hub')" using hub_publish_keeps(3) [OF ok, of S C io r] p by simp
  obtain k where k: "chlog (hub_changes hub) = base @ map Some (drop h (st_events (hub_store hub))) @ replicate k None"
    "0 < k \<longleftrightarrow> st_failed (hub_store hub)" and h: "h \<le> length (st_events (hub_store hub))"
    using hub by (auto simp: hub_log_def Let_def)
  from C ok p have "hub_log cr L chlog base h hub'"
  proof (cases rule: hub_publish_cases)
    case same
    with hub ok' show ?thesis by (simp add: hub_log_def Let_def)
  next
    case (stored e)
    with k h ok' show ?thesis by (auto simp: hub_log_def Let_def)
  next
    case failed
    have "replicate k None @ [None] = replicate (Suc k) (None :: change)" by (simp add: replicate_append_same)
    with failed k h ok' show ?thesis by (auto simp: hub_log_def Let_def intro!: exI [of _ "Suc k"])
  qed
  with p show ?thesis by simp
qed

text \<open>A receiver that took the first events after \<open>h\<close> finds the next one, in a store of at most 256.\<close>

lemma hub_recv_event:
  assumes C: "broadcast_ok C cap chlog pos" and hub: "hub_log cr L chlog base h hub"
    and pos: "pos rx = length base + (n - h)" "h \<le> n" "n \<le> length (st_events (hub_store hub))"
    and r: "bc_recv C (hub_changes hub) rx = Some (Some (Some e), rx')"
  shows "n < length (st_events (hub_store hub)) \<and> e = st_events (hub_store hub) ! n \<and> pos rx' = length base + (Suc n - h)"
proof -
  obtain k where k: "chlog (hub_changes hub) = base @ map Some (drop h (st_events (hub_store hub))) @ replicate k None"
    using hub by (auto simp: hub_log_def Let_def)
  from broadcast_recv_SomeD [OF C r] have p: "pos rx < length (chlog (hub_changes hub))" "Some e = chlog (hub_changes hub) ! pos rx"
    "pos rx' = Suc (pos rx)" by auto
  have at: "Some e = (map Some (drop h (st_events (hub_store hub))) @ replicate k None) ! (n - h)"
    using p(2) by (simp only: k pos(1) nth_append_length_plus)
  have "n < length (st_events (hub_store hub))"
  proof (rule ccontr)
    assume "\<not> n < length (st_events (hub_store hub))"
    with pos(3) have n: "n = length (st_events (hub_store hub))" by simp
    have "length (chlog (hub_changes hub)) = length base + (n - h) + k" by (simp add: k n)
    with p(1) pos(1) have "0 < k" by simp
    with at show False by (simp add: nth_append n)
  qed
  moreover from this pos(2) have "n - h < length (st_events (hub_store hub)) - h" by simp
  ultimately show ?thesis using p(3) pos at by (simp add: nth_append Suc_diff_le)
qed

lemma hub_recv_working:
  assumes C: "broadcast_ok C 256 chlog pos" and hub: "hub_log cr L chlog base h hub" and nf: "\<not> st_failed (hub_store hub)"
    and pos: "pos rx = length base + (n - h)" "h \<le> n" "n \<le> length (st_events (hub_store hub))"
  shows "n = length (st_events (hub_store hub)) \<Longrightarrow> bc_recv C (hub_changes hub) rx = None"
    and "n < length (st_events (hub_store hub)) \<Longrightarrow>
      \<exists>rx'. bc_recv C (hub_changes hub) rx = Some (Some (Some (st_events (hub_store hub) ! n)), rx')"
proof -
  have k: "chlog (hub_changes hub) = base @ map Some (drop h (st_events (hub_store hub)))"
    using hub nf by (auto simp: hub_log_def Let_def)
  have "length (st_events (hub_store hub)) \<le> 256" using store_bounded(2) hub by (auto simp: hub_log_def Let_def)
  moreover have len: "length (chlog (hub_changes hub)) = length base + (length (st_events (hub_store hub)) - h)" using k by simp
  ultimately have small: "length (chlog (hub_changes hub)) - pos rx \<le> 256" using pos(1) by simp
  show "n = length (st_events (hub_store hub)) \<Longrightarrow> bc_recv C (hub_changes hub) rx = None"
    using len pos(1) by (intro broadcast_recv_None [OF C]) simp
  assume n: "n < length (st_events (hub_store hub))"
  have "chlog (hub_changes hub) ! pos rx = Some (st_events (hub_store hub) ! n)"
    using pos(2) n by (simp only: k pos(1) nth_append_length_plus) simp
  moreover have "pos rx < length (chlog (hub_changes hub))" using len pos(1,2) n by simp
  ultimately show "\<exists>rx'. bc_recv C (hub_changes hub) rx = Some (Some (Some (st_events (hub_store hub) ! n)), rx')"
    using broadcast_recv_next [OF C _ small] by auto
qed

section \<open>Connections\<close>

text \<open>Steps of one connection and, in between, publications by all other tasks.\<close>

inductive server_step :: "crypto \<Rightarrow> elements_lib \<Rightarrow> serde \<Rightarrow> ('c, 'r) broadcast
    \<Rightarrow> 'c hub \<times> 'r connection \<Rightarrow> 'c hub \<times> 'r connection \<Rightarrow> bool" for cr L S C where
  step_other: "server_step cr L S C (hub, cn) (fst (hub_publish cr L S C io hub r), cn)"
| step_send: "cn_open cn \<Longrightarrow> cn_todo cn \<noteq> [] \<Longrightarrow> server_step cr L S C (hub, cn) (hub, subscription_send now cn)"
| step_change: "cn_open cn \<Longrightarrow> cn_todo cn = [] \<Longrightarrow> subscription_change C hub cn = Some (Inr cn')
    \<Longrightarrow> server_step cr L S C (hub, cn) (hub, cn')"
| step_message: "cn_open cn \<Longrightarrow> cn_todo cn = [] \<Longrightarrow> subscription_message cr L S C io now hub cn m = (hub', Inr cn')
    \<Longrightarrow> server_step cr L S C (hub, cn) (hub', cn')"
| step_heartbeat: "cn_open cn \<Longrightarrow> cn_todo cn = [] \<Longrightarrow> subscription_heartbeat hub cn = Inr cn'
    \<Longrightarrow> server_step cr L S C (hub, cn) (hub, cn')"
| step_error: "cn_open cn \<Longrightarrow> cn_todo cn = [] \<Longrightarrow> subscription_message cr L S C io now hub cn m = (hub', Inl reason)
    \<Longrightarrow> server_step cr L S C (hub, cn) (hub', subscription_end b reason cn)"
| step_close: "cn_open cn \<Longrightarrow> server_step cr L S C (hub, cn) (hub, subscription_end b reason cn)"

fun sent_events :: "server_message list \<Rightarrow> relay_event list" where
  "sent_events [] = []"
| "sent_events (EventMessage e # ms) = e # sent_events ms"
| "sent_events (_ # ms) = sent_events ms"

lemma sent_events_append [simp]: "sent_events (ms @ ms') = sent_events ms @ sent_events ms'"
  by (induction ms rule: sent_events.induct) simp_all

lemma sent_events_map [simp]: "sent_events (map EventMessage es) = es"
  by (induction es) simp_all

text \<open>
  Everything sent and still to be sent from the snapshot follows the protocol from the subscriber's
  progress \<open>v\<close>, and its events are those after \<open>from\<close> up to the sent cursor.
\<close>

definition conn_ok :: "crypto \<Rightarrow> elements_lib \<Rightarrow> ('c \<Rightarrow> change list) \<Rightarrow> ('r \<Rightarrow> nat) \<Rightarrow> change list \<Rightarrow> nat \<Rightarrow> nat \<Rightarrow> progress
    \<Rightarrow> validated_profile \<Rightarrow> 'c hub \<Rightarrow> 'r connection \<Rightarrow> bool" where
  "conn_ok cr L chlog pos base h from v vp hub cn \<longleftrightarrow>
     (let es = st_events (hub_store hub); n = k_seq (cn_sent cn); ms = cn_out cn @ cn_todo cn in
      h \<le> n \<and> n \<le> length es \<and> k_stream (cn_sent cn) = st_stream (hub_store hub) \<and> from \<le> h
      \<and> pos (cn_changes cn) = length base + (n - h) \<and> (cn_todo cn \<noteq> [] \<longrightarrow> n = h)
      \<and> sent_events ms = drop from (take n es)
      \<and> feed (protocol_step (vp_id vp) (max_events vp)) v ms
          = Some \<lparr>pg_cursor = Some (cn_sent cn), pg_through = Some h, pg_live = True\<rparr>)"

definition server_ok where
  "server_ok cr L chlog pos base h from v vp hub cn \<longleftrightarrow>
     hub_log cr L chlog base h hub \<and> st_profile (hub_store hub) = vp
     \<and> (cn_open cn \<longrightarrow> conn_ok cr L chlog pos base h from v vp hub cn)"

lemma feed_events:
  assumes "map e_seq es = [Suc (k_seq c)..<Suc (k_seq c + length es)]" "k_seq c + length es \<le> N"
    and "pg_cursor v = Some c" "pg_through v = Some t" "pg_live v \<or> k_seq c + length es \<le> t"
  shows "feed (protocol_step P N) v (map EventMessage es) = Some (v\<lparr>pg_cursor := Some (c\<lparr>k_seq := k_seq c + length es\<rparr>)\<rparr>)"
  using assms
proof (induction es arbitrary: v c)
  case (Cons e es)
  have e: "e_seq e = Suc (k_seq c)" and es: "map e_seq es = [Suc (Suc (k_seq c))..<Suc (Suc (k_seq c) + length es)]"
    using Cons.prems(1) by (simp_all add: upt_conv_Cons del: upt_Suc)
  have "protocol_step P N v (EventMessage e) = Some (v\<lparr>pg_cursor := Some (c\<lparr>k_seq := Suc (k_seq c)\<rparr>)\<rparr>)"
    using e Cons.prems(2-5) by (auto simp: protocol_step_def)
  moreover have "feed (protocol_step P N) (v\<lparr>pg_cursor := Some (c\<lparr>k_seq := Suc (k_seq c)\<rparr>)\<rparr>) (map EventMessage es)
      = Some (v\<lparr>pg_cursor := Some (c\<lparr>k_seq := Suc (k_seq c) + length es\<rparr>)\<rparr>)"
    using Cons.IH [of "c\<lparr>k_seq := Suc (k_seq c)\<rparr>" "v\<lparr>pg_cursor := Some (c\<lparr>k_seq := Suc (k_seq c)\<rparr>)\<rparr>"] es Cons.prems(2-5)
    by (simp del: upt_Suc)
  ultimately show ?case by simp
qed simp

lemma feed_one: "feed f v ms = Some v' \<Longrightarrow> f v' m = Some v'' \<Longrightarrow> feed f v (ms @ [m]) = Some v''"
  by (simp add: feed_snoc)

lemma drop_take_Suc: "from \<le> n \<Longrightarrow> n < length es \<Longrightarrow> drop from (take (Suc n) es) = drop from (take n es) @ [es ! n]"
  by (simp add: take_Suc_conv_app_nth)

lemma journal_seq_drop:
  "journal_ok vf es \<Longrightarrow> map e_seq (drop n es) = [Suc n..<Suc (length es)]"
proof -
  assume "journal_ok vf es"
  then have "map e_seq (drop n es) = drop n [1..<Suc (length es)]" by (simp only: drop_map [symmetric] journal_seq)
  then show ?thesis by (simp only: drop_upt) simp
qed

lemma replay_InrD:
  assumes "replay st cur = Inr es"
  shows "\<not> st_failed st" "es = drop (case cur of None \<Rightarrow> 0 | Some c \<Rightarrow> k_seq c) (st_events st)"
    "(case cur of None \<Rightarrow> 0 | Some c \<Rightarrow> k_seq c) \<le> length (st_events st)"
    "cur = None \<or> cur = Some \<lparr>k_stream = st_stream st, k_seq = (case cur of None \<Rightarrow> 0 | Some c \<Rightarrow> k_seq c)\<rparr>"
  using assms by (auto simp: replay_def store_head_def guard_Inr split: if_splits option.splits)

text \<open>The whole snapshot follows the protocol.\<close>

lemma feed_snapshot:
  assumes "store_ok cr L st" and "from \<le> store_head st"
    and v: "pg_through v = None" "pg_cursor v = None \<and> from = 0 \<or> pg_cursor v = Some \<lparr>k_stream = st_stream st, k_seq = from\<rparr>"
  shows "feed (protocol_step (vp_id (st_profile st)) (max_events (st_profile st))) v
      (Begin (vp_id (st_profile st)) (st_stream st) from (store_head st) # map EventMessage (drop from (st_events st))
        @ [CaughtUp \<lparr>k_stream = st_stream st, k_seq = store_head st\<rparr>])
    = Some \<lparr>pg_cursor = Some \<lparr>k_stream = st_stream st, k_seq = store_head st\<rparr>, pg_through = Some (store_head st), pg_live = True\<rparr>"
proof -
  let ?c = "\<lparr>k_stream = st_stream st, k_seq = from\<rparr>" and ?es = "drop from (st_events st)"
  let ?v = "\<lparr>pg_cursor = Some ?c, pg_through = Some (store_head st), pg_live = False\<rparr>"
  let ?step = "protocol_step (vp_id (st_profile st)) (max_events (st_profile st))"
  have max: "store_head st \<le> max_events (st_profile st)"
    using store_bounded(1) [OF assms(1)] by (simp add: store_head_def max_events_def)
  have len: "from + length ?es = store_head st" using assms(2) by (simp add: store_head_def)
  have "?step v (Begin (vp_id (st_profile st)) (st_stream st) from (store_head st)) = Some ?v"
    using assms max by (auto simp: protocol_step_def protocol_begin_def store_ok_def)
  moreover have "feed ?step ?v (map EventMessage ?es) = Some (?v\<lparr>pg_cursor := Some (?c\<lparr>k_seq := from + length ?es\<rparr>)\<rparr>)"
  proof -
    have "map e_seq ?es = [Suc from..<Suc (store_head st)]"
      using journal_seq_drop assms(1) unfolding store_ok_def store_head_def by blast
    then have "map e_seq ?es = [Suc (k_seq ?c)..<Suc (k_seq ?c + length ?es)]" by (simp only: len relay_cursor.simps)
    from feed_events [OF this, of _ ?v] max len show ?thesis by simp
  qed
  moreover have "?step (?v\<lparr>pg_cursor := Some (?c\<lparr>k_seq := from + length ?es\<rparr>)\<rparr>) (CaughtUp \<lparr>k_stream = st_stream st, k_seq = store_head st\<rparr>)
      = Some \<lparr>pg_cursor = Some \<lparr>k_stream = st_stream st, k_seq = store_head st\<rparr>, pg_through = Some (store_head st), pg_live = True\<rparr>"
    using len by (simp add: protocol_step_def)
  ultimately show ?thesis by (simp add: feed_append)
qed

lemma subscription_startE:
  assumes "subscription_start S C hub first = Inr cn"
  obtains cur es where "parse_client S first = Inr (Some (Subscribe (vp_id (st_profile (hub_store hub))) cur))"
    "replay (hub_store hub) cur = Inr es" "cn_changes cn = bc_subscribe C (hub_changes hub)" "cn_out cn = []" "cn_open cn"
    "cn_sent cn = \<lparr>k_stream = st_stream (hub_store hub), k_seq = store_head (hub_store hub)\<rparr>"
    "cn_todo cn = Begin (vp_id (st_profile (hub_store hub))) (st_stream (hub_store hub)) (case cur of None \<Rightarrow> 0 | Some c \<Rightarrow> k_seq c)
      (store_head (hub_store hub)) # map EventMessage es @ [CaughtUp (cn_sent cn)]"
proof -
  obtain m where m: "parse_client S first = Inr m" using assms by (auto simp: subscription_start_def bind_res_Inr)
  with assms obtain p cur where "m = Some (Subscribe p cur)"
    by (cases m) (auto simp: subscription_start_def split: client_message.splits)
  with m assms show thesis
    by (intro that [of cur "sn_events (projr (hub_snapshot C hub cur))"])
       (auto simp: subscription_start_def hub_snapshot_def bind_res_Inr guard_Inr Let_def)
qed

lemma server_ok_start:
  assumes C: "broadcast_ok C cap chlog pos" and ok: "store_ok cr L (hub_store hub)"
    and first: "parse_client S first = Inr (Some (Subscribe p (pg_cursor v)))" and start: "subscription_start S C hub first = Inr cn"
    and v: "pg_through v = None"
  shows "server_ok cr L chlog pos (chlog (hub_changes hub)) (store_head (hub_store hub))
      (case pg_cursor v of None \<Rightarrow> 0 | Some c \<Rightarrow> k_seq c) v (st_profile (hub_store hub)) hub cn"
proof -
  let ?st = "hub_store hub" and ?from = "case pg_cursor v of None \<Rightarrow> 0 | Some c \<Rightarrow> k_seq c"
  obtain cur es where cur: "parse_client S first = Inr (Some (Subscribe (vp_id (st_profile ?st)) cur))" "replay ?st cur = Inr es"
    and cn: "cn_changes cn = bc_subscribe C (hub_changes hub)" "cn_out cn = []" "cn_open cn"
      "cn_sent cn = \<lparr>k_stream = st_stream ?st, k_seq = store_head ?st\<rparr>"
      "cn_todo cn = Begin (vp_id (st_profile ?st)) (st_stream ?st) (case cur of None \<Rightarrow> 0 | Some c \<Rightarrow> k_seq c) (store_head ?st)
        # map EventMessage es @ [CaughtUp (cn_sent cn)]"
    by (rule subscription_startE [OF start])
  have c: "cur = pg_cursor v" using cur(1) first by simp
  note r = cur(2) [unfolded c] and cn = cn [unfolded c]
  note r' = replay_InrD [OF r]
  have "pg_cursor v = None \<and> ?from = 0 \<or> pg_cursor v = Some \<lparr>k_stream = st_stream ?st, k_seq = ?from\<rparr>"
    using r'(4) by auto
  from feed_snapshot [OF ok _ v this] r' cn hub_log_start [OF ok r'(1), of chlog] show ?thesis
    by (simp add: server_ok_def conn_ok_def Let_def store_head_def broadcast_subscribe [OF C])
qed

lemma conn_ok_events:
  assumes "conn_ok cr L chlog pos base h from v vp hub cn"
    and "st_events (hub_store hub') = st_events (hub_store hub) @ es" "st_stream (hub_store hub') = st_stream (hub_store hub)"
  shows "conn_ok cr L chlog pos base h from v vp hub' cn"
  using assms by (simp add: conn_ok_def Let_def)

lemma hub_publish_extends:
  assumes "hub_log cr L chlog base h hub"
  shows "\<exists>es. st_events (hub_store (fst (hub_publish cr L S C io hub r))) = st_events (hub_store hub) @ es"
  using assms publish_extends by (auto simp: hub_publish_store hub_log_def Let_def)

lemma server_ok_publish:
  assumes C: "broadcast_ok C cap chlog pos" and ok: "server_ok cr L chlog pos base h from v vp hub cn"
  shows "server_ok cr L chlog pos base h from v vp (fst (hub_publish cr L S C io hub r)) cn"
proof -
  have hub: "hub_log cr L chlog base h hub" using ok by (simp add: server_ok_def)
  obtain es where "st_events (hub_store (fst (hub_publish cr L S C io hub r))) = st_events (hub_store hub) @ es"
    using hub_publish_extends [OF hub] by blast
  with conn_ok_events ok hub_log_publish [OF C hub] hub_publish_keeps(1,2) show ?thesis
    by (fastforce simp: server_ok_def)
qed

lemma conn_ok_change:
  assumes C: "broadcast_ok C cap chlog pos" and hub: "hub_log cr L chlog base h hub" and prof: "st_profile (hub_store hub) = vp"
    and ok: "conn_ok cr L chlog pos base h from v vp hub cn" and todo: "cn_todo cn = []"
    and ch: "subscription_change C hub cn = Some (Inr cn')"
  shows "conn_ok cr L chlog pos base h from v vp hub cn'"
proof -
  let ?es = "st_events (hub_store hub)" and ?n = "k_seq (cn_sent cn)"
  obtain e rx where r: "bc_recv C (hub_changes hub) (cn_changes cn) = Some (Some (Some e), rx)"
    and cn': "cn' = cn\<lparr>cn_changes := rx, cn_sent := (cn_sent cn)\<lparr>k_seq := e_seq e\<rparr>, cn_out := cn_out cn @ [EventMessage e]\<rparr>"
    and e: "e_seq e = Suc ?n"
    using ch by (auto simp: subscription_change_def guard_Inr split: option.splits prod.splits)
  have c: "h \<le> ?n" "?n \<le> length ?es" "pos (cn_changes cn) = length base + (?n - h)" "from \<le> h"
    "feed (protocol_step (vp_id vp) (max_events vp)) v (cn_out cn) = Some \<lparr>pg_cursor = Some (cn_sent cn), pg_through = Some h, pg_live = True\<rparr>"
    "sent_events (cn_out cn) = drop from (take ?n ?es)"
    using ok todo by (simp_all add: conn_ok_def Let_def)
  from hub_recv_event [OF C hub c(3,1,2) r] have n: "?n < length ?es" "e = ?es ! ?n" "pos rx = length base + (Suc ?n - h)" by simp_all
  have "Suc ?n \<le> max_events vp"
    using n(1) store_bounded(1) [of cr L "hub_store hub"] hub prof by (auto simp: hub_log_def max_events_def Let_def)
  then have "protocol_step (vp_id vp) (max_events vp) \<lparr>pg_cursor = Some (cn_sent cn), pg_through = Some h, pg_live = True\<rparr> (EventMessage e)
      = Some \<lparr>pg_cursor = Some ((cn_sent cn)\<lparr>k_seq := e_seq e\<rparr>), pg_through = Some h, pg_live = True\<rparr>"
    using e by (simp add: protocol_step_def)
  from feed_one [OF c(5) this] drop_take_Suc [OF _ n(1), of "from"] ok c n e todo cn' show ?thesis
    by (simp add: conn_ok_def Let_def)
qed

lemma subscription_send_same:
  "cn_out (subscription_send now cn) @ cn_todo (subscription_send now cn) = cn_out cn @ cn_todo cn"
  "cn_changes (subscription_send now cn) = cn_changes cn" "cn_sent (subscription_send now cn) = cn_sent cn"
  "cn_open (subscription_send now cn) = cn_open cn" "cn_todo (subscription_send now cn) \<noteq> [] \<Longrightarrow> cn_todo cn \<noteq> []"
  by (auto simp: subscription_send_def Let_def split: list.splits)

lemma conn_ok_send:
  assumes "conn_ok cr L chlog pos base h from v vp hub cn"
  shows "conn_ok cr L chlog pos base h from v vp hub (subscription_send now cn)"
  using assms subscription_send_same(5) [of now cn] unfolding conn_ok_def Let_def subscription_send_same by blast

lemma conn_ok_extra:
  assumes "conn_ok cr L chlog pos base h from v vp hub cn" and "cn_todo cn = []"
    and "cn_changes cn' = cn_changes cn" "cn_todo cn' = []" "cn_sent cn' = cn_sent cn" "cn_out cn' = cn_out cn @ ms"
    and "ms = [] \<or> (\<exists>n st. ms = [Published n st]) \<or> ms = [Heartbeat (cn_sent cn)]"
  shows "conn_ok cr L chlog pos base h from v vp hub cn'"
proof -
  have "feed (protocol_step (vp_id vp) (max_events vp)) \<lparr>pg_cursor = Some (cn_sent cn), pg_through = Some h, pg_live = True\<rparr> ms
      = Some \<lparr>pg_cursor = Some (cn_sent cn), pg_through = Some h, pg_live = True\<rparr>" "sent_events ms = []"
    using assms(7) by (auto simp: protocol_step_def)
  with assms(1-6) show ?thesis by (simp add: conn_ok_def Let_def feed_append)
qed

lemma subscription_message_cases:
  assumes "subscription_message cr L S C io now hub cn m = (hub', res)"
  obtains (none) "hub' = hub" "\<And>cn'. res = Inr cn' \<Longrightarrow> cn' = cn"
    | (publish) r where "hub' = fst (hub_publish cr L S C io hub r)"
        "\<And>cn'. res = Inr cn' \<Longrightarrow> cn_changes cn' = cn_changes cn \<and> cn_todo cn' = cn_todo cn \<and> cn_sent cn' = cn_sent cn
          \<and> cn_open cn' = cn_open cn \<and> (\<exists>n st. cn_out cn' = cn_out cn @ [Published n st]
            \<and> hub_publish cr L S C io hub r = (hub', Inr (Published n st)))"
proof (cases "\<exists>r. parse_client S m = Inr (Some (Publish r)) \<and> hub' = fst (hub_publish cr L S C io hub r)")
  case True
  then obtain r where r: "parse_client S m = Inr (Some (Publish r))" "hub' = fst (hub_publish cr L S C io hub r)" by blast
  have "\<exists>n st. reply = Published n st" if "hub_publish cr L S C io hub r = (hub'', Inr reply)" for hub'' reply
    using that by (auto simp: hub_publish_def split: prod.splits sum.splits)
  with assms r show thesis
    by (intro publish [of r]) (auto simp: subscription_message_def Let_def split: if_splits prod.splits sum.splits)
next
  case False
  with assms show thesis
    by (intro none) (auto simp: subscription_message_def Let_def split: sum.splits option.splits client_message.splits if_splits prod.splits)
qed

lemma server_ok_step:
  assumes C: "broadcast_ok C cap chlog pos" and step: "server_step cr L S C (hub, cn) (hub', cn')"
    and ok: "server_ok cr L chlog pos base h from v vp hub cn"
  shows "server_ok cr L chlog pos base h from v vp hub' cn'"
  using step
proof cases
  case (step_other io r)
  with server_ok_publish [OF C ok] show ?thesis by simp
next
  case (step_send now)
  with ok conn_ok_send show ?thesis by (auto simp: server_ok_def)
next
  case step_change
  with ok conn_ok_change [OF C] show ?thesis by (auto simp: server_ok_def)
next
  case (step_message io now m)
  from step_message(3) show ?thesis
  proof (cases rule: subscription_message_cases)
    case none
    with ok show ?thesis by simp
  next
    case (publish r)
    with server_ok_publish [OF C ok, of S io r] have ok': "server_ok cr L chlog pos base h from v vp hub' cn" by simp
    with step_message(1,2) publish(2) [OF refl] conn_ok_extra [of cr L chlog pos base h "from" v vp hub' cn cn'] show ?thesis
      by (fastforce simp: server_ok_def)
  qed
next
  case step_heartbeat
  then have "cn' = cn\<lparr>cn_out := cn_out cn @ [Heartbeat (cn_sent cn)]\<rparr>" by (simp add: subscription_heartbeat_def guard_Inr)
  with step_heartbeat ok conn_ok_extra [of cr L chlog pos base h "from" v vp hub cn cn' "[Heartbeat (cn_sent cn)]"] show ?thesis
    by (simp add: server_ok_def)
next
  case (step_error io now m reason b)
  from step_error(4) show ?thesis
  proof (cases rule: subscription_message_cases)
    case none
    with ok step_error show ?thesis by (simp add: server_ok_def subscription_end_def)
  next
    case (publish r)
    with server_ok_publish [OF C ok, of S io r] step_error show ?thesis by (simp add: server_ok_def subscription_end_def)
  qed
next
  case step_close
  with ok show ?thesis by (simp add: server_ok_def subscription_end_def)
qed

lemma server_ok_steps:
  assumes C: "broadcast_ok C cap chlog pos" and steps: "(server_step cr L S C)\<^sup>*\<^sup>* (hub, cn) (hub', cn')"
    and ok: "server_ok cr L chlog pos base h from v vp hub cn"
  shows "server_ok cr L chlog pos base h from v vp hub' cn'"
  using steps
proof (induction "(hub', cn')" arbitrary: hub' cn' rule: rtranclp_induct)
  case base
  with ok show ?case by simp
next
  case (step x)
  obtain hub1 cn1 where x: "x = (hub1, cn1)" by (cases x)
  with step show ?case using server_ok_step [OF C] by blast
qed

section \<open>Sent messages\<close>

lemma sent_event: "EventMessage e \<in> set ms \<longleftrightarrow> e \<in> set (sent_events ms)"
  by (induction ms rule: sent_events.induct) auto

lemma journal_sound:
  assumes "journal_ok vf es" "e \<in> set es"
  shows "event_sound vf e"
proof (cases "e_conflict_with e")
  case None
  with journal_verified [OF assms] show ?thesis by (simp add: event_sound_def)
next
  case (Some d)
  with journal_verified [OF assms] journal_conflict [OF assms Some] show ?thesis by (simp add: event_sound_def)
qed

lemma conn_sound:
  assumes "hub_log cr L chlog base h hub" and "st_profile (hub_store hub) = vp" and "conn_ok cr L chlog pos base h from v vp hub cn"
  shows "list_all (message_sound (profile_verify cr L vp)) (cn_out cn)"
proof -
  have j: "journal_ok (profile_verify cr L vp) (st_events (hub_store hub))"
    using assms(1,2) by (simp add: hub_log_def store_ok_def Let_def)
  have "event_sound (profile_verify cr L vp) e" if "EventMessage e \<in> set (cn_out cn)" for e
  proof -
    have "e \<in> set (sent_events (cn_out cn @ cn_todo cn))" using that by (simp add: sent_event)
    then have "e \<in> set (drop from (take (k_seq (cn_sent cn)) (st_events (hub_store hub))))"
      using assms(3) unfolding conn_ok_def Let_def by (simp only:)
    then have "e \<in> set (st_events (hub_store hub))" using set_drop_subset set_take_subset by fast
    then show ?thesis by (rule journal_sound [OF j])
  qed
  then show ?thesis by (auto simp: list_all_iff message_sound_def split: server_message.split)
qed

end
