(* ===== verification/Relay_Delivery.thy ===== *)
theory Relay_Delivery
  imports Relay_Subscription Relay_Demo
begin

text \<open>
  Properties of the relay's subscriptions: what a connection sends is accepted by the tracker,
  every event is delivered exactly once and in order, and no gap error occurs while the journal works.
\<close>

section \<open>Subscribed connections\<close>

text \<open>Hypotheses of a connection: a relay's store behind the hub, a channel for 256 changes.\<close>

definition subscribed :: "crypto \<Rightarrow> elements_lib \<Rightarrow> serde \<Rightarrow> ('c, 'r) broadcast \<Rightarrow> validated_profile \<Rightarrow> relay_cursor option
    \<Rightarrow> 'c hub \<Rightarrow> 'r connection \<Rightarrow> bool" where
  "subscribed cr L S C vp cur hub cn \<longleftrightarrow> relay_reachable cr L S vp (hub_store hub)
     \<and> (\<exists>first p. parse_client S first = Inr (Some (Subscribe p cur)) \<and> subscription_start S C hub first = Inr cn)"

lemma subscribed_ok:
  assumes "serde_ok S" "profile_ok vp" "broadcast_ok C cap chlog pos" "subscribed cr L S C vp (pg_cursor v) hub cn" "pg_through v = None"
    and "(server_step cr L S C)\<^sup>*\<^sup>* (hub, cn) (hub', cn')"
  shows "server_ok cr L chlog pos (chlog (hub_changes hub)) (store_head (hub_store hub))
    (case pg_cursor v of None \<Rightarrow> 0 | Some c \<Rightarrow> k_seq c) v vp hub' cn'"
proof -
  from assms(4) obtain first p where s: "relay_reachable cr L S vp (hub_store hub)"
    "parse_client S first = Inr (Some (Subscribe p (pg_cursor v)))" "subscription_start S C hub first = Inr cn"
    by (auto simp: subscribed_def)
  note r = reachable_state [OF assms(1,2) s(1)]
  from server_ok_steps [OF assms(3,6) server_ok_start [OF assms(3) r(3) s(2,3) assms(5)]] r(2) show ?thesis by simp
qed

section \<open>Properties\<close>

text \<open>
  C27. A relay never confuses a correct subscriber: whatever other tasks publish meanwhile, the messages
  sent on a connection that is still open are all accepted, in order, by a tracker that subscribed with
  its own cursor, and once the snapshot is sent the tracker is caught up exactly at the sent cursor.
\<close>

theorem subscription_accepted:
  assumes "serde_ok S" and "profile_validate cr L taproot profile_id p = Inr vp" and "hex_string 64 (vp_id vp)"
    and "broadcast_ok C (MAX_SESSIONS * 2) chlog pos" and "subscribed cr L S C vp (t_cursor t) hub cn" and "t_through t = None"
    and "(server_step cr L S C)\<^sup>*\<^sup>* (hub, cn) (hub', cn')" and "cn_open cn'"
  shows "\<exists>t'. feed (tracker_accept cr L vp) t (cn_out cn') = Some t'
    \<and> (cn_todo cn' = [] \<longrightarrow> t_caught_up t' \<and> t_cursor t' = Some (cn_sent cn'))"
proof -
  let ?v = "tracker_progress t"
  have "server_ok cr L chlog pos (chlog (hub_changes hub)) (store_head (hub_store hub))
      (case pg_cursor ?v of None \<Rightarrow> 0 | Some c \<Rightarrow> k_seq c) ?v vp hub' cn'"
    using assms by (intro subscribed_ok [OF assms(1) profile_validate_ok [OF assms(2,3)] assms(4)]) (simp_all add: tracker_progress_def)
  then have ok: "conn_ok cr L chlog pos (chlog (hub_changes hub)) (store_head (hub_store hub))
      (case pg_cursor ?v of None \<Rightarrow> 0 | Some c \<Rightarrow> k_seq c) ?v vp hub' cn'"
    and hub: "hub_log cr L chlog (chlog (hub_changes hub)) (store_head (hub_store hub)) hub'" "st_profile (hub_store hub') = vp"
    using assms(8) by (simp_all add: server_ok_def)
  have "feed (protocol_step (vp_id vp) (max_events vp)) ?v (cn_out cn' @ cn_todo cn') =
      Some \<lparr>pg_cursor = Some (cn_sent cn'), pg_through = Some (store_head (hub_store hub)), pg_live = True\<rparr>"
    using ok by (simp add: conn_ok_def Let_def)
  then obtain v' where v': "feed (protocol_step (vp_id vp) (max_events vp)) ?v (cn_out cn') = Some v'"
    "cn_todo cn' = [] \<Longrightarrow> v' = \<lparr>pg_cursor = Some (cn_sent cn'), pg_through = Some (store_head (hub_store hub)), pg_live = True\<rparr>"
    by (fastforce simp: feed_append bind_eq_Some_conv)
  from trk.feed_accepts [OF v'(1) conn_sound [OF hub ok]] obtain t' where
    "feed (tracker_accept cr L vp) t (cn_out cn') = Some t'" "tracker_progress t' = v'" by blast
  with v'(2) show ?thesis by (auto simp: tracker_progress_def)
qed

text \<open>
  C28. Delivery is exact and live: the events sent on an open connection are those of the journal after
  the subscriber's cursor up to the sent cursor, each once and in order; while the journal works, the
  next receive sends the next event, and it waits only when every stored event was sent.
\<close>

theorem delivery_exact:
  assumes "serde_ok S" and "profile_validate cr L taproot profile_id p = Inr vp" and "hex_string 64 (vp_id vp)"
    and "broadcast_ok C (MAX_SESSIONS * 2) chlog pos" and "subscribed cr L S C vp cur hub cn"
    and "(server_step cr L S C)\<^sup>*\<^sup>* (hub, cn) (hub', cn')" and "cn_open cn'" and "cn_todo cn' = []"
  shows "sent_events (cn_out cn') = drop (case cur of None \<Rightarrow> 0 | Some c \<Rightarrow> k_seq c)
      (take (k_seq (cn_sent cn')) (st_events (hub_store hub')))
    \<and> (\<not> st_failed (hub_store hub') \<longrightarrow>
        (subscription_change C hub' cn' = None \<longleftrightarrow> k_seq (cn_sent cn') = store_head (hub_store hub')))
    \<and> (\<not> st_failed (hub_store hub') \<and> k_seq (cn_sent cn') < store_head (hub_store hub') \<longrightarrow>
        (\<exists>cn''. subscription_change C hub' cn' = Some (Inr cn'')
          \<and> cn_out cn'' = cn_out cn' @ [EventMessage (st_events (hub_store hub') ! k_seq (cn_sent cn'))]))"
proof -
  define v where "v = \<lparr>pg_cursor = cur, pg_through = None, pg_live = False\<rparr>"
  let ?base = "chlog (hub_changes hub)" and ?h = "store_head (hub_store hub)" and ?n = "k_seq (cn_sent cn')"
  let ?from = "case cur of None \<Rightarrow> 0 | Some c \<Rightarrow> k_seq c" and ?es = "st_events (hub_store hub')"
  have C: "broadcast_ok C 256 chlog pos" using assms(4) by (simp add: MAX_SESSIONS_def)
  have "server_ok cr L chlog pos ?base ?h (case pg_cursor v of None \<Rightarrow> 0 | Some c \<Rightarrow> k_seq c) v vp hub' cn'"
    using assms by (intro subscribed_ok [OF assms(1) profile_validate_ok [OF assms(2,3)] assms(4)]) (simp_all add: v_def)
  then have hub: "hub_log cr L chlog ?base ?h hub'"
    and c: "?h \<le> ?n" "?n \<le> length ?es" "pos (cn_changes cn') = length ?base + (?n - ?h)"
      "sent_events (cn_out cn') = drop ?from (take ?n ?es)"
    using assms(7,8) by (simp_all add: server_ok_def conn_ok_def v_def Let_def)
  have "journal_ok (profile_verify cr L (st_profile (hub_store hub'))) ?es" using hub by (simp add: hub_log_def store_ok_def Let_def)
  note seq = journal_nth_seq [OF this]
  note work = hub_recv_working [OF C hub _ c(3,1,2)]
  have live: "\<exists>cn''. subscription_change C hub' cn' = Some (Inr cn'') \<and> cn_out cn'' = cn_out cn' @ [EventMessage (?es ! ?n)]"
    if "\<not> st_failed (hub_store hub')" "?n < length ?es"
    using work(2) [OF that] seq [OF that(2)] by (auto simp: subscription_change_def)
  have "subscription_change C hub' cn' = None \<longleftrightarrow> ?n = length ?es" if nf: "\<not> st_failed (hub_store hub')"
    using work(1) [OF nf] live [OF nf] c(2) by (cases "?n = length ?es") (auto simp: subscription_change_def)
  with live c(4) show ?thesis by (simp add: store_head_def)
qed

lemma feed_tracker_iff:
  "feed (tracker_accept cr L vp) t ms = Some t' \<longleftrightarrow>
    feed (protocol_step (vp_id vp) (max_events vp)) (tracker_progress t) ms = Some (tracker_progress t')
    \<and> list_all (message_sound (profile_verify cr L vp)) ms"
proof (induction ms arbitrary: t)
  case Nil
  show ?case by (cases t; cases t') (auto simp: tracker_progress_def)
next
  case (Cons m ms)
  show ?case
  proof
    assume "feed (tracker_accept cr L vp) t (m # ms) = Some t'"
    then obtain t1 where t1: "tracker_accept cr L vp t m = Some t1" "feed (tracker_accept cr L vp) t1 ms = Some t'"
      by (auto simp: bind_eq_Some_conv)
    from t1(1) [unfolded tracker_accept_iff] t1(2) [unfolded Cons.IH]
    show "feed (protocol_step (vp_id vp) (max_events vp)) (tracker_progress t) (m # ms) = Some (tracker_progress t')
        \<and> list_all (message_sound (profile_verify cr L vp)) (m # ms)" by simp
  next
    assume r: "feed (protocol_step (vp_id vp) (max_events vp)) (tracker_progress t) (m # ms) = Some (tracker_progress t')
        \<and> list_all (message_sound (profile_verify cr L vp)) (m # ms)"
    then obtain v where v: "protocol_step (vp_id vp) (max_events vp) (tracker_progress t) m = Some v"
      "feed (protocol_step (vp_id vp) (max_events vp)) v ms = Some (tracker_progress t')" by (auto simp: bind_eq_Some_conv)
    obtain t1 where "tracker_progress t1 = v" using tracker_progress_surj by blast
    with v r Cons.IH [of t1] tracker_accept_iff [of cr L vp t m t1] show "feed (tracker_accept cr L vp) t (m # ms) = Some t'" by simp
  qed
qed

text \<open>
  The cursor validation is the protocol: a tracker accepts a sequence of messages exactly if it is a
  conversation of the protocol, whose state the tracker then represents, and every event in it carries
  verified receipts and, as conflict, a receipt of the same bond for another transaction.
\<close>

theorem tracker_exact:
  "feed (tracker_accept cr L vp) t ms = Some t' \<longleftrightarrow>
    feed (protocol_step (vp_id vp) (max_events vp)) (tracker_progress t) ms = Some (tracker_progress t')
    \<and> (\<forall>e. EventMessage e \<in> set ms \<longrightarrow> event_sound (profile_verify cr L vp) e)"
  by (auto simp: feed_tracker_iff list_all_iff message_sound_def split: server_message.splits)

section \<open>A concrete connection\<close>

text \<open>A channel of 256 changes, and a subscription during which another task publishes.\<close>

definition sample_channel :: "(change list, nat) broadcast" where
  "sample_channel = \<lparr>bc_send = (\<lambda>c x. c @ [x]), bc_subscribe = length,
     bc_recv = (\<lambda>c r. if length c \<le> r then None else if length c - r \<le> 256 then Some (Some (c ! r), Suc r) else Some (None, r))\<rparr>"

definition sample_hub :: "nat \<Rightarrow> change list hub" where
  "sample_hub n = \<lparr>hub_store = sample_store n, hub_changes = map (Some \<circ> sample_event) [2..<Suc n]\<rparr>"

definition sample_cursor :: "nat \<Rightarrow> relay_cursor" where
  "sample_cursor n = \<lparr>k_stream = replicate 64 (CHR ''b''), k_seq = n\<rparr>"

definition sample_messages :: "server_message list" where
  "sample_messages = [Begin (vp_id sample_validated) (replicate 64 (CHR ''b'')) 0 1, EventMessage (sample_event 1),
     CaughtUp (sample_cursor 1), EventMessage (sample_event 2)]"

text \<open>The connection after \<open>k\<close> messages were sent.\<close>

definition sample_connection :: "nat \<Rightarrow> nat connection" where
  "sample_connection k = \<lparr>cn_changes = (if k = 4 then 1 else 0), cn_todo = drop k (take 3 sample_messages),
     cn_sent = sample_cursor (if k = 4 then 2 else 1), cn_rate_since = 0, cn_publishes = 0,
     cn_out = take k sample_messages, cn_open = True\<rparr>"

lemma sample_channel_ok: "broadcast_ok sample_channel (MAX_SESSIONS * 2) id id"
  by (simp add: broadcast_ok_def sample_channel_def MAX_SESSIONS_def)

lemma sample_subscribe:
  "parse_client sample_serde (Text (json_print (client_json sample_serde (Subscribe (vp_id sample_validated) None))))
    = Inr (Some (Subscribe (vp_id sample_validated) None))"
proof -
  have "length (quote (vp_id sample_validated)) \<le> 386"
    using length_quote [of "vp_id sample_validated"] sample_id_hex by (simp add: hex_string_def)
  moreover have "length (quote ''subscribe'') \<le> 56" "length (quote ''type'') \<le> 26" "length (quote ''profile'') \<le> 44" "length (quote ''cursor'') \<le> 38"
    using length_quote [of "''subscribe''"] length_quote [of "''type''"] length_quote [of "''profile''"] length_quote [of "''cursor''"] by simp_all
  ultimately have "length (json_print (client_json sample_serde (Subscribe (vp_id sample_validated) None))) \<le> RELAY_MAX_FRAME"
    by (simp add: client_json_def wire_subscribe_def wire_option_def RELAY_MAX_FRAME_def)
  moreover have "read_client sample_serde (json_print (client_json sample_serde (Subscribe (vp_id sample_validated) None)))
      = Some (Subscribe (vp_id sample_validated) None)"
    using sample_serde_ok by (simp add: serde_ok_def small_client_def)
  ultimately show ?thesis by (simp add: parse_client_def)
qed

lemma sample_start:
  "subscription_start sample_serde sample_channel (sample_hub 1)
     (Text (json_print (client_json sample_serde (Subscribe (vp_id sample_validated) None)))) = Inr (sample_connection 0)"
  unfolding subscription_start_def sample_subscribe
  by (simp add: hub_snapshot_def replay_def sample_hub_def sample_store_simps store_head_def sample_channel_def
      sample_connection_def sample_messages_def sample_cursor_def)

lemma sample_subscribed:
  "subscribed sample_crypto sample_lib sample_serde sample_channel sample_validated None (sample_hub 1) (sample_connection 0)"
proof -
  have "relay_reachable sample_crypto sample_lib sample_serde sample_validated (hub_store (sample_hub 1))"
    using sample_reachable [of 1] by (simp add: sample_hub_def)
  then show ?thesis unfolding subscribed_def using sample_subscribe sample_start by blast
qed

lemma sample_connection_steps:
  "(server_step sample_crypto sample_lib sample_serde sample_channel)\<^sup>*\<^sup>* (sample_hub 1, sample_connection 0) (sample_hub 2, sample_connection 4)"
proof -
  let ?step = "server_step sample_crypto sample_lib sample_serde sample_channel"
  have send: "subscription_send 0 (sample_connection k) = sample_connection (Suc k)" if "k < 3" for k
  proof -
    from that consider "k = 0" | "k = 1" | "k = 2" by linarith
    then show ?thesis by cases (simp_all add: subscription_send_def sample_connection_def sample_messages_def)
  qed
  have todo: "cn_todo (sample_connection k) \<noteq> []" "cn_open (sample_connection k)" if "k < 3" for k
    using that by (simp_all add: sample_connection_def sample_messages_def)
  have s: "?step (sample_hub 1, sample_connection k) (sample_hub 1, sample_connection (Suc k))" if "k < 3" for k
    using step_send [OF todo(2,1) [OF that], of sample_crypto sample_lib sample_serde sample_channel "sample_hub 1" 0] send [OF that] by simp
  have "fst (hub_publish sample_crypto sample_lib sample_serde sample_channel None (sample_hub 1) (sample_receipt 2)) = sample_hub 2"
    using sample_publish [of 1] by (simp add: hub_publish_def sample_hub_def sample_channel_def numeral_2_eq_2)
  then have p: "?step (sample_hub 1, sample_connection 3) (sample_hub 2, sample_connection 3)"
    using step_other [of sample_crypto sample_lib sample_serde sample_channel "sample_hub 1" "sample_connection 3" None "sample_receipt 2"] by simp
  have "subscription_change sample_channel (sample_hub 2) (sample_connection 3) = Some (Inr (sample_connection 4))"
    by (simp add: subscription_change_def sample_channel_def sample_hub_def sample_connection_def sample_cursor_def sample_messages_def sample_event_def)
  then have c: "?step (sample_hub 2, sample_connection 3) (sample_hub 2, sample_connection 4)"
    by (intro step_change) (simp_all add: sample_connection_def sample_messages_def)
  from s [of 0] s [of 1] s [of 2] p c show ?thesis by (simp add: numeral_eq_Suc)
qed

theorem subscription_accepted_witness:
  "\<exists>t'. feed (tracker_accept sample_crypto sample_lib sample_validated) new_tracker sample_messages = Some t'
     \<and> t_caught_up t' \<and> t_cursor t' = Some (sample_cursor 2)"
proof -
  have "subscribed sample_crypto sample_lib sample_serde sample_channel sample_validated (t_cursor new_tracker) (sample_hub 1) (sample_connection 0)"
    "t_through new_tracker = None"
    using sample_subscribed by (simp_all add: new_tracker_def)
  from subscription_accepted [OF sample_serde_ok sample_profile_validate sample_id_hex sample_channel_ok this sample_connection_steps]
  show ?thesis by (simp add: sample_connection_def sample_messages_def)
qed

theorem delivery_exact_witness:
  "sent_events sample_messages = st_events (sample_store 2)
   \<and> subscription_change sample_channel (sample_hub 2) (sample_connection 4) = None"
proof -
  have open4: "cn_open (sample_connection 4)" "cn_todo (sample_connection 4) = []"
    by (simp_all add: sample_connection_def sample_messages_def)
  have "st_failed (hub_store (sample_hub 2)) = False" "k_seq (cn_sent (sample_connection 4)) = 2" "store_head (hub_store (sample_hub 2)) = 2"
    "length (st_events (sample_store 2)) = 2" "hub_store (sample_hub 2) = sample_store 2" "cn_out (sample_connection 4) = sample_messages"
    by (simp_all add: sample_connection_def sample_cursor_def sample_hub_def sample_store_simps store_head_def sample_messages_def)
  with delivery_exact [OF sample_serde_ok sample_profile_validate sample_id_hex sample_channel_ok sample_subscribed
      sample_connection_steps open4] show ?thesis by simp
qed

theorem tracker_exact_witness:
  "feed (protocol_step (vp_id sample_validated) (max_events sample_validated)) (tracker_progress new_tracker)
     [Begin (vp_id sample_validated) (replicate 64 (CHR ''b'')) 0 1, EventMessage (sample_event 1)]
     = Some \<lparr>pg_cursor = Some (sample_cursor 1), pg_through = Some 1, pg_live = False\<rparr>
   \<and> feed (tracker_accept sample_crypto sample_lib sample_validated) new_tracker
     [Begin (vp_id sample_validated) (replicate 64 (CHR ''b'')) 0 1, EventMessage (sample_event 1)]
     = Some \<lparr>t_cursor = Some (sample_cursor 1), t_caught_up = False, t_through = Some 1\<rparr>"
proof -
  have f: "feed (protocol_step (vp_id sample_validated) (max_events sample_validated)) (tracker_progress new_tracker)
     [Begin (vp_id sample_validated) (replicate 64 (CHR ''b'')) 0 1, EventMessage (sample_event 1)]
     = Some \<lparr>pg_cursor = Some (sample_cursor 1), pg_through = Some 1, pg_live = False\<rparr>"
    using sample_stream_hex
    by (simp add: protocol_step_def protocol_begin_def tracker_progress_def new_tracker_def max_events_def sample_validated_def
        sample_event_def sample_cursor_def)
  have "event_sound (profile_verify sample_crypto sample_lib sample_validated) (sample_event 1)"
    using sample_verify [of 1]
    by (simp add: event_sound_def sample_event_def profile_verify_def sample_validated_def sample_receipt_def)
  with f show ?thesis
    using tracker_exact [of sample_crypto sample_lib sample_validated new_tracker
        "[Begin (vp_id sample_validated) (replicate 64 (CHR ''b'')) 0 1, EventMessage (sample_event 1)]"
        "\<lparr>t_cursor = Some (sample_cursor 1), t_caught_up = False, t_through = Some 1\<rparr>"]
    by (simp add: tracker_progress_def)
qed

end
