(* ===== verification/Relay_Peer.thy ===== *)
theory Relay_Peer
  imports Relay_Delivery
begin

text \<open>
  Peer sessions: a relay that receives an event from a peer retains its evidence before the peer's
  cursor moves, and messages between relays fit a frame and are read back.
\<close>

section \<open>Covered receipts\<close>

text \<open>A store covers a receipt if it retains its promise or two conflicting promises of its bond.\<close>

definition covers :: "store \<Rightarrow> operator_receipt \<Rightarrow> bool" where
  "covers st r \<longleftrightarrow> (\<exists>e \<in> set (st_events st). r_bond (e_receipt e) = r_bond r \<and> r_txid (e_receipt e) = r_txid r)
     \<or> length (of_bond (r_bond r) (st_events st)) = 2"

lemma covers_extends:
  assumes "covers st r" "st_events st' = st_events st @ es" "store_ok cr L st'"
  shows "covers st' r"
proof -
  have "journal_ok (profile_verify cr L (st_profile st')) (st_events st')" using assms(3) by (simp add: store_ok_def)
  from journal_bond [OF this, of "r_bond r"] assms(1,2) show ?thesis by (auto simp: covers_def)
qed

lemma covers_own: "e \<in> set (st_events st) \<Longrightarrow> covers st (e_receipt e)"
  by (auto simp: covers_def)

lemma publish_working:
  assumes S: "serde_ok S" and ok: "store_ok cr L st" and nf: "\<not> st_failed st"
  shows "\<not> st_failed (fst (publish cr L S None st r))"
proof -
  obtain st' res where p: "publish cr L S None st r = (st', res)" by fastforce
  from p ok have "\<not> st_failed st'"
  proof (cases rule: publish_cases)
    case (failed e msg jr)
    with event_fits [OF S ok failed(3)] show ?thesis by (auto simp: append_journal_def Let_def)
  qed (use nf in simp_all)
  with p show ?thesis by simp
qed

lemma prepare_status:
  assumes p: "prepare cr L st r = Inr (res, status, n)" and ok: "store_ok cr L st"
  shows "length status \<le> 18 \<and> n \<le> 256"
proof -
  have jo: "journal_ok (profile_verify cr L (st_profile st)) (st_events st)" using ok by (simp add: store_ok_def)
  show ?thesis
    using p jo
  proof (cases rule: prepare_cases)
    case (stored e)
    then have "store_ok cr L (st\<lparr>st_events := st_events st @ [e]\<rparr>)" using ok by (simp add: store_ok_def)
    from store_seq_small [OF this, of e] stored show ?thesis by simp
  next
    case (duplicate d)
    with store_seq_small [OF ok] show ?thesis by simp
  next
    case conflicted
    let ?p = "of_bond (r_bond r) (st_events st)"
    have "n = e_seq (?p ! 1)"
      using p conflicted(2,3) by (auto simp: prepare_def Let_def of_bond_def bind_res_Inr split: option.splits if_splits)
    moreover have "?p ! 1 \<in> set (st_events st)" using conflicted(3) nth_mem [of 1 ?p] by (simp add: set_of_bond)
    ultimately show ?thesis using store_seq_small [OF ok] conflicted(2) by simp
  qed
qed

lemma publish_acknowledged:
  assumes S: "serde_ok S" and ok: "store_ok cr L st" and nf: "\<not> st_failed st"
    and v: "profile_verify cr L (st_profile st) r = Inr ()"
  obtains st' ev status n where "publish cr L S None st r = (st', Inr (ev, status, n))" "n \<le> 256" "length status \<le> 18" "covers st' r"
proof -
  have "\<exists>x. prepare cr L st r = Inr x" using nf v by (simp add: prepare_def Let_def split: option.split)
  then obtain res status n where p: "prepare cr L st r = Inr (res, status, n)" by auto
  have status: "length status \<le> 18 \<and> n \<le> 256" by (rule prepare_status [OF p ok])
  obtain st' x where q: "publish cr L S None st r = (st', x)" by fastforce
  have "\<not> st_failed st'" using publish_working [OF S ok nf, of r] q by simp
  then have "x = Inr (res, status, n)"
    using q p by (auto simp: publish_def split: option.splits prod.splits sum.splits)
  moreover from this q publish_retains(2) [of cr L S None st r st' res status n] ok have "covers st' r"
    by (auto simp: covers_def)
  ultimately show thesis using q status that by blast
qed

lemma hub_publish_working:
  assumes "serde_ok S" "store_ok cr L (hub_store hub)" "\<not> st_failed (hub_store hub)"
  shows "\<not> st_failed (hub_store (fst (hub_publish cr L S C None hub r)))"
  using publish_working [OF assms] by (simp add: hub_publish_store)

lemma hub_publish_acknowledged:
  assumes "serde_ok S" "store_ok cr L (hub_store hub)" "\<not> st_failed (hub_store hub)"
    and "profile_verify cr L (st_profile (hub_store hub)) r = Inr ()"
  obtains hub' status n where "hub_publish cr L S C None hub r = (hub', Inr (Published n status))" "n \<le> 256" "length status \<le> 18"
    "covers (hub_store hub') r"
proof -
  obtain st' ev status n where p: "publish cr L S None (hub_store hub) r = (st', Inr (ev, status, n))" "n \<le> 256" "length status \<le> 18" "covers st' r"
    using publish_acknowledged [OF assms] by blast
  let ?hub = "\<lparr>hub_store = st', hub_changes = (case ev of None \<Rightarrow> hub_changes hub | Some e \<Rightarrow> bc_send C (hub_changes hub) (Some e))\<rparr>"
  have "hub_publish cr L S C None hub r = (?hub, Inr (Published n status))" using p(1) by (simp add: hub_publish_def)
  with p(2-4) show thesis by (intro that [of ?hub n status]) simp_all
qed

text \<open>A refused publication changes nothing in a store that works.\<close>

lemma hub_publish_covers:
  assumes "store_ok cr L (hub_store hub)" "hub_publish cr L S C io hub r = (hub', Inr m)"
  shows "covers (hub_store hub') r"
proof -
  obtain ev status n where "publish cr L S io (hub_store hub) r = (hub_store hub', Inr (ev, status, n))"
    using assms(2) by (auto simp: hub_publish_def split: prod.splits sum.splits)
  from publish_retains(2) [OF this assms(1)] show ?thesis by (auto simp: covers_def)
qed

section \<open>Receiving\<close>

lemma hub_publish_grows:
  assumes "store_ok cr L (hub_store hub)"
  shows "\<exists>es. st_events (hub_store (fst (hub_publish cr L S C io hub r))) = st_events (hub_store hub) @ es"
  using publish_extends [OF assms] by (simp add: hub_publish_store)

lemma publish_each_grows:
  "store_ok cr L (hub_store hub) \<Longrightarrow> store_ok cr L (hub_store (fst (publish_each cr L S C ios hub rs)))
    \<and> st_profile (hub_store (fst (publish_each cr L S C ios hub rs))) = st_profile (hub_store hub)
    \<and> (\<exists>es. st_events (hub_store (fst (publish_each cr L S C ios hub rs))) = st_events (hub_store hub) @ es)"
proof (induction rs arbitrary: ios hub)
  case (Cons r rs)
  let ?io = "case ios of [] \<Rightarrow> None | io # _ \<Rightarrow> io"
  obtain hub' res where p: "hub_publish cr L S C ?io hub r = (hub', res)" by fastforce
  have h: "store_ok cr L (hub_store hub')" "st_profile (hub_store hub') = st_profile (hub_store hub)"
    using hub_publish_keeps [where cr = cr and L = L and S = S and C = C and io = ?io and hub = hub and r = r] Cons.prems p by simp_all
  obtain es where "st_events (hub_store hub') = st_events (hub_store hub) @ es"
    using hub_publish_grows [OF Cons.prems, of S C ?io r] p by auto
  with Cons.IH [OF h(1), of "tl ios"] h p show ?case by (cases res) fastforce+
qed simp

lemma publish_each_covers:
  "store_ok cr L (hub_store hub) \<Longrightarrow> publish_each cr L S C ios hub rs = (hub', Inr u) \<Longrightarrow> r \<in> set rs \<Longrightarrow> covers (hub_store hub') r"
proof (induction rs arbitrary: ios hub)
  case (Cons r' rs)
  let ?io = "case ios of [] \<Rightarrow> None | io # _ \<Rightarrow> io"
  obtain hub1 m where p: "hub_publish cr L S C ?io hub r' = (hub1, Inr m)" and q: "publish_each cr L S C (tl ios) hub1 rs = (hub', Inr u)"
    using Cons.prems(2) by (auto split: prod.splits sum.splits)
  have ok1: "store_ok cr L (hub_store hub1)" using hub_publish_keeps(3) [OF Cons.prems(1), of S C ?io r'] p by simp
  show ?case
  proof (cases "r \<in> set rs")
    case True
    with Cons.IH [OF ok1 q] show ?thesis .
  next
    case False
    with Cons.prems(3) have "covers (hub_store hub1) r" using hub_publish_covers [OF Cons.prems(1) p] by simp
    with publish_each_grows [OF ok1, of S C "tl ios" rs] q covers_extends show ?thesis by fastforce
  qed
qed simp

lemma publish_each_working:
  "serde_ok S \<Longrightarrow> store_ok cr L (hub_store hub) \<Longrightarrow> \<not> st_failed (hub_store hub)
    \<Longrightarrow> \<forall>r \<in> set rs. profile_verify cr L (st_profile (hub_store hub)) r = Inr ()
    \<Longrightarrow> \<exists>hub'. publish_each cr L S C [] hub rs = (hub', Inr ()) \<and> \<not> st_failed (hub_store hub')"
proof (induction rs arbitrary: hub)
  case (Cons r rs)
  obtain hub1 status n where p: "hub_publish cr L S C None hub r = (hub1, Inr (Published n status))"
    using hub_publish_acknowledged [OF Cons.prems(1-3), where r = r and C = C] Cons.prems(4) by (metis list.set_intros(1))
  have "store_ok cr L (hub_store hub1)" "\<not> st_failed (hub_store hub1)" "st_profile (hub_store hub1) = st_profile (hub_store hub)"
    using hub_publish_keeps [where cr = cr and L = L and S = S and C = C and io = None and hub = hub and r = r] hub_publish_working [OF Cons.prems(1-3), of C r] Cons.prems(2) p by simp_all
  with Cons p show ?case by simp
qed simp

section \<open>Frames\<close>

text \<open>A message that fits a frame and whose numbers are exact.\<close>

definition sendable :: "serde \<Rightarrow> server_message \<Rightarrow> bool" where
  "sendable S m \<longleftrightarrow> small_server m \<and> length (json_print (server_json S m)) \<le> RELAY_MAX_FRAME"

lemma length_small_nat: "n \<le> 256 \<Longrightarrow> length (json_print (jnat n)) \<le> 16"
  by (rule length_jnat) simp

lemma length_cursor_json:
  assumes "length (k_stream c) = 64" "k_seq c \<le> 256"
  shows "length (json_print (cursor_json c)) \<le> 1000"
proof -
  have "length (quote ''stream'') \<le> 38" "length (quote ''seq'') \<le> 20" using length_quote [of "''stream''"] length_quote [of "''seq''"] by simp_all
  with length_quote [of "k_stream c"] length_small_nat [OF assms(2)] assms(1) show ?thesis
    by (simp add: cursor_json_def wire_cursor_def)
qed

lemma sendable_event:
  assumes "serde_ok S" "e_seq e \<le> 256"
  shows "sendable S (EventMessage e)"
proof -
  have n: "e_seq e \<le> 9007199254740991" using assms(2) by simp
  have "length (json_print (wire_event (event_json S e))) = length (json_print (event_json S e)) + 25"
    by (simp add: wire_event_def quote_def escape_char_def short_escape_def)
  with length_event_json [OF assms(1) n] n show ?thesis by (simp add: sendable_def small_server_def server_json_def RELAY_MAX_FRAME_def)
qed

lemma sendable_status:
  assumes "length (k_stream c) = 64" "k_seq c \<le> 256"
  shows "sendable S (CaughtUp c)" "sendable S (Heartbeat c)"
  using length_cursor_json [OF assms] assms(2)
  by (simp_all add: sendable_def small_server_def server_json_def RELAY_MAX_FRAME_def length_wire_status)

lemma sendable_begin:
  assumes "length p = 64" "length s = 64" "f \<le> 256" "t \<le> 256"
  shows "sendable S (Begin p s f t)"
proof -
  have "length (quote ''type'') \<le> 26" "length (quote ''begin'') \<le> 32" "length (quote ''profile'') \<le> 44" "length (quote ''stream'') \<le> 38"
    "length (quote ''from'') \<le> 26" "length (quote ''through'') \<le> 44"
    using length_quote [of "''type''"] length_quote [of "''begin''"] length_quote [of "''profile''"] length_quote [of "''stream''"]
      length_quote [of "''from''"] length_quote [of "''through''"] by simp_all
  with length_quote [of p] length_quote [of s] length_small_nat [OF assms(3)] length_small_nat [OF assms(4)] assms show ?thesis
    by (simp add: sendable_def small_server_def server_json_def wire_begin_def RELAY_MAX_FRAME_def)
qed

lemma sendable_published:
  assumes "n \<le> 256" "length st \<le> 18"
  shows "sendable S (Published n st)"
proof -
  have "length (quote ''type'') \<le> 26" "length (quote ''published'') \<le> 56" "length (quote ''seq'') \<le> 20" "length (quote ''status'') \<le> 38"
    using length_quote [of "''type''"] length_quote [of "''published''"] length_quote [of "''seq''"] length_quote [of "''status''"] by simp_all
  with length_quote [of st] length_small_nat [OF assms(1)] assms show ?thesis
    by (simp add: sendable_def small_server_def server_json_def wire_published_def RELAY_MAX_FRAME_def)
qed

lemma hub_published:
  assumes "hub_publish cr L S C io hub r = (hub', Inr reply)" "store_ok cr L (hub_store hub)"
  obtains n status where "reply = Published n status" "n \<le> 256" "length status \<le> 18"
proof -
  obtain st ev status n where p: "publish cr L S io (hub_store hub) r = (st, Inr (ev, status, n))" "reply = Published n status"
    using assms(1) by (auto simp: hub_publish_def split: prod.splits sum.splits)
  then obtain ev' where "prepare cr L (hub_store hub) r = Inr (ev', status, n)"
    by (auto simp: publish_def split: sum.splits prod.splits option.splits)
  from prepare_status [OF this assms(2)] p(2) that show thesis by simp
qed

definition conn_sendable :: "serde \<Rightarrow> 'r connection \<Rightarrow> bool" where
  "conn_sendable S cn \<longleftrightarrow> (cn_open cn \<longrightarrow> list_all (sendable S) (cn_out cn @ cn_todo cn))"

lemma hub_log_store:
  assumes "hub_log cr L chlog base h hub"
  shows "store_ok cr L (hub_store hub)" "length (st_events (hub_store hub)) \<le> 256" "length (st_stream (hub_store hub)) = 64"
    "length (vp_id (st_profile (hub_store hub))) = 64"
proof -
  show ok: "store_ok cr L (hub_store hub)" using assms by (simp add: hub_log_def Let_def)
  from store_bounded(2) [OF ok] ok show "length (st_events (hub_store hub)) \<le> 256" "length (st_stream (hub_store hub)) = 64"
    "length (vp_id (st_profile (hub_store hub))) = 64"
    by (simp_all add: store_ok_def profile_ok_def hex_64_def hex_string_def)
qed

lemma sendable_start:
  assumes S: "serde_ok S" and C: "broadcast_ok C cap chlog pos" and ok: "store_ok cr L (hub_store hub)"
    and start: "subscription_start S C hub first = Inr cn"
  shows "conn_sendable S cn"
proof -
  let ?st = "hub_store hub"
  obtain cur es where r: "replay ?st cur = Inr es"
    and cn: "cn_out cn = []" "cn_sent cn = \<lparr>k_stream = st_stream ?st, k_seq = store_head ?st\<rparr>"
      "cn_todo cn = Begin (vp_id (st_profile ?st)) (st_stream ?st) (case cur of None \<Rightarrow> 0 | Some c \<Rightarrow> k_seq c) (store_head ?st)
        # map EventMessage es @ [CaughtUp (cn_sent cn)]"
    by (rule subscription_startE [OF start])
  note r' = replay_InrD [OF r]
  note st = hub_log_store [OF hub_log_start [OF ok r'(1), where chlog = chlog]]
  have "sendable S (EventMessage e)" if "e \<in> set es" for e
    using sendable_event [OF S] store_seq_small [OF ok, of e] that r'(2) in_set_dropD by metis
  moreover have "store_head ?st \<le> 256" "(case cur of None \<Rightarrow> 0 | Some c \<Rightarrow> k_seq c) \<le> 256"
    using st(2) r'(3) by (simp_all add: store_head_def)
  ultimately show ?thesis
    using cn st(3,4) by (auto simp: conn_sendable_def list_all_iff sendable_begin sendable_status)
qed

lemma sendable_step:
  assumes S: "serde_ok S" and C: "broadcast_ok C cap chlog pos" and step: "server_step cr L S C (hub, cn) (hub', cn')"
    and ok: "server_ok cr L chlog pos base h from v vp hub cn" and sd: "conn_sendable S cn"
  shows "conn_sendable S cn'"
proof -
  have hub: "hub_log cr L chlog base h hub" using ok by (simp add: server_ok_def)
  note st = hub_log_store [OF hub]
  have sent: "length (k_stream (cn_sent cn)) = 64" "k_seq (cn_sent cn) \<le> 256" if "cn_open cn"
    using ok that st by (auto simp: server_ok_def conn_ok_def Let_def)
  show ?thesis
    using step
  proof cases
    case (step_send now)
    with sd show ?thesis by (simp add: conn_sendable_def subscription_send_same del: list_all_append)
  next
    case step_change
    then obtain e rx where r: "bc_recv C (hub_changes hub) (cn_changes cn) = Some (Some (Some e), rx)"
      and cn': "cn_out cn' = cn_out cn @ [EventMessage e]" "cn_todo cn' = cn_todo cn" "cn_open cn' = cn_open cn"
      by (auto simp: subscription_change_def guard_Inr split: option.splits prod.splits)
    have c: "pos (cn_changes cn) = length base + (k_seq (cn_sent cn) - h)" "h \<le> k_seq (cn_sent cn)"
      "k_seq (cn_sent cn) \<le> length (st_events (hub_store hub))"
      using ok step_change by (simp_all add: server_ok_def conn_ok_def Let_def)
    have "e \<in> set (st_events (hub_store hub))" using hub_recv_event [OF C hub c r] by simp
    with store_seq_small [OF st(1)] sendable_event [OF S] sd cn' show ?thesis by (auto simp: conn_sendable_def)
  next
    case (step_message io now m)
    from step_message(3) show ?thesis
    proof (cases rule: subscription_message_cases)
      case none
      with sd show ?thesis by simp
    next
      case (publish r)
      from publish(2) [OF refl] obtain n status where o: "cn_out cn' = cn_out cn @ [Published n status]" "cn_todo cn' = cn_todo cn"
        "cn_open cn' = cn_open cn" "hub_publish cr L S C io hub r = (hub', Inr (Published n status))" by blast
      from hub_published [OF o(4) st(1)] sendable_published have "sendable S (Published n status)" by auto
      with o sd show ?thesis by (simp add: conn_sendable_def)
    qed
  next
    case step_heartbeat
    then have "cn' = cn\<lparr>cn_out := cn_out cn @ [Heartbeat (cn_sent cn)]\<rparr>" by (simp add: subscription_heartbeat_def guard_Inr)
    with sendable_status(2) [OF sent] sd step_heartbeat show ?thesis by (auto simp: conn_sendable_def)
  qed (use sd in \<open>simp_all add: conn_sendable_def subscription_end_def\<close>)
qed

lemma sendable_steps:
  assumes S: "serde_ok S" and C: "broadcast_ok C cap chlog pos" and steps: "(server_step cr L S C)\<^sup>*\<^sup>* (hub, cn) (hub', cn')"
    and ok: "server_ok cr L chlog pos base h from v vp hub cn" and sd: "conn_sendable S cn"
  shows "conn_sendable S cn'"
  using steps
proof (induction "(hub', cn')" arbitrary: hub' cn' rule: rtranclp_induct)
  case base
  with sd show ?case by simp
next
  case (step x)
  obtain hub1 cn1 where x: "x = (hub1, cn1)" by (cases x)
  with step.hyps(3) step.hyps(2) server_ok_steps [OF C _ ok] step.hyps(1) sendable_step [OF S C] show ?case by blast
qed

lemma subscribed_sendable:
  assumes "serde_ok S" and "profile_ok vp" and "broadcast_ok C cap chlog pos" and "subscribed cr L S C vp cur hub cn"
    and "(server_step cr L S C)\<^sup>*\<^sup>* (hub, cn) (hub', cn')" and "cn_open cn'"
  shows "list_all (sendable S) (cn_out cn')"
proof -
  define v where "v = \<lparr>pg_cursor = cur, pg_through = None, pg_live = False\<rparr>"
  have "server_ok cr L chlog pos (chlog (hub_changes hub)) (store_head (hub_store hub))
      (case pg_cursor v of None \<Rightarrow> 0 | Some c \<Rightarrow> k_seq c) v vp hub cn"
    by (rule subscribed_ok [OF assms(1-3) _ _ rtranclp.rtrancl_refl]) (use assms(4) in \<open>simp_all add: v_def\<close>)
  moreover have "conn_sendable S cn"
    using assms(4) sendable_start [OF assms(1,3)] reachable_state(3) [OF assms(1,2)] unfolding subscribed_def by blast
  ultimately have "conn_sendable S cn'" by (rule sendable_steps [OF assms(1,3,5)])
  then show ?thesis using assms(6) by (simp add: conn_sendable_def)
qed

end
