(* ===== verification/Relay_Gossip.thy ===== *)
theory Relay_Gossip
  imports Relay_Peer
begin

text \<open>
  Two relays with the same profile, connected by a peer session: relay \<open>A\<close> subscribes to relay \<open>B\<close>,
  ingests its events and publishes its own receipts there. The steps are those of \<open>peer_session\<close> at
  \<open>A\<close> and of \<open>subscription\<close> at \<open>B\<close> of \<^verbatim>\<open>src/relay/server.rs\<close>, with the messages in flight. The
  relation describes a session that lasts: an error of either side (a failed write, a lost connection, a
  publication above the rate limit, which the sender's pacing of 50 ms avoids) ends the session, and the
  next one starts as in \<open>peer_task\<close> of \<open>Relay_Reconnect\<close>.
\<close>

section \<open>Steps\<close>

record ('c, 'r) link =
  ln_a :: "'c hub"
  ln_b :: "'c hub"
  ln_peer :: "'r peer"
  ln_conn :: "'r connection"
  ln_up :: "client_message list"
  ln_read :: nat

inductive link_step :: "crypto \<Rightarrow> elements_lib \<Rightarrow> serde \<Rightarrow> ('c, 'r) broadcast \<Rightarrow> ('c, 'r) link \<Rightarrow> ('c, 'r) link \<Rightarrow> bool" for cr L S C where
  link_tick: "peer_tick (ln_peer s) = Some (m, pr) \<Longrightarrow> link_step cr L S C s (s\<lparr>ln_peer := pr, ln_up := ln_up s @ [m]\<rparr>)"
| link_receive: "ln_up s = m # ms \<Longrightarrow> cn_todo (ln_conn s) = []
    \<Longrightarrow> subscription_message cr L S C None now (ln_b s) (ln_conn s) (Text (json_print (client_json S m))) = (b, Inr cn)
    \<Longrightarrow> link_step cr L S C s (s\<lparr>ln_up := ms, ln_b := b, ln_conn := cn\<rparr>)"
| link_send: "cn_todo (ln_conn s) \<noteq> [] \<Longrightarrow> link_step cr L S C s (s\<lparr>ln_conn := subscription_send now (ln_conn s)\<rparr>)"
| link_live: "cn_todo (ln_conn s) = [] \<Longrightarrow> subscription_change C (ln_b s) (ln_conn s) = Some (Inr cn)
    \<Longrightarrow> link_step cr L S C s (s\<lparr>ln_conn := cn\<rparr>)"
| link_deliver: "ln_read s < length (cn_out (ln_conn s))
    \<Longrightarrow> peer_message cr L S C [] now (ln_a s) (ln_peer s) (Text (json_print (server_json S (cn_out (ln_conn s) ! ln_read s)))) = (a, Inr pr)
    \<Longrightarrow> link_step cr L S C s (s\<lparr>ln_a := a, ln_peer := pr, ln_read := Suc (ln_read s)\<rparr>)"
| link_change: "peer_change C (ln_a s) (ln_peer s) = Some (Inr pr) \<Longrightarrow> link_step cr L S C s (s\<lparr>ln_peer := pr\<rparr>)"

text \<open>Inputs: other clients publish at either relay, and heartbeats.\<close>

inductive link_input :: "crypto \<Rightarrow> elements_lib \<Rightarrow> serde \<Rightarrow> ('c, 'r) broadcast \<Rightarrow> ('c, 'r) link \<Rightarrow> ('c, 'r) link \<Rightarrow> bool" for cr L S C where
  input_a: "link_input cr L S C s (s\<lparr>ln_a := fst (hub_publish cr L S C None (ln_a s) r)\<rparr>)"
| input_b: "link_input cr L S C s (s\<lparr>ln_b := fst (hub_publish cr L S C None (ln_b s) r)\<rparr>)"
| input_heartbeat: "cn_todo (ln_conn s) = [] \<Longrightarrow> subscription_heartbeat (ln_b s) (ln_conn s) = Inr cn
    \<Longrightarrow> link_input cr L S C s (s\<lparr>ln_conn := cn\<rparr>)"

section \<open>Invariants\<close>

abbreviation events_of :: "'c hub \<Rightarrow> relay_event list" where
  "events_of hub \<equiv> st_events (hub_store hub)"

text \<open>
  The first \<open>n\<close> events of \<open>A\<close> were taken from its channel; those after \<open>k\<close> are waiting or in flight,
  the others are covered by \<open>B\<close>.
\<close>

definition up_ok :: "('r \<Rightarrow> nat) \<Rightarrow> change list \<Rightarrow> nat \<Rightarrow> 'c hub \<Rightarrow> 'c hub \<Rightarrow> 'r peer \<Rightarrow> client_message list \<Rightarrow> nat \<Rightarrow> nat \<Rightarrow> bool" where
  "up_ok pos base h a b pr up n k \<longleftrightarrow> pos (pr_changes pr) = length base + (n - h) \<and> h \<le> n \<and> n \<le> length (events_of a) \<and> k \<le> n
     \<and> up @ map Publish (pr_pending pr) = map (\<lambda>e. Publish (e_receipt e)) (drop k (take n (events_of a)))
     \<and> (\<forall>e \<in> set (take k (events_of a)). covers (hub_store b) (e_receipt e))"

text \<open>The tracker accepted the first \<open>i\<close> messages of \<open>B\<close>, and \<open>A\<close> covers all their events.\<close>

definition down_ok :: "crypto \<Rightarrow> elements_lib \<Rightarrow> validated_profile \<Rightarrow> tracker \<Rightarrow> nat \<Rightarrow> 'c hub \<Rightarrow> 'c hub \<Rightarrow> 'r peer
    \<Rightarrow> server_message list \<Rightarrow> nat \<Rightarrow> bool" where
  "down_ok cr L vp t from a b pr out i \<longleftrightarrow> i \<le> length out
     \<and> feed (tracker_accept cr L vp) t (take i out) = Some (pr_tracker pr)
     \<and> (\<forall>e \<in> set (take from (events_of b)) \<union> set (sent_events (take i out)). covers (hub_store a) (e_receipt e))"

definition link_ok :: "crypto \<Rightarrow> elements_lib \<Rightarrow> serde \<Rightarrow> ('c \<Rightarrow> change list) \<Rightarrow> ('r \<Rightarrow> nat) \<Rightarrow> validated_profile \<Rightarrow> change list \<Rightarrow> nat
    \<Rightarrow> change list \<Rightarrow> nat \<Rightarrow> nat \<Rightarrow> tracker \<Rightarrow> ('c, 'r) link \<Rightarrow> bool" where
  "link_ok cr L S chlog pos vp base_a h_a base_b h_b from t s \<longleftrightarrow>
     hub_log cr L chlog base_a h_a (ln_a s) \<and> st_profile (hub_store (ln_a s)) = vp
     \<and> \<not> st_failed (hub_store (ln_a s)) \<and> \<not> st_failed (hub_store (ln_b s))
     \<and> server_ok cr L chlog pos base_b h_b from (tracker_progress t) vp (ln_b s) (ln_conn s)
     \<and> cn_open (ln_conn s) \<and> conn_sendable S (ln_conn s) \<and> pr_profile (ln_peer s) = vp
     \<and> (\<exists>n k. up_ok pos base_a h_a (ln_a s) (ln_b s) (ln_peer s) (ln_up s) n k)
     \<and> down_ok cr L vp t from (ln_a s) (ln_b s) (ln_peer s) (cn_out (ln_conn s)) (ln_read s)"

lemma grows_take: "es' = es @ fs \<Longrightarrow> n \<le> length es \<Longrightarrow> take n es' = take n es"
  by simp

lemma up_ok_grow_a:
  assumes "up_ok pos base h a b pr up n k" "events_of a' = events_of a @ es"
  shows "up_ok pos base h a' b pr up n k"
  using assms by (simp add: up_ok_def)

lemma up_ok_grow_b:
  assumes "up_ok pos base h a b pr up n k" "events_of b' = events_of b @ es" "store_ok cr L (hub_store b')"
  shows "up_ok pos base h a b' pr up n k"
  using assms covers_extends [OF _ assms(2,3)] by (simp add: up_ok_def)

lemma down_ok_grow_a:
  assumes "down_ok cr L vp t from a b pr out i" "events_of a' = events_of a @ es" "store_ok cr L (hub_store a')"
  shows "down_ok cr L vp t from a' b pr out i"
  using assms covers_extends [OF _ assms(2,3)] by (simp add: down_ok_def)

lemma down_ok_grow_b:
  assumes "down_ok cr L vp t from a b pr out i" "events_of b' = events_of b @ es" "from \<le> length (events_of b)"
  shows "down_ok cr L vp t from a b' pr out i"
  using assms by (simp add: down_ok_def)

lemma down_ok_more:
  assumes "down_ok cr L vp t from a b pr out i"
  shows "down_ok cr L vp t from a b pr (out @ ms) i"
  using assms by (simp add: down_ok_def)

lemma hub_log_each:
  "broadcast_ok C cap chlog pos \<Longrightarrow> hub_log cr L chlog base h hub \<Longrightarrow> hub_log cr L chlog base h (fst (publish_each cr L S C ios hub rs))"
proof (induction rs arbitrary: ios hub)
  case (Cons r rs)
  let ?io = "case ios of [] \<Rightarrow> None | io # _ \<Rightarrow> io"
  obtain hub' res where p: "hub_publish cr L S C ?io hub r = (hub', res)" by fastforce
  have "hub_log cr L chlog base h hub'" using hub_log_publish [OF Cons.prems, of S ?io r] p by simp
  with Cons.IH [OF Cons.prems(1)] p show ?case by (cases res) simp_all
qed simp

section \<open>Operations\<close>

lemma up_ok_tick:
  assumes "up_ok pos base h a b pr up n k" "peer_tick pr = Some (m, pr')"
  shows "up_ok pos base h a b pr' (up @ [m]) n k" "pr_profile pr' = pr_profile pr" "pr_tracker pr' = pr_tracker pr"
  using assms by (auto simp: peer_tick_def up_ok_def split: list.splits)

lemma up_ok_change:
  assumes C: "broadcast_ok C cap chlog pos" and hub: "hub_log cr L chlog base h a" and up: "up_ok pos base h a b pr up n k"
    and ch: "peer_change C a pr = Some (Inr pr')"
  shows "up_ok pos base h a b pr' up (Suc n) k" "pr_profile pr' = pr_profile pr" "pr_tracker pr' = pr_tracker pr"
    "length (pr_pending pr') = Suc (length (pr_pending pr))" "n < length (events_of a)"
proof -
  obtain e rx where r: "bc_recv C (hub_changes a) (pr_changes pr) = Some (Some (Some e), rx)"
    and pr': "pr' = pr\<lparr>pr_changes := rx, pr_pending := pr_pending pr @ [e_receipt e]\<rparr>"
    using ch by (auto simp: peer_change_def guard_Inr split: option.splits prod.splits)
  have u: "pos (pr_changes pr) = length base + (n - h)" "h \<le> n" "n \<le> length (events_of a)" "k \<le> n"
    using up by (simp_all add: up_ok_def)
  from hub_recv_event [OF C hub u(1-3) r] have n: "n < length (events_of a)" "e = events_of a ! n" "pos rx = length base + (Suc n - h)"
    by simp_all
  then show "n < length (events_of a)" by simp
  from n u(4) have "drop k (take (Suc n) (events_of a)) = drop k (take n (events_of a)) @ [e]"
    by (simp add: take_Suc_conv_app_nth)
  with up n pr' show "up_ok pos base h a b pr' up (Suc n) k" by (simp add: up_ok_def)
  show "pr_profile pr' = pr_profile pr" "pr_tracker pr' = pr_tracker pr" "length (pr_pending pr') = Suc (length (pr_pending pr))"
    by (simp_all add: pr')
qed

lemma up_ok_head:
  assumes "up_ok pos base h a b pr (m # ms) n k"
  shows "k < n" "k < length (events_of a)" "m = Publish (e_receipt (events_of a ! k))"
    "covers (hub_store b) (e_receipt (events_of a ! k)) \<Longrightarrow> up_ok pos base h a b pr ms n (Suc k)"
proof -
  have u: "n \<le> length (events_of a)" "k \<le> n"
    "m # ms @ map Publish (pr_pending pr) = map (\<lambda>e. Publish (e_receipt e)) (drop k (take n (events_of a)))"
    using assms by (simp_all add: up_ok_def)
  from u(3) have "drop k (take n (events_of a)) \<noteq> []" by (metis list.distinct(1) list.map_disc_iff)
  then show k: "k < n" by simp
  with u(1) show kl: "k < length (events_of a)" by simp
  have d: "drop k (take n (events_of a)) = events_of a ! k # drop (Suc k) (take n (events_of a))"
    using k u(1) Cons_nth_drop_Suc [of k "take n (events_of a)"] by simp
  with u(3) show "m = Publish (e_receipt (events_of a ! k))" by simp
  assume "covers (hub_store b) (e_receipt (events_of a ! k))"
  with assms u(3) d k kl show "up_ok pos base h a b pr ms n (Suc k)"
    by (auto simp: up_ok_def take_Suc_conv_app_nth)
qed

lemma parse_publish:
  assumes "serde_ok S"
  shows "parse_client S (Text (json_print (client_json S (Publish r)))) = Inr (Some (Publish r))"
proof -
  have "length (json_print (client_json S (Publish r))) = length (json_print (receipt_json S r)) + 29"
    by (simp add: client_json_def wire_publish_def) (simp add: quote_def escape_char_def short_escape_def)
  with length_receipt_json [OF assms, of r]
  have "length (json_print (client_json S (Publish r))) \<le> RELAY_MAX_FRAME" by (simp add: RELAY_MAX_FRAME_def)
  moreover have "read_client S (json_print (client_json S (Publish r))) = Some (Publish r)"
    using assms by (simp add: serde_ok_def small_client_def)
  ultimately show ?thesis by (simp add: parse_client_def)
qed

lemma receive_publish:
  assumes "serde_ok S" "subscription_message cr L S C None now hub cn (Text (json_print (client_json S (Publish r)))) = (hub', Inr cn')"
  shows "\<exists>m. hub_publish cr L S C None hub r = (hub', Inr m) \<and> cn_out cn' = cn_out cn @ [m]"
    "cn_sent cn' = cn_sent cn" "cn_todo cn' = cn_todo cn" "cn_open cn' = cn_open cn"
  using assms(2) by (auto simp: subscription_message_def parse_publish [OF assms(1)] Let_def split: if_splits prod.splits sum.splits)

lemma server_step_grows:
  assumes "server_step cr L S C (b, cn) (b', cn')" "store_ok cr L (hub_store b)"
  shows "\<exists>es. events_of b' = events_of b @ es" "\<exists>ms. cn_out cn' = cn_out cn @ ms" "store_ok cr L (hub_store b')"
proof -
  have m: "(\<exists>es. events_of b' = events_of b @ es) \<and> store_ok cr L (hub_store b')
      \<and> (\<forall>cn'. res = Inr cn' \<longrightarrow> (\<exists>ms. cn_out cn' = cn_out cn @ ms))"
    if "subscription_message cr L S C io now b cn m = (b', res)" for io now m and res :: "'b connection res"
    using that
  proof (cases rule: subscription_message_cases)
    case none
    then show ?thesis using assms(2) by auto
  next
    case (publish r)
    with hub_publish_grows [OF assms(2)] hub_publish_keeps(3) [OF assms(2)] show ?thesis by fastforce
  qed
  from assms(1) have "(\<exists>es. events_of b' = events_of b @ es) \<and> (\<exists>ms. cn_out cn' = cn_out cn @ ms) \<and> store_ok cr L (hub_store b')"
  proof cases
    case (step_other io r)
    with hub_publish_grows [OF assms(2), of S C io r] hub_publish_keeps(3) [OF assms(2), of S C io r] show ?thesis by simp
  next
    case (step_send now)
    with assms(2) show ?thesis by (simp add: subscription_send_def Let_def split: list.split)
  next
    case step_change
    with assms(2) show ?thesis by (auto simp: subscription_change_def guard_Inr split: option.splits prod.splits)
  next
    case (step_message io now mm)
    with m [OF step_message(3)] show ?thesis by blast
  next
    case step_heartbeat
    with assms(2) show ?thesis by (auto simp: subscription_heartbeat_def guard_Inr)
  next
    case (step_error io now mm reason bb)
    with m [OF step_error(4)] show ?thesis by (simp add: subscription_end_def)
  next
    case step_close
    with assms(2) show ?thesis by (simp add: subscription_end_def)
  qed
  then show "\<exists>es. events_of b' = events_of b @ es" "\<exists>ms. cn_out cn' = cn_out cn @ ms" "store_ok cr L (hub_store b')" by blast+
qed

lemma take_Suc_sent:
  "i < length out \<Longrightarrow> sent_events (take (Suc i) out) = sent_events (take i out) @ (case out ! i of EventMessage e \<Rightarrow> [e] | _ \<Rightarrow> [])"
  by (simp add: take_Suc_conv_app_nth split: server_message.split)

lemma deliver_effect:
  assumes "serde_ok S" "sendable S m" "peer_message cr L S C [] now a pr (Text (json_print (server_json S m))) = (a', Inr pr')"
  obtains t' receipt where "tracker_process cr L (pr_profile pr) (pr_tracker pr) m = (Inr receipt, t')"
    "publish_each cr L S C [] a (received_receipts m receipt) = (a', Inr ())"
    "pr_tracker pr' = t'" "pr_profile pr' = pr_profile pr" "pr_changes pr' = pr_changes pr" "pr_pending pr' = pr_pending pr"
proof -
  have "read_server S (json_print (server_json S m)) = Some m" "length (json_print (server_json S m)) \<le> RELAY_MAX_FRAME"
    using assms(1,2) by (simp_all add: serde_ok_def sendable_def)
  note rd = this
  obtain x t' where x: "tracker_process cr L (pr_profile pr) (pr_tracker pr) m = (x, t')" by fastforce
  with assms(3) rd obtain receipt where receipt: "x = Inr receipt" by (cases x) (simp_all add: peer_message_def)
  obtain a1 y where y: "publish_each cr L S C [] a (received_receipts m receipt) = (a1, y)" by fastforce
  with assms(3) rd x receipt have "y = Inr ()" by (cases y) (simp_all add: peer_message_def)
  with assms(3) rd x receipt y show thesis
    by (intro that [of receipt t']) (auto simp: peer_message_def)
qed

lemma tracker_receipt:
  "tracker_process cr L vp t m = (Inr receipt, t') \<Longrightarrow>
    tracker_accept cr L vp t m = Some t' \<and> receipt = (case m of EventMessage e \<Rightarrow> Some (e_receipt e) | _ \<Rightarrow> None)"
  using process_inner_eq [of cr L vp t m receipt t']
  by (auto simp: tracker_accept_def tracker_process_def split: sum.splits prod.splits)

lemma down_ok_deliver:
  assumes S: "serde_ok S" and ok: "store_ok cr L (hub_store a)" and prof: "pr_profile pr = vp"
    and down: "down_ok cr L vp t from a b pr out i" and i: "i < length out" "sendable S (out ! i)"
    and msg: "peer_message cr L S C [] now a pr (Text (json_print (server_json S (out ! i)))) = (a', Inr pr')"
  shows "down_ok cr L vp t from a' b pr' out (Suc i)"
proof -
  obtain t' receipt where e: "tracker_process cr L (pr_profile pr) (pr_tracker pr) (out ! i) = (Inr receipt, t')"
    "publish_each cr L S C [] a (received_receipts (out ! i) receipt) = (a', Inr ())" "pr_tracker pr' = t'"
    by (rule deliver_effect [OF S i(2) msg])
  note t = tracker_receipt [OF e(1) [unfolded prof]]
  have "feed (tracker_accept cr L vp) t (take (Suc i) out) = Some (pr_tracker pr')"
    using down t i(1) e(3) by (simp add: down_ok_def take_Suc_conv_app_nth feed_snoc)
  moreover have "covers (hub_store a') (e_receipt ev)" if "out ! i = EventMessage ev" for ev
    using publish_each_covers [OF ok e(2), of "e_receipt ev"] t that by (simp add: received_receipts_def)
  moreover obtain es where es: "events_of a' = events_of a @ es" and ok': "store_ok cr L (hub_store a')"
    using publish_each_grows [OF ok, of S C "[]" "received_receipts (out ! i) receipt"] e(2) by auto
  ultimately show ?thesis
    using down i(1) covers_extends [OF _ es ok'] take_Suc_sent [OF i(1)]
    by (auto simp: down_ok_def split: server_message.splits)
qed

section \<open>Every step keeps the invariant\<close>

lemma link_ok_b:
  assumes S: "serde_ok S" and C: "broadcast_ok C cap chlog pos" and ok: "link_ok cr L S chlog pos vp base_a h_a base_b h_b from t s"
    and step: "server_step cr L S C (ln_b s, ln_conn s) (b, cn)" and b: "\<not> st_failed (hub_store b)" "cn_open cn"
    and up: "\<And>n k. up_ok pos base_a h_a (ln_a s) (ln_b s) (ln_peer s) (ln_up s) n k
      \<Longrightarrow> \<exists>n' k'. up_ok pos base_a h_a (ln_a s) b (ln_peer s) up' n' k'"
  shows "link_ok cr L S chlog pos vp base_a h_a base_b h_b from t (s\<lparr>ln_up := up', ln_b := b, ln_conn := cn\<rparr>)"
proof -
  have srv: "server_ok cr L chlog pos base_b h_b from (tracker_progress t) vp (ln_b s) (ln_conn s)"
    and sd: "conn_sendable S (ln_conn s)" using ok by (simp_all add: link_ok_def)
  then have hub: "hub_log cr L chlog base_b h_b (ln_b s)" by (simp add: server_ok_def)
  note st = hub_log_store(1) [OF hub]
  obtain es ms where g: "events_of b = events_of (ln_b s) @ es" "cn_out cn = cn_out (ln_conn s) @ ms"
    using server_step_grows [OF step st] by blast
  have "from \<le> length (events_of (ln_b s))"
    using srv ok by (auto simp: link_ok_def server_ok_def conn_ok_def Let_def)
  with ok have "down_ok cr L vp t from (ln_a s) b (ln_peer s) (cn_out cn) (ln_read s)"
    unfolding g(2) by (intro down_ok_more down_ok_grow_b [OF _ g(1)]) (simp_all add: link_ok_def)
  moreover obtain n k where "up_ok pos base_a h_a (ln_a s) (ln_b s) (ln_peer s) (ln_up s) n k"
    using ok by (auto simp: link_ok_def)
  ultimately show ?thesis
    using ok up b server_ok_step [OF C step srv] sendable_step [OF S C step srv sd] by (simp add: link_ok_def)
qed

lemma link_ok_keep_up:
  assumes S: "serde_ok S" and C: "broadcast_ok C cap chlog pos" and ok: "link_ok cr L S chlog pos vp base_a h_a base_b h_b from t s"
    and step: "server_step cr L S C (ln_b s, ln_conn s) (b, cn)" and b: "\<not> st_failed (hub_store b)" "cn_open cn"
  shows "link_ok cr L S chlog pos vp base_a h_a base_b h_b from t (s\<lparr>ln_b := b, ln_conn := cn\<rparr>)"
proof -
  have st: "store_ok cr L (hub_store (ln_b s))" using ok by (simp add: link_ok_def server_ok_def hub_log_def Let_def)
  obtain es where "events_of b = events_of (ln_b s) @ es" using server_step_grows [OF step st] by blast
  then have "link_ok cr L S chlog pos vp base_a h_a base_b h_b from t (s\<lparr>ln_up := ln_up s, ln_b := b, ln_conn := cn\<rparr>)"
    using up_ok_grow_b server_step_grows(3) [OF step st] by (intro link_ok_b [OF S C ok step b]) blast
  then show ?thesis by simp
qed

lemma link_ok_a:
  assumes ok: "link_ok cr L S chlog pos vp base_a h_a base_b h_b from t s"
    and a: "hub_log cr L chlog base_a h_a a" "st_profile (hub_store a) = vp" "\<not> st_failed (hub_store a)" "\<exists>es. events_of a = events_of (ln_a s) @ es"
    and pr: "pr_profile pr = vp" "pr_changes pr = pr_changes (ln_peer s)" "pr_pending pr = pr_pending (ln_peer s)"
    and down: "down_ok cr L vp t from a (ln_b s) pr (cn_out (ln_conn s)) i"
  shows "link_ok cr L S chlog pos vp base_a h_a base_b h_b from t (s\<lparr>ln_a := a, ln_peer := pr, ln_read := i\<rparr>)"
proof -
  obtain n k where "up_ok pos base_a h_a (ln_a s) (ln_b s) (ln_peer s) (ln_up s) n k" using ok by (auto simp: link_ok_def)
  with up_ok_grow_a a(4) have "up_ok pos base_a h_a a (ln_b s) (ln_peer s) (ln_up s) n k" by blast
  then have "up_ok pos base_a h_a a (ln_b s) pr (ln_up s) n k" using pr by (simp add: up_ok_def)
  with ok a pr down show ?thesis by (auto simp: link_ok_def)
qed

lemma link_ok_step:
  assumes S: "serde_ok S" and C: "broadcast_ok C cap chlog pos" and ok: "link_ok cr L S chlog pos vp base_a h_a base_b h_b from t s"
    and step: "link_step cr L S C s s'"
  shows "link_ok cr L S chlog pos vp base_a h_a base_b h_b from t s'"
  using step
proof cases
  case (link_tick m pr)
  obtain n k where "up_ok pos base_a h_a (ln_a s) (ln_b s) (ln_peer s) (ln_up s) n k" using ok by (auto simp: link_ok_def)
  note u = up_ok_tick [OF this link_tick(2)]
  from u(1) have "\<exists>n k. up_ok pos base_a h_a (ln_a s) (ln_b s) pr (ln_up s @ [m]) n k" by blast
  with ok u(2,3) link_tick(1) show ?thesis by (simp add: link_ok_def down_ok_def)
next
  case (link_receive m ms now b cn)
  have st: "store_ok cr L (hub_store (ln_b s))" "\<not> st_failed (hub_store (ln_b s))" "cn_open (ln_conn s)"
    using ok by (simp_all add: link_ok_def server_ok_def hub_log_def Let_def)
  have step': "server_step cr L S C (ln_b s, ln_conn s) (b, cn)"
    using st(3) link_receive(3,4) by (rule step_message)
  obtain n k where u: "up_ok pos base_a h_a (ln_a s) (ln_b s) (ln_peer s) (ln_up s) n k" using ok by (auto simp: link_ok_def)
  from up_ok_head(3) [OF u [unfolded link_receive(2)]] have m: "m = Publish (e_receipt (events_of (ln_a s) ! k))" .
  note rp = receive_publish [OF S link_receive(4) [unfolded m]]
  then have b: "b = fst (hub_publish cr L S C None (ln_b s) (e_receipt (events_of (ln_a s) ! k)))" by (metis fst_conv)
  have "\<not> st_failed (hub_store b)" using hub_publish_working [OF S st(1,2)] b by simp
  moreover have "cn_open cn" using rp(4) st(3) by simp
  moreover have "\<exists>n' k'. up_ok pos base_a h_a (ln_a s) b (ln_peer s) ms n' k'"
  proof -
    obtain es where "events_of b = events_of (ln_b s) @ es" using server_step_grows [OF step' st(1)] by blast
    from up_ok_grow_b [OF u this server_step_grows(3) [OF step' st(1)]]
    have u': "up_ok pos base_a h_a (ln_a s) b (ln_peer s) (m # ms) n k" using link_receive(2) by simp
    have "covers (hub_store b) (e_receipt (events_of (ln_a s) ! k))" using rp(1) hub_publish_covers [OF st(1)] by blast
    with up_ok_head(4) [OF u'] show ?thesis by blast
  qed
  ultimately show ?thesis unfolding link_receive(1) by (intro link_ok_b [OF S C ok step'])
next
  case (link_send now)
  have "server_step cr L S C (ln_b s, ln_conn s) (ln_b s, subscription_send now (ln_conn s))"
    using ok link_send by (intro step_send) (simp_all add: link_ok_def)
  from link_ok_keep_up [OF S C ok this] ok link_send show ?thesis by (simp add: link_ok_def subscription_send_same)
next
  case (link_live cn)
  have "server_step cr L S C (ln_b s, ln_conn s) (ln_b s, cn)"
    using ok link_live by (intro step_change) (simp_all add: link_ok_def)
  moreover have "cn_open cn" using link_live(3) ok
    by (auto simp: subscription_change_def guard_Inr link_ok_def split: option.splits prod.splits)
  ultimately show ?thesis using link_ok_keep_up [OF S C ok] ok link_live by (simp add: link_ok_def)
next
  case (link_deliver now a pr)
  have st: "hub_log cr L chlog base_a h_a (ln_a s)" "\<not> st_failed (hub_store (ln_a s))" "st_profile (hub_store (ln_a s)) = vp" "pr_profile (ln_peer s) = vp"
    using ok by (simp_all add: link_ok_def)
  note sta = hub_log_store(1) [OF st(1)]
  let ?m = "cn_out (ln_conn s) ! ln_read s"
  have sd: "sendable S ?m" using ok link_deliver(2) by (auto simp: link_ok_def conn_sendable_def list_all_iff)
  obtain t' receipt where e: "tracker_process cr L (pr_profile (ln_peer s)) (pr_tracker (ln_peer s)) ?m = (Inr receipt, t')"
    "publish_each cr L S C [] (ln_a s) (received_receipts ?m receipt) = (a, Inr ())"
    and pr: "pr_profile pr = pr_profile (ln_peer s)" "pr_changes pr = pr_changes (ln_peer s)" "pr_pending pr = pr_pending (ln_peer s)"
    by (rule deliver_effect [OF S sd link_deliver(3)])
  have down: "down_ok cr L vp t from a (ln_b s) pr (cn_out (ln_conn s)) (Suc (ln_read s))"
    using ok by (intro down_ok_deliver [OF S sta st(4) _ link_deliver(2) sd link_deliver(3)]) (simp add: link_ok_def)
  have sound: "message_sound (profile_verify cr L vp) ?m"
    using tracker_receipt [OF e(1) [unfolded st(4)]] tracker_accept_iff [of cr L vp] by blast
  have "\<forall>r \<in> set (received_receipts ?m receipt). profile_verify cr L (st_profile (hub_store (ln_a s))) r = Inr ()"
    using sound tracker_receipt [OF e(1) [unfolded st(4)]] st(3)
    by (auto simp: received_receipts_def message_sound_def event_sound_def split: server_message.splits option.splits)
  from publish_each_working [OF S sta st(2) this, of C] e(2) have "\<not> st_failed (hub_store a)" by simp
  moreover have "hub_log cr L chlog base_a h_a a" using hub_log_each [OF C st(1), of S "[]" "received_receipts ?m receipt"] e(2) by simp
  moreover have "st_profile (hub_store a) = vp" "\<exists>es. events_of a = events_of (ln_a s) @ es"
    using publish_each_grows [OF sta, of S C "[]" "received_receipts ?m receipt"] e(2) st(3) by simp_all
  ultimately show ?thesis unfolding link_deliver(1) using pr st(4) by (intro link_ok_a [OF ok _ _ _ _ _ _ _ down]) simp_all
next
  case (link_change pr)
  have hub: "hub_log cr L chlog base_a h_a (ln_a s)" using ok by (simp add: link_ok_def)
  obtain n k where up: "up_ok pos base_a h_a (ln_a s) (ln_b s) (ln_peer s) (ln_up s) n k" using ok by (auto simp: link_ok_def)
  note u = up_ok_change [OF C hub up link_change(2)]
  from u(1) have "\<exists>n k. up_ok pos base_a h_a (ln_a s) (ln_b s) pr (ln_up s) n k" by blast
  with ok u(2,3) link_change(1) show ?thesis by (simp add: link_ok_def down_ok_def)
qed

lemma link_ok_input:
  assumes S: "serde_ok S" and C: "broadcast_ok C cap chlog pos" and ok: "link_ok cr L S chlog pos vp base_a h_a base_b h_b from t s"
    and step: "link_input cr L S C s s'"
  shows "link_ok cr L S chlog pos vp base_a h_a base_b h_b from t s'"
proof -
  have st: "hub_log cr L chlog base_a h_a (ln_a s)" "\<not> st_failed (hub_store (ln_a s))" "hub_log cr L chlog base_b h_b (ln_b s)"
    "\<not> st_failed (hub_store (ln_b s))" "cn_open (ln_conn s)" "st_profile (hub_store (ln_a s)) = vp"
    using ok by (simp_all add: link_ok_def server_ok_def)
  note sa = hub_log_store(1) [OF st(1)] and sb = hub_log_store(1) [OF st(3)]
  show ?thesis
    using step
  proof cases
    case (input_a r)
    let ?a = "fst (hub_publish cr L S C None (ln_a s) r)"
    have a: "hub_log cr L chlog base_a h_a ?a" "\<not> st_failed (hub_store ?a)" "st_profile (hub_store ?a) = vp" "store_ok cr L (hub_store ?a)"
      using hub_log_publish [OF C st(1)] hub_publish_working [OF S sa st(2), where C = C] st(6) hub_publish_keeps(3) [OF sa]
      by (simp_all add: hub_publish_keeps(1))
    obtain es where es: "events_of ?a = events_of (ln_a s) @ es" using hub_publish_grows [OF sa] by blast
    have "down_ok cr L vp t from ?a (ln_b s) (ln_peer s) (cn_out (ln_conn s)) (ln_read s)"
      using ok by (intro down_ok_grow_a [OF _ es a(4)]) (simp add: link_ok_def)
    from link_ok_a [OF ok a(1,3,2) _ _ _ _ this] es ok input_a show ?thesis by (simp add: link_ok_def)
  next
    case (input_b r)
    let ?b = "fst (hub_publish cr L S C None (ln_b s) r)"
    have "server_step cr L S C (ln_b s, ln_conn s) (?b, ln_conn s)" by (rule step_other)
    from link_ok_keep_up [OF S C ok this] hub_publish_working [OF S sb st(4), where C = C] st(5) input_b show ?thesis by simp
  next
    case (input_heartbeat cn)
    then have "cn = (ln_conn s)\<lparr>cn_out := cn_out (ln_conn s) @ [Heartbeat (cn_sent (ln_conn s))]\<rparr>"
      by (simp add: subscription_heartbeat_def guard_Inr)
    moreover have "server_step cr L S C (ln_b s, ln_conn s) (ln_b s, cn)" using st(5) input_heartbeat(2,3) by (rule step_heartbeat)
    ultimately show ?thesis using link_ok_keep_up [OF S C ok, of "ln_b s" cn] st(4,5) input_heartbeat(1) by simp
  qed
qed

lemma link_ok_steps:
  assumes S: "serde_ok S" and C: "broadcast_ok C cap chlog pos" and ok: "link_ok cr L S chlog pos vp base_a h_a base_b h_b from t s"
    and steps: "(\<lambda>s s'. link_step cr L S C s s' \<or> link_input cr L S C s s')\<^sup>*\<^sup>* s s'"
  shows "link_ok cr L S chlog pos vp base_a h_a base_b h_b from t s'"
  using steps
proof (induction rule: rtranclp_induct)
  case base
  show ?case by (rule ok)
next
  case (step s1 s2)
  with link_ok_step [OF S C step.IH] link_ok_input [OF S C step.IH] show ?case by blast
qed

end
