(* ===== verification/Relay_Agreement.thy ===== *)
theory Relay_Agreement
  imports Relay_Gossip
begin

text \<open>
  Two connected relays become quiet and then agree: the start of a session, a measure that every
  step of the two relays decreases, that a state with work left has a step, and what a quiet state means.
\<close>

section \<open>Sessions\<close>

definition cursor_seq :: "tracker \<Rightarrow> nat" where
  "cursor_seq t = (case t_cursor t of None \<Rightarrow> 0 | Some c \<Rightarrow> k_seq c)"

text \<open>The start of a session from a tracker: snapshot and subscription at \<open>A\<close>, snapshot at \<open>B\<close>.\<close>

definition session_start :: "serde \<Rightarrow> ('c, 'r) broadcast \<Rightarrow> tracker \<Rightarrow> ('c, 'r) link \<Rightarrow> bool" where
  "session_start S C t s \<longleftrightarrow>
     (\<exists>now m. peer_start C (ln_a s) now t = Inr (m, ln_peer s)
        \<and> subscription_start S C (ln_b s) (Text (json_print (client_json S m))) = Inr (ln_conn s))
     \<and> ln_up s = [] \<and> ln_read s = 0"

text \<open>Reachable relays, and a disconnected tracker whose earlier events are covered.\<close>

definition tracker_ok :: "crypto \<Rightarrow> elements_lib \<Rightarrow> serde \<Rightarrow> validated_profile \<Rightarrow> tracker \<Rightarrow> 'c hub \<Rightarrow> 'c hub \<Rightarrow> bool" where
  "tracker_ok cr L S vp t a b \<longleftrightarrow>
     relay_reachable cr L S vp (hub_store a) \<and> relay_reachable cr L S vp (hub_store b)
     \<and> t_through t = None \<and> cursor_seq t \<le> length (events_of b)
     \<and> (\<forall>e \<in> set (take (cursor_seq t) (events_of b)). covers (hub_store a) (e_receipt e))"

abbreviation link_init :: "crypto \<Rightarrow> elements_lib \<Rightarrow> serde \<Rightarrow> ('c, 'r) broadcast \<Rightarrow> validated_profile \<Rightarrow> tracker \<Rightarrow> ('c, 'r) link \<Rightarrow> bool" where
  "link_init cr L S C vp t s \<equiv> tracker_ok cr L S vp t (ln_a s) (ln_b s) \<and> session_start S C t s"

lemma parse_text:
  "serde_ok S \<Longrightarrow> small_client m \<Longrightarrow> parse_client S (Text (json_print (client_json S m))) = Inr (Some m') \<Longrightarrow> m' = m"
  by (simp add: parse_client_def serde_ok_def split: if_splits)

lemma link_init_ok:
  assumes S: "serde_ok S" and vp: "profile_ok vp" and C: "broadcast_ok C cap chlog pos" and start: "link_init cr L S C vp t s"
  shows "link_ok cr L S chlog pos vp (chlog (hub_changes (ln_a s))) (store_head (hub_store (ln_a s)))
    (chlog (hub_changes (ln_b s))) (store_head (hub_store (ln_b s))) (cursor_seq t) t s"
proof -
  let ?a = "ln_a s" and ?b = "ln_b s"
  have reach: "relay_reachable cr L S vp (hub_store ?a)" "relay_reachable cr L S vp (hub_store ?b)" and t: "t_through t = None"
    "cursor_seq t \<le> length (events_of ?b)" and cov: "\<forall>e \<in> set (take (cursor_seq t) (events_of ?b)). covers (hub_store ?a) (e_receipt e)"
    and up: "ln_up s = []" "ln_read s = 0"
    using start by (simp_all add: tracker_ok_def session_start_def)
  obtain now m where ps: "peer_start C ?a now t = Inr (m, ln_peer s)"
    and ss: "subscription_start S C ?b (Text (json_print (client_json S m))) = Inr (ln_conn s)"
    using start by (auto simp: session_start_def)
  note ra = reachable_state [OF S vp reach(1)] and rb = reachable_state [OF S vp reach(2)]
  obtain es where rp: "replay (hub_store ?a) None = Inr es" and m: "m = Subscribe (vp_id vp) (t_cursor t)"
    and p: "ln_peer s = \<lparr>pr_tracker = t, pr_profile = vp, pr_changes = bc_subscribe C (hub_changes ?a), pr_pending = map e_receipt es,
      pr_last_received = now\<rparr>"
    using ps ra(2) by (auto simp: peer_start_def hub_snapshot_def bind_res_Inr Let_def)
  have pr: "pr_tracker (ln_peer s) = t" "pr_profile (ln_peer s) = vp" "pr_changes (ln_peer s) = bc_subscribe C (hub_changes ?a)"
    "pr_pending (ln_peer s) = map e_receipt es" by (simp_all add: p)
  note nfa = replay_InrD(1) [OF rp] and es = replay_InrD(2) [OF rp]
  obtain cur es' where cur: "parse_client S (Text (json_print (client_json S m))) = Inr (Some (Subscribe (vp_id vp) cur))"
    "replay (hub_store ?b) cur = Inr es'" and cn: "cn_out (ln_conn s) = []" "cn_open (ln_conn s)"
    using subscription_startE [OF ss] rb(2) by metis
  have "length (events_of ?b) \<le> 256" using store_bounded(2) [OF rb(3)] .
  then have "small_client m" using t(2) by (simp add: m small_client_def cursor_seq_def split: option.splits)
  from parse_text [OF S this cur(1)] m have c: "cur = t_cursor t" by simp
  have "server_ok cr L chlog pos (chlog (hub_changes ?b)) (store_head (hub_store ?b)) (cursor_seq t) (tracker_progress t) vp ?b (ln_conn s)"
    using server_ok_start [OF C rb(3), of S _ "vp_id vp" "tracker_progress t"] ss cur(1) c t(1) rb(2)
    by (simp add: tracker_progress_def cursor_seq_def)
  moreover have "up_ok pos (chlog (hub_changes ?a)) (store_head (hub_store ?a)) ?a ?b (ln_peer s) (ln_up s) (length (events_of ?a)) 0"
    using pr es up by (simp add: up_ok_def store_head_def broadcast_subscribe [OF C])
  moreover have "down_ok cr L vp t (cursor_seq t) ?a ?b (ln_peer s) (cn_out (ln_conn s)) (ln_read s)"
    using cov pr up cn by (simp add: down_ok_def)
  ultimately show ?thesis
    using hub_log_start [OF ra(3) nfa] ra(2) nfa replay_InrD(1) [OF cur(2)] cn(2) pr(2) sendable_start [OF S C rb(3) ss]
    by (auto simp: link_ok_def)
qed

section \<open>Termination\<close>

definition in_flight :: "'m list \<Rightarrow> nat \<Rightarrow> nat" where
  "in_flight out i = length out - i"

lemma in_flight_read: "i < length out \<Longrightarrow> in_flight out i = Suc (in_flight out (Suc i))"
  by (simp add: in_flight_def)

lemma in_flight_more: "length out' = Suc (length out) \<Longrightarrow> i \<le> length out \<Longrightarrow> in_flight out' i = Suc (in_flight out i)"
  by (simp add: in_flight_def)

text \<open>Work left: room in the two journals, changes not taken, receipts waiting, messages in flight.\<close>

definition link_measure :: "('r \<Rightarrow> nat) \<Rightarrow> change list \<Rightarrow> nat \<Rightarrow> ('c, 'r) link \<Rightarrow> nat" where
  "link_measure pos base h s =
     10 * (256 - length (events_of (ln_a s))) + 5 * (length (events_of (ln_a s)) - (h + (pos (pr_changes (ln_peer s)) - length base)))
     + (10 * (256 - length (events_of (ln_b s))) + 2 * (length (events_of (ln_b s)) - k_seq (cn_sent (ln_conn s))))
     + 4 * length (pr_pending (ln_peer s)) + 3 * length (ln_up s) + 2 * length (cn_todo (ln_conn s))
     + in_flight (cn_out (ln_conn s)) (ln_read s)"

lemma room_grows:
  fixes a a' n :: nat
  assumes "a \<le> a'" "a' \<le> 256" "n \<le> a" "w \<le> 10"
  shows "10 * (256 - a') + w * (a' - n) \<le> 10 * (256 - a) + w * (a - n)"
proof -
  have "w * (a' - n) = w * (a - n) + w * (a' - a)" using assms(1,3) by (simp flip: distrib_left)
  moreover have "w * (a' - a) \<le> 10 * (a' - a)" using assms(4) by simp
  moreover have "10 * (256 - a) = 10 * (256 - a') + 10 * (a' - a)" using assms(1,2) by simp
  ultimately show ?thesis by simp
qed

lemma link_bounds:
  assumes "link_ok cr L S chlog pos vp base_a h_a base_b h_b from t s"
  shows "length (events_of (ln_a s)) \<le> 256" "length (events_of (ln_b s)) \<le> 256" "store_ok cr L (hub_store (ln_a s))"
    "store_ok cr L (hub_store (ln_b s))" "k_seq (cn_sent (ln_conn s)) \<le> length (events_of (ln_b s))" "ln_read s \<le> length (cn_out (ln_conn s))"
  using assms hub_log_store(1,2) [of cr L chlog base_a h_a "ln_a s"] hub_log_store(1,2) [of cr L chlog base_b h_b "ln_b s"]
  by (auto simp: link_ok_def server_ok_def conn_ok_def down_ok_def Let_def)

lemma link_measure_a:
  assumes "length (events_of (ln_a s)) \<le> length (events_of a)" "length (events_of a) \<le> 256" "pr_changes pr = pr_changes (ln_peer s)"
    "h + (pos (pr_changes pr) - length base) \<le> length (events_of (ln_a s))" "pr_pending pr = pr_pending (ln_peer s)"
    "ln_read s < length (cn_out (ln_conn s))"
  shows "link_measure pos base h (s\<lparr>ln_a := a, ln_peer := pr, ln_read := Suc (ln_read s)\<rparr>) < link_measure pos base h s"
  using room_grows [OF assms(1,2,4), of 5] assms(3,5) in_flight_read [OF assms(6)] by (simp add: link_measure_def)

lemma link_measure_b:
  assumes "length (events_of (ln_b s)) \<le> length (events_of b)" "length (events_of b) \<le> 256" "cn_sent cn = cn_sent (ln_conn s)"
    "k_seq (cn_sent cn) \<le> length (events_of (ln_b s))" "ln_up s = m # ms" "cn_todo cn = cn_todo (ln_conn s)"
    "length (cn_out cn) = Suc (length (cn_out (ln_conn s)))" "ln_read s \<le> length (cn_out (ln_conn s))"
  shows "link_measure pos base h (s\<lparr>ln_up := ms, ln_b := b, ln_conn := cn\<rparr>) < link_measure pos base h s"
  using room_grows [OF assms(1,2,4), of 2] assms(3,5,6) in_flight_more [OF assms(7,8)] by (simp add: link_measure_def)

lemma link_measure_step:
  assumes S: "serde_ok S" and C: "broadcast_ok C cap chlog pos" and ok: "link_ok cr L S chlog pos vp base_a h_a base_b h_b from t s"
    and step: "link_step cr L S C s s'"
  shows "link_measure pos base_a h_a s' < link_measure pos base_a h_a s"
proof -
  note ok' = link_ok_step [OF S C ok step] and b = link_bounds [OF ok]
  note b' = link_bounds [OF ok']
  obtain n k where up: "up_ok pos base_a h_a (ln_a s) (ln_b s) (ln_peer s) (ln_up s) n k" using ok by (auto simp: link_ok_def)
  then have n: "h_a + (pos (pr_changes (ln_peer s)) - length base_a) = n" "n \<le> length (events_of (ln_a s))" "pos (pr_changes (ln_peer s)) = length base_a + (n - h_a)"
    by (simp_all add: up_ok_def)
  show ?thesis
    using step
  proof cases
    case (link_tick m pr)
    then show ?thesis by (auto simp: link_measure_def peer_tick_def split: list.splits)
  next
    case (link_receive m ms now b1 cn)
    have m: "m = Publish (e_receipt (events_of (ln_a s) ! k))" using up_ok_head(3) up link_receive(2) by metis
    note rp = receive_publish [OF S link_receive(4) [unfolded m]]
    obtain es where "events_of b1 = events_of (ln_b s) @ es"
      using hub_publish_grows [OF b(4), of S C None "e_receipt (events_of (ln_a s) ! k)"] rp(1) by auto
    with b' b rp link_receive show ?thesis by (auto intro!: link_measure_b)
  next
    case (link_send now)
    then obtain m ms where m: "cn_todo (ln_conn s) = m # ms" by (cases "cn_todo (ln_conn s)") simp_all
    have "in_flight (cn_out (ln_conn s) @ [m]) (ln_read s) = Suc (in_flight (cn_out (ln_conn s)) (ln_read s))"
      using b(6) by (intro in_flight_more) simp_all
    with m link_send(1) show ?thesis by (simp add: link_measure_def subscription_send_def Let_def)
  next
    case (link_live cn)
    from link_live(3) have "cn_todo cn = cn_todo (ln_conn s)" "length (cn_out cn) = Suc (length (cn_out (ln_conn s)))"
      "k_seq (cn_sent cn) = Suc (k_seq (cn_sent (ln_conn s)))"
      by (auto simp: subscription_change_def guard_Inr split: option.splits prod.splits)
    with b'(5) in_flight_more [of "cn_out cn" "cn_out (ln_conn s)", OF _ b(6)] link_live(1) show ?thesis by (simp add: link_measure_def)
  next
    case (link_deliver now a pr)
    have sd: "sendable S (cn_out (ln_conn s) ! ln_read s)"
      using ok link_deliver(2) by (auto simp: link_ok_def conn_sendable_def list_all_iff)
    obtain t' receipt where e: "publish_each cr L S C [] (ln_a s) (received_receipts (cn_out (ln_conn s) ! ln_read s) receipt) = (a, Inr ())"
      and pr: "pr_changes pr = pr_changes (ln_peer s)" "pr_pending pr = pr_pending (ln_peer s)"
      by (rule deliver_effect [OF S sd link_deliver(3)])
    have "length (events_of (ln_a s)) \<le> length (events_of a)"
      using publish_each_grows [OF b(3), of S C "[]" "received_receipts (cn_out (ln_conn s) ! ln_read s) receipt"] e by auto
    with b'(1) pr n link_deliver(1,2) show ?thesis by (auto intro!: link_measure_a)
  next
    case (link_change pr)
    have "hub_log cr L chlog base_a h_a (ln_a s)" using ok by (simp add: link_ok_def)
    note u = up_ok_change [OF C this up link_change(2)]
    then have "h_a + (pos (pr_changes pr) - length base_a) = Suc n" by (simp add: up_ok_def)
    with u(4,5) n link_change(1) show ?thesis by (simp add: link_measure_def)
  qed
qed

section \<open>Progress\<close>

definition quiet :: "('c, 'r) broadcast \<Rightarrow> ('c, 'r) link \<Rightarrow> bool" where
  "quiet C s \<longleftrightarrow> pr_pending (ln_peer s) = [] \<and> ln_up s = [] \<and> cn_todo (ln_conn s) = []
     \<and> ln_read s = length (cn_out (ln_conn s)) \<and> peer_change C (ln_a s) (ln_peer s) = None
     \<and> subscription_change C (ln_b s) (ln_conn s) = None"

lemma receive_progress:
  assumes S: "serde_ok S" and b: "store_ok cr L (hub_store b)" "\<not> st_failed (hub_store b)"
    and r: "profile_verify cr L (st_profile (hub_store b)) r = Inr ()"
  shows "\<exists>b' cn'. subscription_message cr L S C None (cn_rate_since cn + 1000) b cn (Text (json_print (client_json S (Publish r)))) = (b', Inr cn')"
proof -
  obtain b' status n where "hub_publish cr L S C None b r = (b', Inr (Published n status))"
    using hub_publish_acknowledged [OF S b r, where C = C] by metis
  then show ?thesis
    by (simp add: subscription_message_def parse_publish [OF S] Let_def MAX_PUBLISH_PER_SECOND_def)
qed

lemma deliver_progress:
  assumes S: "serde_ok S" and a: "store_ok cr L (hub_store a)" "\<not> st_failed (hub_store a)" "st_profile (hub_store a) = vp"
    and pr: "pr_profile pr = vp" "tracker_accept cr L vp (pr_tracker pr) m = Some t'" and m: "sendable S m"
  shows "\<exists>a' pr'. peer_message cr L S C [] now a pr (Text (json_print (server_json S m))) = (a', Inr pr')"
proof -
  obtain receipt where p: "tracker_process cr L vp (pr_tracker pr) m = (Inr receipt, t')"
    using pr(2) by (auto simp: tracker_accept_def split: prod.splits sum.splits)
  note r = tracker_receipt [OF p]
  have "message_sound (profile_verify cr L vp) m" using pr(2) tracker_accept_iff by blast
  with r have "\<forall>r \<in> set (received_receipts m receipt). profile_verify cr L (st_profile (hub_store a)) r = Inr ()"
    by (auto simp: a(3) received_receipts_def message_sound_def event_sound_def split: server_message.splits option.splits)
  from publish_each_working [OF S a(1,2) this, of C] obtain a' where "publish_each cr L S C [] a (received_receipts m receipt) = (a', Inr ())"
    by blast
  moreover have "read_server S (json_print (server_json S m)) = Some m" "length (json_print (server_json S m)) \<le> RELAY_MAX_FRAME"
    using S m by (simp_all add: serde_ok_def sendable_def)
  ultimately show ?thesis using p pr(1) by (simp add: peer_message_def)
qed

lemma next_accepted:
  assumes ok: "link_ok cr L S chlog pos vp base_a h_a base_b h_b from t s" and i: "ln_read s < length (cn_out (ln_conn s))"
  shows "\<exists>t'. tracker_accept cr L vp (pr_tracker (ln_peer s)) (cn_out (ln_conn s) ! ln_read s) = Some t'"
proof -
  let ?out = "cn_out (ln_conn s)" and ?i = "ln_read s"
  have conn: "conn_ok cr L chlog pos base_b h_b from (tracker_progress t) vp (ln_b s) (ln_conn s)"
    and hub: "hub_log cr L chlog base_b h_b (ln_b s)" "st_profile (hub_store (ln_b s)) = vp"
    and fd: "feed (tracker_accept cr L vp) t (take ?i ?out) = Some (pr_tracker (ln_peer s))"
    using ok by (simp_all add: link_ok_def server_ok_def down_ok_def)
  obtain v where v: "feed (protocol_step (vp_id vp) (max_events vp)) (tracker_progress t) ?out = Some v"
    using conn by (auto simp: conn_ok_def Let_def feed_append bind_eq_Some_conv)
  have "feed (tracker_accept cr L vp) t ?out \<noteq> None"
    using trk.feed_accepts [OF v conn_sound [OF hub conn]] by auto
  moreover have "?out = take ?i ?out @ ?out ! ?i # drop (Suc ?i) ?out" using i by (simp add: id_take_nth_drop)
  ultimately have "feed (tracker_accept cr L vp) t (take ?i ?out @ ?out ! ?i # drop (Suc ?i) ?out) \<noteq> None" by metis
  with fd show ?thesis by (auto simp: feed_append bind_eq_None_conv)
qed

lemma pending_small:
  assumes "up_ok pos base h a b pr up n k" "length (events_of a) \<le> 256"
  shows "length (pr_pending pr) \<le> n" "n < length (events_of a) \<Longrightarrow> length (pr_pending pr) < 256"
proof -
  have "length (up @ map Publish (pr_pending pr)) = length (map (\<lambda>e. Publish (e_receipt e)) (drop k (take n (events_of a))))"
    using assms(1) unfolding up_ok_def by (simp only:)
  then show "length (pr_pending pr) \<le> n" using assms(1) by (simp add: up_ok_def)
  then show "n < length (events_of a) \<Longrightarrow> length (pr_pending pr) < 256" using assms(2) by simp
qed

lemma change_progress:
  assumes C: "broadcast_ok C 256 chlog pos" and hub: "hub_log cr L chlog base h a" "\<not> st_failed (hub_store a)"
    and up: "up_ok pos base h a b pr up n k"
  shows "n = length (events_of a) \<and> peer_change C a pr = None \<or> (\<exists>pr'. peer_change C a pr = Some (Inr pr'))"
proof -
  have u: "pos (pr_changes pr) = length base + (n - h)" "h \<le> n" "n \<le> length (events_of a)" using up by (simp_all add: up_ok_def)
  note w = hub_recv_working [OF C hub u]
  show ?thesis
  proof (cases "n < length (events_of a)")
    case True
    with w(2) pending_small(2) [OF up hub_log_store(2) [OF hub(1)]] show ?thesis
      by (auto simp: peer_change_def MAX_SESSIONS_def guard_def)
  next
    case False
    with u(3) have "n = length (events_of a)" by simp
    with w(1) show ?thesis by (simp add: peer_change_def)
  qed
qed

lemma live_progress:
  assumes C: "broadcast_ok C 256 chlog pos" and hub: "hub_log cr L chlog base h b" "\<not> st_failed (hub_store b)"
    and conn: "conn_ok cr L chlog pos base h from v vp b cn"
  shows "k_seq (cn_sent cn) = length (events_of b) \<and> subscription_change C b cn = None \<or> (\<exists>cn'. subscription_change C b cn = Some (Inr cn'))"
proof -
  let ?n = "k_seq (cn_sent cn)"
  have u: "pos (cn_changes cn) = length base + (?n - h)" "h \<le> ?n" "?n \<le> length (events_of b)" using conn by (simp_all add: conn_ok_def Let_def)
  note w = hub_recv_working [OF C hub u]
  have j: "journal_ok (profile_verify cr L (st_profile (hub_store b))) (events_of b)" using hub(1) by (simp add: hub_log_def store_ok_def Let_def)
  show ?thesis
  proof (cases "?n < length (events_of b)")
    case True
    with w(2) journal_nth_seq [OF j True] show ?thesis by (auto simp: subscription_change_def)
  next
    case False
    with u(3) have "?n = length (events_of b)" by simp
    with w(1) show ?thesis by (simp add: subscription_change_def)
  qed
qed

lemma link_progress:
  assumes S: "serde_ok S" and C: "broadcast_ok C 256 chlog pos" and ok: "link_ok cr L S chlog pos vp base_a h_a base_b h_b from t s"
    and stuck: "\<nexists>s'. link_step cr L S C s s'"
  shows "quiet C s"
proof -
  have a: "hub_log cr L chlog base_a h_a (ln_a s)" "\<not> st_failed (hub_store (ln_a s))" "st_profile (hub_store (ln_a s)) = vp"
    and b: "hub_log cr L chlog base_b h_b (ln_b s)" "\<not> st_failed (hub_store (ln_b s))" "st_profile (hub_store (ln_b s)) = vp"
    and conn: "conn_ok cr L chlog pos base_b h_b from (tracker_progress t) vp (ln_b s) (ln_conn s)" and pr: "pr_profile (ln_peer s) = vp"
    using ok by (simp_all add: link_ok_def server_ok_def)
  note sta = hub_log_store(1) [OF a(1)] and stb = hub_log_store(1) [OF b(1)]
  obtain n k where up: "up_ok pos base_a h_a (ln_a s) (ln_b s) (ln_peer s) (ln_up s) n k" using ok by (auto simp: link_ok_def)
  have pend: "pr_pending (ln_peer s) = []"
  proof (cases "pr_pending (ln_peer s)")
    case (Cons r rs)
    then have "peer_tick (ln_peer s) = Some (Publish r, (ln_peer s)\<lparr>pr_pending := rs\<rparr>)" by (simp add: peer_tick_def)
    with stuck link_tick show ?thesis by blast
  qed
  have todo: "cn_todo (ln_conn s) = []" using stuck link_send by blast
  have upn: "ln_up s = []"
  proof (cases "ln_up s")
    case (Cons m ms)
    note h = up_ok_head [OF up [unfolded Cons]]
    have "journal_ok (profile_verify cr L vp) (events_of (ln_a s))" using sta a(3) by (simp add: store_ok_def)
    from journal_verified [OF this nth_mem [OF h(2)]] have v: "profile_verify cr L (st_profile (hub_store (ln_b s))) (e_receipt (events_of (ln_a s) ! k)) = Inr ()"
      by (simp add: b(3))
    from receive_progress [OF S stb b(2) v, of C "ln_conn s"] link_receive [OF Cons todo] stuck h(3) show ?thesis by blast
  qed simp
  have read: "ln_read s = length (cn_out (ln_conn s))"
  proof (rule ccontr)
    assume "ln_read s \<noteq> length (cn_out (ln_conn s))"
    with link_bounds(6) [OF ok] have i: "ln_read s < length (cn_out (ln_conn s))" by simp
    have sd: "sendable S (cn_out (ln_conn s) ! ln_read s)" using ok i by (auto simp: link_ok_def conn_sendable_def list_all_iff)
    from next_accepted [OF ok i] obtain t' where "tracker_accept cr L vp (pr_tracker (ln_peer s)) (cn_out (ln_conn s) ! ln_read s) = Some t'" by blast
    from deliver_progress [OF S sta a(2,3) pr this sd, of C 0] link_deliver [OF i] stuck show False by blast
  qed
  have "peer_change C (ln_a s) (ln_peer s) = None" using change_progress [OF C a(1,2) up] link_change stuck by blast
  moreover have "subscription_change C (ln_b s) (ln_conn s) = None" using live_progress [OF C b(1,2) conn] link_live [OF todo] stuck by blast
  ultimately show ?thesis using pend todo upn read by (simp add: quiet_def)
qed

lemma reaches_quiet:
  assumes S: "serde_ok S" and C: "broadcast_ok C 256 chlog pos" and ok: "link_ok cr L S chlog pos vp base_a h_a base_b h_b from t s"
  shows "\<exists>s'. (link_step cr L S C)\<^sup>*\<^sup>* s s' \<and> quiet C s'"
  using ok
proof (induction s rule: measure_induct_rule [where f = "link_measure pos base_a h_a"])
  case (less s)
  show ?case
  proof (cases "\<exists>s'. link_step cr L S C s s'")
    case True
    then obtain s1 where s1: "link_step cr L S C s s1" by blast
    from less.IH [OF link_measure_step [OF S C less.prems s1] link_ok_step [OF S C less.prems s1]]
    obtain s' where "(link_step cr L S C)\<^sup>*\<^sup>* s1 s'" "quiet C s'" by blast
    with s1 show ?thesis by (meson converse_rtranclp_into_rtranclp)
  next
    case False
    with link_progress [OF S C less.prems] show ?thesis by blast
  qed
qed

lemma link_terminates:
  assumes S: "serde_ok S" and C: "broadcast_ok C cap chlog pos" and ok: "link_ok cr L S chlog pos vp base_a h_a base_b h_b from t (f 0)"
    and chain: "\<And>i. link_step cr L S C (f i) (f (Suc i))"
  shows False
proof -
  have oks: "link_ok cr L S chlog pos vp base_a h_a base_b h_b from t (f i)" for i
    using ok link_ok_step [OF S C] chain by (induction i) blast+
  have "link_measure pos base_a h_a (f i) + i \<le> link_measure pos base_a h_a (f 0)" for i
  proof (induction i)
    case (Suc i)
    with link_measure_step [OF S C oks chain, of i] show ?case by simp
  qed simp
  from this [of "Suc (link_measure pos base_a h_a (f 0))"] show False by simp
qed

section \<open>Agreement\<close>

text \<open>
  Two stores agree if they know a conflict for the same bonds and the same promise for every other bond.
\<close>

definition bond_txids :: "store \<Rightarrow> outpoint \<Rightarrow> u256 list" where
  "bond_txids st b = map (\<lambda>e. r_txid (e_receipt e)) (of_bond b (st_events st))"

definition agree :: "store \<Rightarrow> store \<Rightarrow> bool" where
  "agree st st' \<longleftrightarrow> (\<forall>b. (length (bond_txids st b) = 2 \<longleftrightarrow> length (bond_txids st' b) = 2)
     \<and> (length (bond_txids st b) \<noteq> 2 \<longrightarrow> bond_txids st b = bond_txids st' b))"

lemma covered_conflict:
  assumes "store_ok cr L st" "store_ok cr L st'" "\<forall>e \<in> set (st_events st). covers st' (e_receipt e)" "length (bond_txids st b) = 2"
  shows "length (bond_txids st' b) = 2"
proof (rule ccontr)
  assume ne: "length (bond_txids st' b) \<noteq> 2"
  have j: "journal_ok (profile_verify cr L (st_profile st)) (st_events st)" "journal_ok (profile_verify cr L (st_profile st')) (st_events st')"
    using assms(1,2) by (simp_all add: store_ok_def)
  obtain d e where de: "of_bond b (st_events st) = [d, e]"
    using assms(4) by (auto simp: bond_txids_def length_Suc_conv numeral_2_eq_2)
  then have "d \<in> set (of_bond b (st_events st))" "e \<in> set (of_bond b (st_events st))" by simp_all
  then have mem: "d \<in> set (st_events st)" "e \<in> set (st_events st)" "r_bond (e_receipt d) = b" "r_bond (e_receipt e) = b"
    by (simp_all add: set_of_bond)
  have "r_txid (e_receipt d) \<noteq> r_txid (e_receipt e)" using journal_bond [OF j(1), of b] de by simp
  moreover obtain d' where "d' \<in> set (st_events st')" "r_bond (e_receipt d') = b" "r_txid (e_receipt d') = r_txid (e_receipt d)"
    using assms(3) mem ne by (fastforce simp: covers_def bond_txids_def)
  moreover obtain e' where "e' \<in> set (st_events st')" "r_bond (e_receipt e') = b" "r_txid (e_receipt e') = r_txid (e_receipt e)"
    using assms(3) mem ne by (fastforce simp: covers_def bond_txids_def)
  ultimately have "length (of_bond b (st_events st')) = 2" by (intro two_events [OF j(2), of d' e']) auto
  with ne show False by (simp add: bond_txids_def)
qed

lemma covered_single:
  assumes "store_ok cr L st'" "\<forall>e \<in> set (st_events st). covers st' (e_receipt e)" "bond_txids st b = [x]" "length (bond_txids st' b) \<noteq> 2"
  shows "bond_txids st' b = [x]"
proof -
  have j: "journal_ok (profile_verify cr L (st_profile st')) (st_events st')" using assms(1) by (simp add: store_ok_def)
  obtain e where e: "of_bond b (st_events st) = [e]" "r_txid (e_receipt e) = x" using assms(3) by (auto simp: bond_txids_def)
  then have "e \<in> set (of_bond b (st_events st))" by simp
  then have "e \<in> set (st_events st)" "r_bond (e_receipt e) = b" by (simp_all add: set_of_bond)
  with assms(2,4) obtain e' where "e' \<in> set (st_events st')" "r_bond (e_receipt e') = b" "r_txid (e_receipt e') = x"
    using e(2) by (fastforce simp: covers_def bond_txids_def)
  then have "e' \<in> set (of_bond b (st_events st'))" "x = r_txid (e_receipt e')" by (simp_all add: set_of_bond)
  moreover have "length (of_bond b (st_events st')) \<le> 1"
    using journal_bond [OF j, of b] assms(4) by (simp add: bond_txids_def)
  ultimately show ?thesis by (cases "of_bond b (st_events st')") (simp_all add: bond_txids_def)
qed

lemma covered_agree:
  assumes ok: "store_ok cr L st" "store_ok cr L st'"
    and cov: "\<forall>e \<in> set (st_events st). covers st' (e_receipt e)" "\<forall>e \<in> set (st_events st'). covers st (e_receipt e)"
  shows "agree st st'"
  unfolding agree_def
proof (intro allI conjI impI)
  fix b
  show iff: "length (bond_txids st b) = 2 \<longleftrightarrow> length (bond_txids st' b) = 2"
    using covered_conflict [OF ok cov(1)] covered_conflict [OF ok(2,1) cov(2)] by blast
  assume ne: "length (bond_txids st b) \<noteq> 2"
  have small: "length (bond_txids st b) \<le> 2" "length (bond_txids st' b) \<le> 2"
    using journal_bond ok unfolding store_ok_def bond_txids_def length_map by blast+
  show "bond_txids st b = bond_txids st' b"
  proof (cases "bond_txids st b")
    case (Cons x xs)
    with ne small(1) have "bond_txids st b = [x]" by (cases xs) simp_all
    with covered_single [OF ok(2) cov(1) this] iff ne show ?thesis by simp
  next
    case Nil
    show ?thesis
    proof (cases "bond_txids st' b")
      case (Cons x xs)
      with iff ne small(2) have "bond_txids st' b = [x]" by (cases xs) simp_all
      from covered_single [OF ok(1) cov(2) this ne] Nil show ?thesis by simp
    qed (simp add: Nil)
  qed
qed

lemma quiet_agree:
  assumes C: "broadcast_ok C 256 chlog pos" and ok: "link_ok cr L S chlog pos vp base_a h_a base_b h_b from t s" and q: "quiet C s"
  shows "agree (hub_store (ln_a s)) (hub_store (ln_b s))"
proof -
  have a: "hub_log cr L chlog base_a h_a (ln_a s)" "\<not> st_failed (hub_store (ln_a s))"
    and b: "hub_log cr L chlog base_b h_b (ln_b s)" "\<not> st_failed (hub_store (ln_b s))"
    and conn: "conn_ok cr L chlog pos base_b h_b from (tracker_progress t) vp (ln_b s) (ln_conn s)"
    and down: "down_ok cr L vp t from (ln_a s) (ln_b s) (ln_peer s) (cn_out (ln_conn s)) (ln_read s)"
    using ok by (simp_all add: link_ok_def server_ok_def)
  obtain n k where up: "up_ok pos base_a h_a (ln_a s) (ln_b s) (ln_peer s) (ln_up s) n k" using ok by (auto simp: link_ok_def)
  have "n = length (events_of (ln_a s))" using change_progress [OF C a up] q by (simp add: quiet_def)
  with up q have up': "\<forall>e \<in> set (events_of (ln_a s)). covers (hub_store (ln_b s)) (e_receipt e)"
    by (simp add: up_ok_def quiet_def)
  have "k_seq (cn_sent (ln_conn s)) = length (events_of (ln_b s))" using live_progress [OF C b conn] q by (simp add: quiet_def)
  with conn down q have "sent_events (cn_out (ln_conn s)) = drop from (events_of (ln_b s))"
    "\<forall>e \<in> set (take from (events_of (ln_b s))) \<union> set (sent_events (cn_out (ln_conn s))). covers (hub_store (ln_a s)) (e_receipt e)"
    by (simp_all add: conn_ok_def down_ok_def quiet_def Let_def)
  moreover have "set (take from (events_of (ln_b s))) \<union> set (drop from (events_of (ln_b s))) = set (events_of (ln_b s))"
    by (simp flip: set_append)
  ultimately have "\<forall>e \<in> set (events_of (ln_b s)). covers (hub_store (ln_a s)) (e_receipt e)" by simp
  with up' show ?thesis
    using hub_log_store(1) [OF a(1)] hub_log_store(1) [OF b(1)] by (intro covered_agree)
qed

section \<open>Cursor\<close>

text \<open>The cursor counts the events accepted so far.\<close>

definition progress_seq :: "progress \<Rightarrow> nat" where
  "progress_seq v = (case pg_cursor v of None \<Rightarrow> 0 | Some c \<Rightarrow> k_seq c)"

lemma feed_tracker:
  "feed (tracker_accept cr L vp) t ms = Some t'
    \<Longrightarrow> feed (protocol_step (vp_id vp) (max_events vp)) (tracker_progress t) ms = Some (tracker_progress t')"
proof (induction ms arbitrary: t)
  case (Cons m ms)
  then show ?case using tracker_accept_iff [of cr L vp t m] by (auto simp: bind_eq_Some_conv)
qed simp

lemma progress_step: "protocol_step P N v m = Some v' \<Longrightarrow> progress_seq v' = progress_seq v + length (sent_events [m])"
  by (auto simp: protocol_step_def protocol_begin_def progress_seq_def split: server_message.splits option.splits if_splits)

lemma progress_feed: "feed (protocol_step P N) v ms = Some v' \<Longrightarrow> progress_seq v' = progress_seq v + length (sent_events ms)"
proof (induction ms arbitrary: v)
  case (Cons m ms)
  then obtain v1 where "protocol_step P N v m = Some v1" "feed (protocol_step P N) v1 ms = Some v'" by (auto simp: bind_eq_Some_conv)
  with Cons.IH progress_step sent_events_append [of "[m]" ms] show ?case by fastforce
qed simp

lemma take_prefix: "xs @ ys = drop j (take n es) \<Longrightarrow> take (j + length xs) es = take j es @ xs"
proof -
  assume a: "xs @ ys = drop j (take n es)"
  have "xs = take (length xs) (drop j (take n es))" by (simp flip: a)
  moreover have "length (xs @ ys) \<le> n - j" by (simp add: a)
  ultimately have "xs = take (length xs) (drop j es)" by (simp add: drop_take min_def)
  then show ?thesis by (simp add: take_add)
qed

lemma cursor_sent:
  assumes ok: "link_ok cr L S chlog pos vp base_a h_a base_b h_b (cursor_seq t) t s"
  shows "cursor_seq (pr_tracker (ln_peer s)) = cursor_seq t + length (sent_events (take (ln_read s) (cn_out (ln_conn s))))"
    "\<exists>rest. sent_events (take (ln_read s) (cn_out (ln_conn s))) @ rest = drop (cursor_seq t) (take (k_seq (cn_sent (ln_conn s))) (events_of (ln_b s)))"
proof -
  let ?out = "cn_out (ln_conn s)" and ?i = "ln_read s" and ?n = "k_seq (cn_sent (ln_conn s))"
  have fd: "feed (tracker_accept cr L vp) t (take ?i ?out) = Some (pr_tracker (ln_peer s))"
    and ev: "sent_events (?out @ cn_todo (ln_conn s)) = drop (cursor_seq t) (take ?n (events_of (ln_b s)))"
    using ok by (simp_all add: link_ok_def server_ok_def down_ok_def conn_ok_def Let_def)
  have "progress_seq (tracker_progress (pr_tracker (ln_peer s))) = progress_seq (tracker_progress t) + length (sent_events (take ?i ?out))"
    by (rule progress_feed [OF feed_tracker [OF fd]])
  then show "cursor_seq (pr_tracker (ln_peer s)) = cursor_seq t + length (sent_events (take ?i ?out))"
    by (simp add: progress_seq_def tracker_progress_def cursor_seq_def)
  show "\<exists>rest. sent_events (take ?i ?out) @ rest = drop (cursor_seq t) (take ?n (events_of (ln_b s)))"
    using ev by (metis append_assoc append_take_drop_id sent_events_append)
qed

lemma cursor_ingested:
  assumes ok: "link_ok cr L S chlog pos vp base_a h_a base_b h_b (cursor_seq t) t s"
  shows "\<forall>e \<in> set (take (cursor_seq (pr_tracker (ln_peer s))) (events_of (ln_b s))). covers (hub_store (ln_a s)) (e_receipt e)"
proof -
  let ?sent = "sent_events (take (ln_read s) (cn_out (ln_conn s)))"
  have "\<forall>e \<in> set (take (cursor_seq t) (events_of (ln_b s))) \<union> set ?sent. covers (hub_store (ln_a s)) (e_receipt e)"
    using ok by (simp add: link_ok_def down_ok_def)
  with cursor_sent [OF ok] take_prefix show ?thesis by (metis set_append)
qed

lemma cursor_bounded:
  assumes ok: "link_ok cr L S chlog pos vp base_a h_a base_b h_b (cursor_seq t) t s" and "cursor_seq t \<le> length (events_of (ln_b s))"
  shows "cursor_seq (pr_tracker (ln_peer s)) \<le> length (events_of (ln_b s))"
proof -
  let ?sent = "sent_events (take (ln_read s) (cn_out (ln_conn s)))" and ?n = "k_seq (cn_sent (ln_conn s))"
  obtain rest where "?sent @ rest = drop (cursor_seq t) (take ?n (events_of (ln_b s)))" using cursor_sent(2) [OF ok] by blast
  then have "length ?sent \<le> length (drop (cursor_seq t) (take ?n (events_of (ln_b s))))" by (metis le_add1 length_append)
  then show ?thesis using assms(2) cursor_sent(1) [OF ok] by simp
qed

end
