(* ===== verification/Relay_Reconnect.thy ===== *)
theory Relay_Reconnect
  imports Relay_Agreement
begin

text \<open>
  The life of a peer task of \<open>serve\<close> in \<^verbatim>\<open>src/relay/server.rs\<close>: sessions follow each other with one tracker. Between
  sessions, and where a session ends with an error, other tasks publish at the local relay, and the remote relay
  may also fail and restart from its journal. A restart of the local relay begins with a new tracker.
\<close>

abbreviation link_any :: "crypto \<Rightarrow> elements_lib \<Rightarrow> serde \<Rightarrow> ('c, 'r) broadcast \<Rightarrow> ('c, 'r) link \<Rightarrow> ('c, 'r) link \<Rightarrow> bool" where
  "link_any cr L S C s s' \<equiv> link_step cr L S C s s' \<or> link_input cr L S C s s'"

inductive peer_task :: "crypto \<Rightarrow> elements_lib \<Rightarrow> serde \<Rightarrow> ('c, 'r) broadcast \<Rightarrow> validated_profile \<Rightarrow> tracker \<Rightarrow> 'c hub \<Rightarrow> 'c hub \<Rightarrow> bool"
  for cr L S C vp where
  spawned: "relay_reachable cr L S vp (hub_store a) \<Longrightarrow> relay_reachable cr L S vp (hub_store b) \<Longrightarrow> peer_task cr L S C vp new_tracker a b"
| local_publish: "peer_task cr L S C vp t a b \<Longrightarrow> peer_task cr L S C vp t (fst (hub_publish cr L S C io a r)) b"
| remote: "peer_task cr L S C vp t a b \<Longrightarrow> (journal_step cr L S)\<^sup>*\<^sup>* (hub_store b) (hub_store b') \<Longrightarrow> peer_task cr L S C vp t a b'"
| session: "peer_task cr L S C vp t (ln_a s0) (ln_b s0) \<Longrightarrow> session_start S C t s0 \<Longrightarrow> (link_any cr L S C)\<^sup>*\<^sup>* s0 s
    \<Longrightarrow> peer_task cr L S C vp (disconnected (pr_tracker (ln_peer s))) (ln_a s) (ln_b s)"

text \<open>The start of some session of a peer task.\<close>

definition link_start :: "crypto \<Rightarrow> elements_lib \<Rightarrow> serde \<Rightarrow> ('c, 'r) broadcast \<Rightarrow> validated_profile \<Rightarrow> tracker \<Rightarrow> ('c, 'r) link \<Rightarrow> bool" where
  "link_start cr L S C vp t s \<longleftrightarrow> peer_task cr L S C vp t (ln_a s) (ln_b s) \<and> session_start S C t s"

section \<open>Stores during a session\<close>

lemma publish_steps: "(journal_step cr L S)\<^sup>*\<^sup>* (hub_store hub) (hub_store (fst (hub_publish cr L S C io hub r)))"
  unfolding hub_publish_store by (rule r_into_rtranclp, rule journal_step.step_publish)

lemma publish_each_steps: "(journal_step cr L S)\<^sup>*\<^sup>* (hub_store hub) (hub_store (fst (publish_each cr L S C ios hub rs)))"
proof (induction rs arbitrary: ios hub)
  case (Cons r rs)
  obtain hub' x where p: "hub_publish cr L S C (case ios of [] \<Rightarrow> None | io # _ \<Rightarrow> io) hub r = (hub', x)" by fastforce
  have "(journal_step cr L S)\<^sup>*\<^sup>* (hub_store hub) (hub_store hub')"
    using publish_steps [of cr L S hub C "case ios of [] \<Rightarrow> None | io # _ \<Rightarrow> io" r] p by simp
  then show ?case using Cons.IH [of hub' "tl ios"] p by (cases x) (auto intro: rtranclp_trans)
qed simp

lemma peer_message_steps: "(journal_step cr L S)\<^sup>*\<^sup>* (hub_store hub) (hub_store (fst (peer_message cr L S C ios now hub pr m)))"
proof -
  have "fst (peer_message cr L S C ios now hub pr m) = hub \<or> (\<exists>rs. fst (peer_message cr L S C ios now hub pr m) = fst (publish_each cr L S C ios hub rs))"
    by (auto simp: peer_message_def split: ws_message.splits option.splits prod.splits sum.splits) (metis fst_conv)+
  then show ?thesis using publish_each_steps [of cr L S hub C ios] by (metis rtranclp.rtrancl_refl)
qed

lemma subscription_message_steps:
  "subscription_message cr L S C io now hub cn m = (hub', res) \<Longrightarrow> (journal_step cr L S)\<^sup>*\<^sup>* (hub_store hub) (hub_store hub')"
  by (erule subscription_message_cases) (auto simp: publish_steps)

lemma link_any_steps:
  assumes "link_any cr L S C s s'"
  shows "(journal_step cr L S)\<^sup>*\<^sup>* (hub_store (ln_a s)) (hub_store (ln_a s'))" "(journal_step cr L S)\<^sup>*\<^sup>* (hub_store (ln_b s)) (hub_store (ln_b s'))"
proof -
  have "(journal_step cr L S)\<^sup>*\<^sup>* (hub_store (ln_a s)) (hub_store (ln_a s')) \<and> (journal_step cr L S)\<^sup>*\<^sup>* (hub_store (ln_b s)) (hub_store (ln_b s'))"
    using assms
  proof
    assume "link_step cr L S C s s'"
    then show ?thesis
    proof cases
      case (link_receive m ms now b cn)
      then show ?thesis using subscription_message_steps by auto
    next
      case (link_deliver now a pr)
      then show ?thesis
        using peer_message_steps [of cr L S "ln_a s" C "[]" now "ln_peer s" "Text (json_print (server_json S (cn_out (ln_conn s) ! ln_read s)))"] by simp
    qed simp_all
  next
    assume "link_input cr L S C s s'"
    then show ?thesis by cases (use publish_steps in simp_all)
  qed
  then show "(journal_step cr L S)\<^sup>*\<^sup>* (hub_store (ln_a s)) (hub_store (ln_a s'))" "(journal_step cr L S)\<^sup>*\<^sup>* (hub_store (ln_b s)) (hub_store (ln_b s'))"
    by simp_all
qed

lemma session_steps:
  assumes "(link_any cr L S C)\<^sup>*\<^sup>* s s'"
  shows "(journal_step cr L S)\<^sup>*\<^sup>* (hub_store (ln_a s)) (hub_store (ln_a s')) \<and> (journal_step cr L S)\<^sup>*\<^sup>* (hub_store (ln_b s)) (hub_store (ln_b s'))"
  using assms
proof (induction rule: rtranclp_induct)
  case (step s1 s2)
  then show ?case using link_any_steps [OF step.hyps(2)] by (blast intro: rtranclp_trans)
qed simp

lemma reachable_steps: "relay_reachable cr L S vp st \<Longrightarrow> (journal_step cr L S)\<^sup>*\<^sup>* st st' \<Longrightarrow> relay_reachable cr L S vp st'"
  unfolding relay_reachable_def by (blast intro: rtranclp_trans)

section \<open>The tracker between sessions\<close>

lemma tracker_ok_steps:
  assumes S: "serde_ok S" and vp: "profile_ok vp" and ok: "tracker_ok cr L S vp t a b"
    and a: "(journal_step cr L S)\<^sup>*\<^sup>* (hub_store a) (hub_store a')" and b: "(journal_step cr L S)\<^sup>*\<^sup>* (hub_store b) (hub_store b')"
  shows "tracker_ok cr L S vp t a' b'"
proof -
  have reach: "relay_reachable cr L S vp (hub_store a)" "relay_reachable cr L S vp (hub_store b)"
    using ok by (simp_all add: tracker_ok_def)
  note r' = reachable_steps [OF reach(1) a] reachable_steps [OF reach(2) b]
  obtain es fs where grow: "events_of a' = events_of a @ es" "events_of b' = events_of b @ fs"
    using journal_steps_keep [OF a S] journal_steps_keep [OF b S] reachable_state(1) [OF S vp] reach by metis
  note sa = reachable_state(3) [OF S vp r'(1)]
  have "covers (hub_store a') (e_receipt e)" if "e \<in> set (take (cursor_seq t) (events_of b))" for e
    using ok that covers_extends [OF _ grow(1) sa] by (auto simp: tracker_ok_def)
  then show ?thesis using ok r' grow(2) by (simp add: tracker_ok_def)
qed

lemma task_tracker:
  assumes S: "serde_ok S" and vp: "profile_ok vp" and C: "broadcast_ok C cap chlog pos" and "peer_task cr L S C vp t a b"
  shows "tracker_ok cr L S vp t a b"
  using assms(4)
proof (induction rule: peer_task.induct)
  case (spawned a b)
  then show ?case by (simp add: tracker_ok_def new_tracker_def cursor_seq_def)
next
  case (local_publish t a b io r)
  from tracker_ok_steps [OF S vp local_publish.IH publish_steps rtranclp.rtrancl_refl] show ?case .
next
  case (remote t a b b')
  from tracker_ok_steps [OF S vp remote.IH rtranclp.rtrancl_refl remote.hyps(2)] show ?case .
next
  case (session t s0 s)
  note steps = session_steps [OF session.hyps(3)]
  have ok: "link_ok cr L S chlog pos vp (chlog (hub_changes (ln_a s0))) (store_head (hub_store (ln_a s0)))
      (chlog (hub_changes (ln_b s0))) (store_head (hub_store (ln_b s0))) (cursor_seq t) t s"
    using link_ok_steps [OF S C link_init_ok [OF S vp C] session.hyps(3)] session.IH session.hyps(2) by blast
  have "tracker_ok cr L S vp t (ln_a s) (ln_b s)"
    using tracker_ok_steps [OF S vp session.IH] steps by blast
  moreover have "cursor_seq (disconnected t') = cursor_seq t'" "t_through (disconnected t') = None" for t'
    by (simp_all add: cursor_seq_def disconnected_def)
  ultimately show ?case
    using cursor_ingested [OF ok] cursor_bounded [OF ok] by (simp add: tracker_ok_def)
qed

lemma link_start_init:
  assumes "serde_ok S" "profile_ok vp" "broadcast_ok C cap chlog pos" "link_start cr L S C vp t s"
  shows "link_init cr L S C vp t s"
  using task_tracker [OF assms(1-3)] assms(4) by (auto simp: link_start_def)

end
