(* ===== verification/Relay_Peer_Props.thy ===== *)
theory Relay_Peer_Props
  imports Relay_Reconnect Relay_Delivery
begin

text \<open>
  Properties of the messages between relays and of peer sessions.
\<close>

lemma session_ok:
  assumes "serde_ok S" "profile_validate cr L taproot profile_id p = Inr vp" "hex_string 64 (vp_id vp)"
    "broadcast_ok C (MAX_SESSIONS * 2) chlog pos" "link_start cr L S C vp t s0" "(link_any cr L S C)\<^sup>*\<^sup>* s0 s"
  shows "link_ok cr L S chlog pos vp (chlog (hub_changes (ln_a s0))) (store_head (hub_store (ln_a s0)))
    (chlog (hub_changes (ln_b s0))) (store_head (hub_store (ln_b s0))) (cursor_seq t) t s"
    and "broadcast_ok C 256 chlog pos"
proof -
  note vp = profile_validate_ok [OF assms(2,3)]
  note init = link_start_init [OF assms(1) vp assms(4,5)]
  show "link_ok cr L S chlog pos vp (chlog (hub_changes (ln_a s0))) (store_head (hub_store (ln_a s0)))
    (chlog (hub_changes (ln_b s0))) (store_head (hub_store (ln_b s0))) (cursor_seq t) t s"
    by (rule link_ok_steps [OF assms(1,4) link_init_ok [OF assms(1) vp assms(4) init] assms(6)])
  show "broadcast_ok C 256 chlog pos" using assms(4) by (simp add: MAX_SESSIONS_def)
qed

section \<open>Frames\<close>


section \<open>Peer sessions\<close>


text \<open>
  C31. Gossip terminates: between two inputs of any session of a peer task, while it has no error, two connected relays
  exchange only finitely many messages; receipts do not travel in circles.
\<close>

theorem gossip_terminates:
  assumes "serde_ok S" and "profile_validate cr L taproot profile_id p = Inr vp" and "hex_string 64 (vp_id vp)"
    and "broadcast_ok C (MAX_SESSIONS * 2) chlog pos" and "link_start cr L S C vp t s0" and "(link_any cr L S C)\<^sup>*\<^sup>* s0 s"
  shows "\<not> (\<exists>f. f 0 = s \<and> (\<forall>i. link_step cr L S C (f i) (f (Suc i))))"
proof
  assume "\<exists>f. f 0 = s \<and> (\<forall>i. link_step cr L S C (f i) (f (Suc i)))"
  then obtain f where f: "f 0 = s" "\<And>i. link_step cr L S C (f i) (f (Suc i))" by blast
  from link_terminates [OF assms(1,4), of cr L vp _ _ _ _ _ _ f, OF _ f(2)] session_ok(1) [OF assms(1-6)] f(1) show False by blast
qed

text \<open>
  C32. Two connected relays agree in the end: from every moment of any session of a peer task, while it has no error, they can and do
  come to rest with nothing waiting or in flight, and then they know a conflict for the same bonds and the same
  promise for every other bond.
\<close>

theorem gossip_agrees:
  assumes "serde_ok S" and "profile_validate cr L taproot profile_id p = Inr vp" and "hex_string 64 (vp_id vp)"
    and "broadcast_ok C (MAX_SESSIONS * 2) chlog pos" and "link_start cr L S C vp t s0" and "(link_any cr L S C)\<^sup>*\<^sup>* s0 s"
  shows "(\<exists>s'. (link_step cr L S C)\<^sup>*\<^sup>* s s' \<and> quiet C s')
    \<and> (\<forall>s'. (link_step cr L S C)\<^sup>*\<^sup>* s s' \<and> (\<nexists>s''. link_step cr L S C s' s'') \<longrightarrow> quiet C s')
    \<and> (\<forall>s'. (link_step cr L S C)\<^sup>*\<^sup>* s s' \<and> quiet C s' \<longrightarrow> agree (hub_store (ln_a s')) (hub_store (ln_b s')))"
proof -
  have any: "(link_any cr L S C)\<^sup>*\<^sup>* s0 s'" if "(link_step cr L S C)\<^sup>*\<^sup>* s s'" for s'
    using that assms(6) by (induction rule: rtranclp_induct) (auto intro: rtranclp.rtrancl_into_rtrancl)
  note ok = session_ok [OF assms(1-5) any]
  show ?thesis
    using reaches_quiet [OF assms(1) ok(2,1)] link_progress [OF assms(1) ok(2,1)] quiet_agree [OF ok(2,1)] by blast
qed

section \<open>A concrete session\<close>

text \<open>A relay with two conflicting events connects to one with an empty journal.\<close>

definition sample_link :: "(change list, nat) link" where
  "sample_link = \<lparr>ln_a = \<lparr>hub_store = sample_store 2, hub_changes = []\<rparr>, ln_b = \<lparr>hub_store = sample_store 0, hub_changes = []\<rparr>,
     ln_peer = \<lparr>pr_tracker = new_tracker, pr_profile = sample_validated, pr_changes = 0,
       pr_pending = map e_receipt (st_events (sample_store 2)), pr_last_received = 0\<rparr>,
     ln_conn = \<lparr>cn_changes = 0, cn_todo = [Begin (vp_id sample_validated) (replicate 64 (CHR ''b'')) 0 0, CaughtUp (sample_cursor 0)],
       cn_sent = sample_cursor 0, cn_rate_since = 0, cn_publishes = 0, cn_out = [], cn_open = True\<rparr>,
     ln_up = [], ln_read = 0\<rparr>"

lemma sample_link_start: "link_start sample_crypto sample_lib sample_serde sample_channel sample_validated new_tracker sample_link"
proof -
  have "peer_start sample_channel (ln_a sample_link) 0 new_tracker = Inr (Subscribe (vp_id sample_validated) None, ln_peer sample_link)"
    by (simp add: peer_start_def hub_snapshot_def replay_def sample_link_def sample_store_simps new_tracker_def sample_channel_def)
  moreover have "subscription_start sample_serde sample_channel (ln_b sample_link)
      (Text (json_print (client_json sample_serde (Subscribe (vp_id sample_validated) None)))) = Inr (ln_conn sample_link)"
    unfolding subscription_start_def sample_subscribe
    by (simp add: hub_snapshot_def replay_def sample_link_def sample_store_simps store_head_def sample_channel_def sample_cursor_def)
  moreover have "relay_reachable sample_crypto sample_lib sample_serde sample_validated (sample_store n)" if "n \<le> 2" for n
    by (rule sample_reachable [OF that])
  ultimately show ?thesis
    unfolding link_start_def session_start_def by (auto simp: sample_link_def intro: peer_task.spawned)
qed

lemmas sample_session = sample_serde_ok sample_profile_validate sample_id_hex sample_channel_ok sample_link_start


theorem gossip_terminates_witness:
  "\<not> (\<exists>f. f 0 = sample_link \<and> (\<forall>i. link_step sample_crypto sample_lib sample_serde sample_channel (f i) (f (Suc i))))"
  by (rule gossip_terminates [OF sample_session rtranclp.rtrancl_refl])

theorem gossip_agrees_witness:
  "\<exists>s'. (link_step sample_crypto sample_lib sample_serde sample_channel)\<^sup>*\<^sup>* sample_link s' \<and> quiet sample_channel s'
     \<and> agree (hub_store (ln_a s')) (hub_store (ln_b s'))"
  using gossip_agrees [OF sample_session rtranclp.rtrancl_refl] by blast








end
