(* ===== verification/Relay_Browser.thy ===== *)
theory Relay_Browser
  imports Monitor_Demo Relay_Peer
begin

text \<open>
  The browser client as a subscriber of a relay: the messages of \<^verbatim>\<open>src/relay/server.rs\<close>, printed as
  JSON, are what \<^verbatim>\<open>client/monitor.mjs\<close> accepts, and its subscribe message is what the relay reads.
\<close>

section \<open>The client as a subscriber\<close>

definition json_string :: "json \<Rightarrow> string" where
  "json_string v = (case v of JStr s \<Rightarrow> s | _ \<Rightarrow> [])"

definition browser_cursor :: "relay_cursor \<Rightarrow> cursor" where
  "browser_cursor c = \<lparr>stream = JStr (k_stream c), seq = k_seq c\<rparr>"

definition browser_progress :: "evidence_map \<times> relay \<Rightarrow> progress" where
  "browser_progress er = \<lparr>pg_cursor = map_option (\<lambda>c. \<lparr>k_stream = json_string (stream c), k_seq = seq c\<rparr>) (rcursor (snd er)),
     pg_through = through (snd er), pg_live = caughtUp (snd er)\<rparr>"

definition browser_accept :: "config \<Rightarrow> (receipt \<Rightarrow> bool) \<Rightarrow> serde \<Rightarrow> time \<Rightarrow> evidence_map \<times> relay \<Rightarrow> server_message
    \<Rightarrow> (evidence_map \<times> relay) option" where
  "browser_accept cfg verify S now er m =
     map_option (\<lambda>(ev, r). (ev, settled now r)) (handle cfg verify (fst er) (snd er) (server_json S m))"

definition browser_promise :: "serde \<Rightarrow> operator_receipt \<Rightarrow> string \<times> string" where
  "browser_promise S r = (show_txid S (r_txid r), show_signature (r_signature r))"

definition browser_receipt :: "serde \<Rightarrow> operator_receipt \<Rightarrow> receipt" where
  "browser_receipt S r = client_receipt (show_outpoint S (r_bond r)) (browser_promise S r)"

text \<open>The messages a client with this configuration and verifier can accept.\<close>

definition browser_admits :: "config \<Rightarrow> (receipt \<Rightarrow> bool) \<Rightarrow> serde \<Rightarrow> server_message \<Rightarrow> bool" where
  "browser_admits cfg verify S m \<longleftrightarrow> small_config cfg \<and>
     (case m of
        Begin p s f t \<Rightarrow> hex_string 64 s
      | EventMessage e \<Rightarrow>
          promise_ok cfg verify (show_outpoint S (r_bond (e_receipt e))) (browser_promise S (e_receipt e))
          \<and> (case e_conflict_with e of None \<Rightarrow> True
             | Some d \<Rightarrow> r_bond d = r_bond (e_receipt e) \<and> show_txid S (r_txid d) \<noteq> show_txid S (r_txid (e_receipt e))
                 \<and> promise_ok cfg verify (show_outpoint S (r_bond d)) (browser_promise S d))
      | CaughtUp c \<Rightarrow> hex_string 64 (k_stream c) \<and> k_seq c \<le> max_seq cfg
      | Heartbeat c \<Rightarrow> hex_string 64 (k_stream c) \<and> k_seq c \<le> max_seq cfg
      | Published n st \<Rightarrow> False
      | ErrorMessage r \<Rightarrow> False)"

lemma cursor_string_eq:
  "json_string (stream c) = s \<Longrightarrow> seq c = n \<Longrightarrow> hex_string 64 s \<Longrightarrow> c = \<lparr>stream = JStr s, seq = n\<rparr>"
  by (cases c) (auto simp: json_string_def hex_string_def split: json.splits)

lemma browser_progress_settled: "browser_progress (ev', settled now r) = browser_progress (ev, r)"
  by (simp add: browser_progress_def settled_def)

lemma server_json_event:
  assumes "\<And>d. e_conflict_with e = Some d \<Longrightarrow> r_bond d = r_bond (e_receipt e)"
  shows "server_json S (EventMessage e) = event_message (e_seq e) (show_outpoint S (r_bond (e_receipt e))) (browser_promise S (e_receipt e))
    (map_option (browser_promise S) (e_conflict_with e))"
  using assms
  by (cases "e_conflict_with e") (simp_all add: server_json_def event_json_def event_message_def receipt_json_def browser_promise_def)

lemma handle_progress:
  assumes v: "protocol_step (profile cfg) (max_seq cfg) (browser_progress (ev, r)) m = Some v" and a: "browser_admits cfg verify S m"
  shows "\<exists>ev' r'. handle cfg verify ev r (server_json S m) = Some (ev', r') \<and> browser_progress (ev', r') = v"
proof (cases m)
  case (Begin p s f t)
  have hex: "hex_string 64 s" and small: "small_config cfg" using a Begin by (simp_all add: browser_admits_def)
  have b: "through r = None" "p = profile cfg" "f \<le> t" "t \<le> max_seq cfg"
    "case rcursor r of None \<Rightarrow> f = 0 | Some c \<Rightarrow> \<lparr>k_stream = json_string (stream c), k_seq = seq c\<rparr> = \<lparr>k_stream = s, k_seq = f\<rparr>"
    and v': "v = \<lparr>pg_cursor = Some \<lparr>k_stream = s, k_seq = f\<rparr>, pg_through = Some t, pg_live = False\<rparr>"
    using v Begin by (auto simp: protocol_step_def protocol_begin_def browser_progress_def split: if_splits option.splits)
  have "case rcursor r of None \<Rightarrow> f = 0 | Some c \<Rightarrow> c = \<lparr>stream = JStr s, seq = f\<rparr>"
    using b(5) cursor_string_eq [OF _ _ hex] by (simp split: option.splits)
  from handle_begin [OF small b(1) hex b(3,4) this] b(2) v' Begin show ?thesis
    by (simp add: server_json_def browser_progress_def json_string_def)
next
  case (EventMessage e)
  obtain c th where c: "rcursor r = Some c" "through r = Some th" "e_seq e = Suc (seq c)" "e_seq e \<le> max_seq cfg"
    "caughtUp r \<or> e_seq e \<le> th"
    and v': "v = (browser_progress (ev, r))\<lparr>pg_cursor := Some \<lparr>k_stream = json_string (stream c), k_seq = e_seq e\<rparr>\<rparr>"
    using v EventMessage by (auto simp: protocol_step_def browser_progress_def split: option.splits if_splits)
  let ?b = "show_outpoint S (r_bond (e_receipt e))" and ?oth = "map_option (browser_promise S) (e_conflict_with e)"
  have small: "small_config cfg" and p: "promise_ok cfg verify ?b (browser_promise S (e_receipt e))"
    and d: "\<And>d. e_conflict_with e = Some d \<Longrightarrow> r_bond d = r_bond (e_receipt e)"
      "\<forall>tg'. ?oth = Some tg' \<longrightarrow> promise_ok cfg verify ?b tg' \<and> fst tg' \<noteq> fst (browser_promise S (e_receipt e))"
    using a EventMessage by (auto simp: browser_admits_def browser_promise_def split: option.splits)
  from handle_event [OF small c(1,2) c(3) [symmetric] c(4,5) p d(2), of ev] server_json_event [of e S, OF d(1)] EventMessage c(1,2) v'
  show ?thesis by (simp add: accept_event_split current_def browser_progress_def)
next
  case (CaughtUp c)
  have c: "small_config cfg" "hex_string 64 (k_stream c)" "k_seq c \<le> max_seq cfg"
    using a CaughtUp by (simp_all add: browser_admits_def)
  obtain c' where c': "rcursor r = Some c'" "json_string (stream c') = k_stream c" "seq c' = k_seq c"
    and t: "through r = Some (k_seq c)" "\<not> caughtUp r" and v': "v = (browser_progress (ev, r))\<lparr>pg_live := True\<rparr>"
    using v CaughtUp by (auto simp: protocol_step_def browser_progress_def split: if_splits)
  have "rcursor r = Some \<lparr>stream = JStr (k_stream c), seq = k_seq c\<rparr>"
    using c'(1) cursor_string_eq [OF c'(2,3) c(2)] by simp
  from handle_caught_up [OF c(1) this t c(2,3)] CaughtUp v' show ?thesis
    by (simp add: server_json_def cursor_json_def browser_progress_def)
next
  case (Heartbeat c)
  have c: "small_config cfg" "hex_string 64 (k_stream c)" "k_seq c \<le> max_seq cfg"
    using a Heartbeat by (simp_all add: browser_admits_def)
  obtain c' where c': "rcursor r = Some c'" "json_string (stream c') = k_stream c" "seq c' = k_seq c"
    and t: "caughtUp r" and v': "v = browser_progress (ev, r)"
    using v Heartbeat by (auto simp: protocol_step_def browser_progress_def split: if_splits)
  have "rcursor r = Some \<lparr>stream = JStr (k_stream c), seq = k_seq c\<rparr>"
    using c'(1) cursor_string_eq [OF c'(2,3) c(2)] by simp
  from handle_heartbeat [OF c(1) this t c(2,3)] Heartbeat v' show ?thesis
    by (simp add: server_json_def cursor_json_def browser_progress_def)
qed (use a in \<open>simp_all add: browser_admits_def\<close>)

lemma browser_accepts:
  assumes "protocol_step (profile cfg) (max_seq cfg) (browser_progress er) m = Some v" and "browser_admits cfg verify S m"
  shows "\<exists>er'. browser_accept cfg verify S now er m = Some er' \<and> browser_progress er' = v"
proof -
  have "protocol_step (profile cfg) (max_seq cfg) (browser_progress (fst er, snd er)) m = Some v" using assms(1) by simp
  from handle_progress [OF this assms(2)] obtain ev r where
    "handle cfg verify (fst er) (snd er) (server_json S m) = Some (ev, r)" "browser_progress (ev, r) = v" by blast
  then show ?thesis
    by (intro exI [of _ "(ev, settled now r)"]) (simp add: browser_accept_def browser_progress_settled [of ev now r ev])
qed

interpretation brw: subscriber "browser_accept cfg verify S now" browser_progress "browser_admits cfg verify S" "profile cfg" "max_seq cfg"
  by unfold_locales (rule browser_accepts)

section \<open>Sessions\<close>

lemma feed_browser: "feed (browser_accept cfg verify S now) (ev, r) ms = handle_all cfg verify now ev r (map (server_json S) ms)"
  by (induction ms arbitrary: ev r) (simp_all add: browser_accept_def split: option.split)

lemma handle_all_keeps:
  assumes "handle_all cfg verify now ev r vs = Some (ev', r')"
  shows "rsocket r' = rsocket r" "pending r' = pending r"
    "vs \<noteq> [] \<Longrightarrow> lastMessage r' = Some now \<and> (caughtUp r' \<longrightarrow> rerror r' = None)"
proof -
  have "rsocket r' = rsocket r \<and> pending r' = pending r \<and> (vs \<noteq> [] \<longrightarrow> lastMessage r' = Some now \<and> (caughtUp r' \<longrightarrow> rerror r' = None))"
    using assms
  proof (induction vs arbitrary: ev r)
    case (Cons v vs)
    obtain ev1 r1 where h: "handle cfg verify ev r v = Some (ev1, r1)"
      "handle_all cfg verify now ev1 (settled now r1) vs = Some (ev', r')"
      using Cons.prems by (auto split: option.splits)
    from Cons.IH [OF h(2)] handle_keeps [OF h(1)] h(2) show ?case by (cases vs) (auto simp: settled_def)
  qed simp
  then show "rsocket r' = rsocket r" "pending r' = pending r"
    "vs \<noteq> [] \<Longrightarrow> lastMessage r' = Some now \<and> (caughtUp r' \<longrightarrow> rerror r' = None)" by simp_all
qed

text \<open>Every cursor of a conversation lies on one stream and within the bound.\<close>

definition cursor_within :: "nat \<Rightarrow> progress \<Rightarrow> bool" where
  "cursor_within N v \<longleftrightarrow> (pg_live v \<or> pg_through v \<noteq> None \<longrightarrow> (\<exists>c. pg_cursor v = Some c \<and> k_seq c \<le> N))"

definition message_within :: "nat \<Rightarrow> string \<Rightarrow> server_message \<Rightarrow> bool" where
  "message_within N s m = (case m of Begin p s' f t \<Rightarrow> s' = s | CaughtUp c \<Rightarrow> k_stream c = s \<and> k_seq c \<le> N
     | Heartbeat c \<Rightarrow> k_stream c = s \<and> k_seq c \<le> N | ErrorMessage r \<Rightarrow> False | _ \<Rightarrow> True)"

lemma step_within:
  assumes "protocol_step P N v m = Some v'" "cursor_within N v"
  shows step_within_cursor: "cursor_within N v'"
    and step_within_stream: "pg_cursor v = Some c \<Longrightarrow> \<exists>c'. pg_cursor v' = Some c' \<and> k_stream c' = k_stream c"
    and step_within_message: "(case pg_cursor v' of None \<Rightarrow> True | Some c' \<Rightarrow> k_stream c' = s) \<Longrightarrow> message_within N s m"
  using assms
  by (cases m; simp add: protocol_step_def protocol_begin_def cursor_within_def message_within_def split: option.splits if_splits; fastforce)+

lemma feed_within:
  assumes "feed (protocol_step P N) v ms = Some v'" "cursor_within N v" "pg_cursor v' = Some c"
  shows "list_all (message_within N (k_stream c)) ms"
proof -
  have keep: "case pg_cursor v of None \<Rightarrow> True | Some c0 \<Rightarrow> k_stream c0 = k_stream c"
    if "feed (protocol_step P N) v ms = Some v'" "cursor_within N v" for v ms
    using that
  proof (induction ms arbitrary: v)
    case (Cons m ms)
    then obtain v1 where v1: "protocol_step P N v m = Some v1" "feed (protocol_step P N) v1 ms = Some v'"
      by (auto simp: bind_eq_Some_conv)
    from Cons.IH [OF v1(2) step_within_cursor [OF v1(1) Cons.prems(2)]] step_within_stream [OF v1(1) Cons.prems(2)]
    show ?case by (cases "pg_cursor v") auto
  qed (simp add: assms(3))
  from assms(1,2) show ?thesis
  proof (induction ms arbitrary: v)
    case (Cons m ms)
    then obtain v1 where v1: "protocol_step P N v m = Some v1" "feed (protocol_step P N) v1 ms = Some v'"
      by (auto simp: bind_eq_Some_conv)
    note w = step_within_cursor [OF v1(1) Cons.prems(2)]
    from step_within_message [OF v1(1) Cons.prems(2) keep [OF v1(2) w]] Cons.IH [OF v1(2) w] show ?case by simp
  qed simp
qed

text \<open>
  A client of this relay: it pins the relay's profile and bonds, and its verifier, the wallet's, accepts
  what the relay's profile verifies.
\<close>

definition browser_configured :: "crypto \<Rightarrow> elements_lib \<Rightarrow> serde \<Rightarrow> validated_profile \<Rightarrow> config \<Rightarrow> (receipt \<Rightarrow> bool) \<Rightarrow> bool" where
  "browser_configured cr L S vp cfg verify \<longleftrightarrow> profile cfg = vp_id vp \<and> bonds cfg = map (\<lambda>(b, _). show_outpoint S b) (vp_bonds vp)
     \<and> 0 < staleMs cfg \<and> (\<forall>r. profile_verify cr L vp r = Inr () \<longrightarrow> verify (browser_receipt S r))"

lemma configured_bounds:
  assumes "browser_configured cr L S vp cfg verify" "profile_ok vp"
  shows "small_config cfg" "max_seq cfg = max_events vp" "profile cfg = vp_id vp"
  using assms by (simp_all add: browser_configured_def small_config_def max_seq_def max_events_def profile_ok_def MAX_SESSIONS_def)

lemma promise_verified:
  assumes "serde_ok S" "browser_configured cr L S vp cfg verify" "profile_verify cr L vp r = Inr ()"
  shows "promise_ok cfg verify (show_outpoint S (r_bond r)) (browser_promise S r)"
proof -
  have "show_outpoint S (r_bond r) \<in> set (bonds cfg)"
    using profile_verify_bond [OF assms(3)] assms(2) by (auto simp: browser_configured_def)
  with assms show ?thesis
    by (simp add: promise_ok_def wire_receipt_ok_def browser_promise_def browser_configured_def browser_receipt_def serde_ok_def
        show_signature_hex)
qed

lemma browser_admits_all:
  assumes S: "serde_ok S" and vp: "profile_ok vp" and cfg: "browser_configured cr L S vp cfg verify"
    and "list_all (message_sound (profile_verify cr L vp)) ms" and "list_all (message_within (max_events vp) s) ms"
    and hex: "hex_string 64 s" and "\<nexists>n st. Published n st \<in> set ms"
  shows "list_all (browser_admits cfg verify S) ms"
proof -
  have inj: "show_txid S a = show_txid S b \<longleftrightarrow> a = b" for a b using S by (simp add: serde_ok_def inj_eq)
  have "browser_admits cfg verify S m" if "m \<in> set ms" for m
  proof -
    have m: "message_sound (profile_verify cr L vp) m" "message_within (max_events vp) s m" "\<nexists>n st. m = Published n st"
      using assms that by (auto simp: list_all_iff)
    note b = configured_bounds [OF cfg vp]
    have p: "promise_ok cfg verify (show_outpoint S b) (browser_promise S r)"
      if "profile_verify cr L vp r = Inr ()" "r_bond r = b" for r b
      using promise_verified [OF S cfg that(1)] that(2) by simp
    show ?thesis
      using m b hex
      by (cases m) (auto simp: browser_admits_def message_sound_def event_sound_def message_within_def inj p split: option.splits)
  qed
  then show ?thesis by (simp add: list_all_iff)
qed

lemma subscribe_message_json:
  "rcursor r = map_option browser_cursor cur \<Longrightarrow> subscribe_message cfg r = client_json S (Subscribe (profile cfg) cur)"
  by (cases cur) (simp_all add: subscribe_message_def client_json_def wire_subscribe_def json_cursor_def wire_option_def
      cursor_json_def wire_cursor_def browser_cursor_def)

lemma browser_subscribed:
  assumes S: "serde_ok S" and reach: "relay_reachable cr L S vp (hub_store hub)" and cur: "rcursor r = map_option browser_cursor cur"
    and small: "case cur of None \<Rightarrow> True | Some c \<Rightarrow> k_seq c \<le> 9007199254740991"
    and start: "subscription_start S C hub (Text (json_print (subscribe_message cfg r))) = Inr cn"
  shows "subscribed cr L S C vp cur hub cn"
proof -
  let ?t = "json_print (client_json S (Subscribe (profile cfg) cur))"
  have "read_client S ?t = Some (Subscribe (profile cfg) cur)"
    using S small by (simp add: serde_ok_def small_client_def split: option.splits)
  moreover have st: "subscription_start S C hub (Text ?t) = Inr cn" using start by (simp add: subscribe_message_json [OF cur, of cfg S])
  moreover obtain p c where "parse_client S (Text ?t) = Inr (Some (Subscribe p c))" by (rule subscription_startE [OF st])
  ultimately have "parse_client S (Text ?t) = Inr (Some (Subscribe (profile cfg) cur))"
    by (simp add: parse_client_def split: if_splits)
  with reach st show ?thesis unfolding subscribed_def by blast
qed

text \<open>All that a relay sent on an open connection, delivered in order, is accepted and leaves the client synchronized.\<close>

lemma browser_session:
  assumes S: "serde_ok S" and vp: "profile_ok vp" and C: "broadcast_ok C cap chlog pos" and sub: "subscribed cr L S C vp cur hub cn"
    and cfg: "browser_configured cr L S vp cfg verify" and hex: "hex_string 64 (st_stream (hub_store hub'))"
    and r: "rcursor r = map_option browser_cursor cur" "through r = None" "\<not> caughtUp r"
    and steps: "(server_step cr L S C)\<^sup>*\<^sup>* (hub, cn) (hub', cn')" and open': "cn_open cn'" "cn_todo cn' = []"
    and pub: "\<nexists>n st. Published n st \<in> set (cn_out cn')"
  shows "\<exists>ev' r'. handle_all cfg verify now ev r (map (server_json S) (cn_out cn')) = Some (ev', r')
    \<and> rcursor r' = Some (browser_cursor (cn_sent cn')) \<and> caughtUp r' \<and> cn_out cn' \<noteq> []"
proof -
  let ?v = "browser_progress (ev, r)" and ?base = "chlog (hub_changes hub)" and ?h = "store_head (hub_store hub)"
  have cur: "pg_cursor ?v = cur" "pg_through ?v = None" "\<not> pg_live ?v"
    using r by (cases cur; simp add: browser_progress_def browser_cursor_def json_string_def)+
  have "server_ok cr L chlog pos ?base ?h (case pg_cursor ?v of None \<Rightarrow> 0 | Some c \<Rightarrow> k_seq c) ?v vp hub' cn'"
    by (rule subscribed_ok [OF S vp C _ cur(2) steps]) (use sub cur(1) in simp)
  then have ok: "conn_ok cr L chlog pos ?base ?h (case pg_cursor ?v of None \<Rightarrow> 0 | Some c \<Rightarrow> k_seq c) ?v vp hub' cn'"
    and hub: "hub_log cr L chlog ?base ?h hub'" "st_profile (hub_store hub') = vp"
    using open' by (simp_all add: server_ok_def)
  note b = configured_bounds [OF cfg vp]
  have f: "feed (protocol_step (vp_id vp) (max_events vp)) ?v (cn_out cn') =
      Some \<lparr>pg_cursor = Some (cn_sent cn'), pg_through = Some ?h, pg_live = True\<rparr>"
    and s: "k_stream (cn_sent cn') = st_stream (hub_store hub')"
    using ok open' by (simp_all add: conn_ok_def Let_def)
  have "list_all (message_within (max_events vp) (k_stream (cn_sent cn'))) (cn_out cn')"
    by (rule feed_within [OF f]) (use cur in \<open>simp_all add: cursor_within_def\<close>)
  from browser_admits_all [OF S vp cfg conn_sound [OF hub ok] this _ pub] hex s
  have adm: "list_all (browser_admits cfg verify S) (cn_out cn')" by simp
  obtain er' where er: "feed (browser_accept cfg verify S now) (ev, r) (cn_out cn') = Some er'"
    "browser_progress er' = \<lparr>pg_cursor = Some (cn_sent cn'), pg_through = Some ?h, pg_live = True\<rparr>"
    using brw.feed_accepts [OF f [folded b(2,3)] adm] by blast
  obtain ev' r' where e: "er' = (ev', r')" by (cases er')
  obtain c where c: "rcursor r' = Some c" "\<lparr>k_stream = json_string (stream c), k_seq = seq c\<rparr> = cn_sent cn'" "caughtUp r'"
    using er(2) e by (auto simp: browser_progress_def)
  have "json_string (stream c) = k_stream (cn_sent cn')" "seq c = k_seq (cn_sent cn')"
    unfolding c(2) [symmetric] by simp_all
  then have "c = browser_cursor (cn_sent cn')" using cursor_string_eq [of c] hex s by (simp add: browser_cursor_def)
  moreover have "cn_out cn' \<noteq> []" using f cur by auto
  ultimately show ?thesis using er(1) e c by (simp add: feed_browser)
qed

section \<open>A concrete client\<close>

text \<open>A monitor of two relays whose sockets are open, configured for the sample profile.\<close>

definition sample_browser_config :: config where
  "sample_browser_config = demo_cfg\<lparr>bonds := [show_outpoint sample_serde sample_outpoint]\<rparr>"

definition sample_browser :: monitor where
  "sample_browser = \<lparr>running = True, timer = True, relays = [demo_opened ''r1'', demo_opened ''r2''], evidence = []\<rparr>"

lemma sample_browser_configured:
  "browser_configured sample_crypto sample_lib sample_serde sample_validated sample_browser_config demo_verify"
  by (simp add: browser_configured_def sample_browser_config_def sample_validated_def demo_cfg_def demo_hash_def
      demo_verify_def browser_receipt_def client_receipt_def)

lemma sample_browser_start:
  "subscription_start sample_serde sample_channel (sample_hub 1)
     (Text (json_print (subscribe_message sample_browser_config (relays sample_browser ! 0)))) = Inr (sample_connection 0)"
proof -
  have "rcursor (relays sample_browser ! 0) = map_option browser_cursor None" "profile sample_browser_config = vp_id sample_validated"
    by (simp_all add: sample_browser_def demo_opened_def new_relay_def sample_browser_config_def demo_cfg_def demo_hash_def sample_validated_def)
  with subscribe_message_json [OF this(1), of sample_browser_config sample_serde] show ?thesis using sample_start by simp
qed

end
