(* ===== verification/Withdrawal.thy ===== *)
theory Withdrawal
  imports Simplicity_Env
begin

text \<open>
  The withdrawal accumulator of the node, \<^verbatim>\<open>src/src/validation.cpp\<close> (namespace \<open>usdd\<close>) with
  \<^verbatim>\<open>src/src/usdd_withdrawal_accumulator.h\<close>: an append-only sparse Merkle tree of depth 64 over the burns of
  all blocks, its persisted state, the claims of a block, the BIP301 checkpoint and inclusion proofs.
  A 32-byte array and a \<open>uint256\<close> are the word read from their bytes in memory order. A function that returns
  false with an error text is \<open>Inl\<close>; its out-parameters are then not read by any caller.
\<close>

unbundle bit_operations_syntax

section \<open>Constants\<close>

definition WITHDRAWAL_ACCUMULATOR_VERSION :: byte where
  "WITHDRAWAL_ACCUMULATOR_VERSION = 1"

definition WITHDRAWAL_BIP301_CHECKPOINT_VERSION :: "32 word" where
  "WITHDRAWAL_BIP301_CHECKPOINT_VERSION = 1"

definition WITHDRAWAL_BIP301_CHECKPOINT_DOMAIN :: string where
  "WITHDRAWAL_BIP301_CHECKPOINT_DOMAIN = ''Elements/USDD/BIP301-checkpoint/v1''"

definition WITHDRAWAL_MAGIC :: string where
  "WITHDRAWAL_MAGIC = ''USDD''"

definition WITHDRAWAL_SCRIPT_PUSH_SIZE :: nat where
  "WITHDRAWAL_SCRIPT_PUSH_SIZE = 65"

definition WITHDRAWAL_PROTOCOL_VERSION :: "32 word" where
  "WITHDRAWAL_PROTOCOL_VERSION = 1"

definition WITHDRAWAL_LEAF_PREFIX :: byte where
  "WITHDRAWAL_LEAF_PREFIX = 0"

definition WITHDRAWAL_NODE_PREFIX :: byte where
  "WITHDRAWAL_NODE_PREFIX = 1"

definition WITHDRAWAL_ACCUMULATOR_DEPTH :: nat where
  "WITHDRAWAL_ACCUMULATOR_DEPTH = 64"

definition USDD_UNITS_PER_USDT_MICRO :: "64 word" where
  "USDD_UNITS_PER_USDT_MICRO = 100"

definition MAX_WITHDRAWAL_USDT_MICRO :: "64 word" where
  "MAX_WITHDRAWAL_USDT_MICRO = 20000000 * 1000000"

definition WITHDRAWAL_BURN_ID_DOMAIN :: "byte list" where
  "WITHDRAWAL_BURN_ID_DOMAIN =
     [0x58, 0x11, 0xf3, 0xff, 0x8b, 0x8f, 0x31, 0xfb, 0x49, 0xff, 0xb9, 0x1a, 0xfa, 0xb1, 0x31, 0x97,
      0xc3, 0xd7, 0x2e, 0x92, 0x65, 0x49, 0xae, 0x29, 0xdb, 0xda, 0x46, 0xc6, 0x99, 0x8a, 0x3e, 0x45]"

definition WITHDRAWAL_LEAF_DOMAIN :: "byte list" where
  "WITHDRAWAL_LEAF_DOMAIN =
     [0xa2, 0x04, 0x23, 0x80, 0x92, 0x68, 0x79, 0x09, 0x8c, 0x0f, 0x42, 0x3f, 0x49, 0xe3, 0xa0, 0x7a,
      0x12, 0x48, 0xed, 0x08, 0x53, 0x57, 0x93, 0xa4, 0xa1, 0xc4, 0xaf, 0xe6, 0x2d, 0x99, 0x88, 0x69]"

definition WITHDRAWAL_SCRIPT_SIZE :: nat where
  "WITHDRAWAL_SCRIPT_SIZE = 2 + WITHDRAWAL_SCRIPT_PUSH_SIZE"

definition text_bytes :: "string \<Rightarrow> byte list" where
  "text_bytes s = map (\<lambda>c. word_of_nat (of_char c)) s"

section \<open>Nodes\<close>

definition DisplayBytes :: "u256 \<Rightarrow> u256" where
  "DisplayBytes v = of_be_bytes (rev (bytes32 v))"

definition WithdrawalNode :: "crypto \<Rightarrow> u256 \<Rightarrow> u256 \<Rightarrow> u256" where
  "WithdrawalNode cr l r = sha256 cr (WITHDRAWAL_NODE_PREFIX # bytes32 l @ bytes32 r)"

fun WithdrawalEmptyRoot :: "crypto \<Rightarrow> nat \<Rightarrow> u256" where
  "WithdrawalEmptyRoot cr 0 = sha256 cr [WITHDRAWAL_LEAF_PREFIX]"
| "WithdrawalEmptyRoot cr (Suc h) = (let e = WithdrawalEmptyRoot cr h in WithdrawalNode cr e e)"

section \<open>Accumulator\<close>

record accumulator =
  acc_count :: "64 word"
  acc_root :: u256
  acc_frontier :: "u256 list"

text \<open>The value of \<open>node\<close> after \<open>n\<close> levels of the loop.\<close>

fun compute_root :: "crypto \<Rightarrow> 64 word \<Rightarrow> u256 list \<Rightarrow> nat \<Rightarrow> u256" where
  "compute_root cr n frontier 0 = WithdrawalEmptyRoot cr 0"
| "compute_root cr n frontier (Suc level) =
     (let node = compute_root cr n frontier level in
      if drop_bit level n AND 1 \<noteq> 0 then WithdrawalNode cr (frontier ! level) node
      else WithdrawalNode cr node (WithdrawalEmptyRoot cr level))"

definition ComputeWithdrawalAccumulatorRoot :: "crypto \<Rightarrow> accumulator \<Rightarrow> u256" where
  "ComputeWithdrawalAccumulatorRoot cr st =
     compute_root cr (acc_count st) (acc_frontier st) WITHDRAWAL_ACCUMULATOR_DEPTH"

definition Empty_accumulator :: "crypto \<Rightarrow> accumulator" where
  "Empty_accumulator cr = \<lparr>acc_count = 0, acc_root = WithdrawalEmptyRoot cr WITHDRAWAL_ACCUMULATOR_DEPTH,
     acc_frontier = replicate WITHDRAWAL_ACCUMULATOR_DEPTH 0\<rparr>"

definition IsSane :: "crypto \<Rightarrow> accumulator \<Rightarrow> bool" where
  "IsSane cr st \<longleftrightarrow>
     list_all (\<lambda>level. \<not> (drop_bit level (acc_count st) AND 1 = 0 \<and> acc_frontier st ! level \<noteq> 0))
       [0..<WITHDRAWAL_ACCUMULATOR_DEPTH]
     \<and> acc_root st = ComputeWithdrawalAccumulatorRoot cr st"

text \<open>The loop of \<open>Append\<close> and the assignment after it.\<close>

lemma unat_half: "unat (drop_bit (Suc 0) (w :: 64 word)) = unat w div 2"
  unfolding unsigned_drop_bit_eq using unsigned_less [of w, where ?'a = nat] by (simp add: drop_bit_eq_div take_bit_eq_mod)

lemma drop_odd_less: "(w :: 64 word) AND 1 \<noteq> 0 \<Longrightarrow> unat (drop_bit (Suc 0) w) < unat w"
proof -
  assume "w AND 1 \<noteq> 0"
  then have "0 < unat w" by (cases "w = 0") (simp_all add: unat_gt_0)
  then show ?thesis by (simp add: unat_half)
qed

function carry :: "crypto \<Rightarrow> u256 list \<Rightarrow> 64 word \<Rightarrow> u256 \<Rightarrow> nat \<Rightarrow> u256 list" where
  "carry cr frontier occupied node level =
     (if occupied AND 1 \<noteq> 0
      then carry cr (frontier[level := 0]) (drop_bit 1 occupied) (WithdrawalNode cr (frontier ! level) node) (Suc level)
      else frontier[level := node])"
  by auto
termination
  by (relation "measure (\<lambda>(cr, frontier, occupied, node, level). unat occupied)") (simp_all add: drop_odd_less)

declare carry.simps [simp del]

definition Append :: "crypto \<Rightarrow> accumulator \<Rightarrow> u256 \<Rightarrow> accumulator res" where
  "Append cr st leaf =
     guard (\<not> acc_count st = - 1) ''USDD withdrawal accumulator count overflow''
       (let st' = st\<lparr>acc_frontier := carry cr (acc_frontier st) (acc_count st) leaf 0, acc_count := acc_count st + 1\<rparr> in
        Inr (st'\<lparr>acc_root := ComputeWithdrawalAccumulatorRoot cr st'\<rparr>))"

section \<open>Claims\<close>

record EthereumWithdrawalClaim =
  elements_genesis :: u256
  asset_id :: u256
  vault_id :: u256
  burn_txid_display :: u256
  burn_vout :: "32 word"
  burn_id :: u256
  claim_index :: "64 word"
  amount_usdt_micro :: "64 word"
  recipient :: "160 word"
  claim_leaf :: u256

definition ComputeWithdrawalBurnId :: "crypto \<Rightarrow> u256 \<Rightarrow> u256 \<Rightarrow> 32 word \<Rightarrow> u256" where
  "ComputeWithdrawalBurnId cr genesis txid_display i =
     sha256 cr (WITHDRAWAL_BURN_ID_DOMAIN @ bytes32 genesis @ bytes32 txid_display @ be_bytes 4 i)"

definition leaf_message :: "EthereumWithdrawalClaim \<Rightarrow> byte list" where
  "leaf_message c =
     WITHDRAWAL_LEAF_PREFIX # WITHDRAWAL_LEAF_DOMAIN @ be_bytes 4 WITHDRAWAL_PROTOCOL_VERSION
       @ bytes32 (elements_genesis c) @ bytes32 (asset_id c) @ bytes32 (vault_id c) @ bytes32 (burn_id c)
       @ be_bytes 8 (claim_index c) @ be_bytes 8 (amount_usdt_micro c) @ be_bytes 20 (recipient c)"

definition ComputeWithdrawalLeaf :: "crypto \<Rightarrow> EthereumWithdrawalClaim \<Rightarrow> u256" where
  "ComputeWithdrawalLeaf cr c = sha256 cr (leaf_message c)"

text \<open>
  Outputs with their nonce, transactions with their cached hash (a null reference is \<open>None\<close>), and blocks.
  The 32-bit output index of the loop does not wrap, since the outputs of a block fit in its size limit.
\<close>

record burn_output = CTxOut +
  nNonce :: "byte list"

record block_tx =
  bt_hash :: u256
  bt_vout :: "burn_output list"

record block =
  block_vtx :: "block_tx option list"
  block_hash :: u256

text \<open>\<open>IsExplicit\<close>, \<open>GetAsset\<close> and \<open>GetAmount\<close> of confidential assets and values.\<close>

definition asset_IsExplicit :: "byte list \<Rightarrow> bool" where
  "asset_IsExplicit v \<longleftrightarrow> length v = 33 \<and> v ! 0 = 1"

definition value_IsExplicit :: "byte list \<Rightarrow> bool" where
  "value_IsExplicit v \<longleftrightarrow> length v = 9 \<and> v ! 0 = 1"

definition GetAsset :: "byte list \<Rightarrow> u256" where
  "GetAsset v = of_be_bytes (take 32 (drop 1 v))"

definition GetAmount :: "byte list \<Rightarrow> 64 word" where
  "GetAmount v = of_be_bytes (take 8 (drop 1 v))"

definition OP_RETURN :: byte where
  "OP_RETURN = 0x6a"

definition ReadU64BE :: "byte list \<Rightarrow> 64 word" where
  "ReadU64BE bs = of_be_bytes (take 8 bs)"

text \<open>
  One output of the loop: \<open>Inr None\<close> is a \<open>continue\<close>. The conditions are tested in the order of the code; an
  index out of range is only read after the size was tested.
\<close>

definition extract_output :: "crypto \<Rightarrow> u256 \<Rightarrow> 64 word \<Rightarrow> nat \<Rightarrow> u256 \<Rightarrow> 32 word \<Rightarrow> burn_output
    \<Rightarrow> EthereumWithdrawalClaim option res" where
  "extract_output cr genesis_display first_index k txid_display i out =
     (let script = scriptPubKey out; value = GetAmount (nValue out); amount = ReadU64BE (drop 59 script) in
      if length script \<noteq> WITHDRAWAL_SCRIPT_SIZE \<or> script ! 0 \<noteq> OP_RETURN
         \<or> script ! 1 \<noteq> word_of_nat WITHDRAWAL_SCRIPT_PUSH_SIZE
         \<or> take 4 (drop 2 script) \<noteq> text_bytes WITHDRAWAL_MAGIC
         \<or> (ucast (script ! 6) :: 32 word) \<noteq> WITHDRAWAL_PROTOCOL_VERSION then Inr None
      else if \<not> asset_IsExplicit (nAsset out) \<or> \<not> value_IsExplicit (nValue out) \<or> nNonce out \<noteq> [] then Inr None
      else if GetAsset (nAsset out) = 0 then Inr None
      else if sint value \<le> 0 then Inr None
      else if amount = 0 \<or> amount > MAX_WITHDRAWAL_USDT_MICRO \<or> amount > (- 1) div USDD_UNITS_PER_USDT_MICRO
         \<or> amount * USDD_UNITS_PER_USDT_MICRO \<noteq> value then Inr None
      else if k > unat (- 1 - first_index) then Inl ''USDD withdrawal claim index overflow''
      else if (of_be_bytes (take 32 (drop 7 script)) :: u256) = 0 then Inr None
      else if (of_be_bytes (take 20 (drop 39 script)) :: 160 word) = 0 then Inr None
      else (let c = \<lparr>elements_genesis = genesis_display, asset_id = DisplayBytes (GetAsset (nAsset out)),
               vault_id = of_be_bytes (take 32 (drop 7 script)), burn_txid_display = txid_display, burn_vout = i,
               burn_id = ComputeWithdrawalBurnId cr genesis_display txid_display i,
               claim_index = first_index + word_of_nat k, amount_usdt_micro = amount,
               recipient = of_be_bytes (take 20 (drop 39 script)), claim_leaf = 0\<rparr> in
            Inr (Some (c\<lparr>claim_leaf := ComputeWithdrawalLeaf cr c\<rparr>))))"

fun extract_outputs :: "crypto \<Rightarrow> u256 \<Rightarrow> 64 word \<Rightarrow> u256 \<Rightarrow> 32 word \<Rightarrow> burn_output list
    \<Rightarrow> EthereumWithdrawalClaim list \<Rightarrow> EthereumWithdrawalClaim list res" where
  "extract_outputs cr g first_index txid i [] claims = Inr claims"
| "extract_outputs cr g first_index txid i (out # outs) claims =
     bind_res (extract_output cr g first_index (length claims) txid i out) (\<lambda>c.
       extract_outputs cr g first_index txid (i + 1) outs (case c of None \<Rightarrow> claims | Some c \<Rightarrow> claims @ [c]))"

fun extract_txs :: "crypto \<Rightarrow> u256 \<Rightarrow> 64 word \<Rightarrow> block_tx option list \<Rightarrow> EthereumWithdrawalClaim list
    \<Rightarrow> EthereumWithdrawalClaim list res" where
  "extract_txs cr g first_index [] claims = Inr claims"
| "extract_txs cr g first_index (None # txs) claims = Inl ''null transaction in Elements block''"
| "extract_txs cr g first_index (Some tx # txs) claims =
     bind_res (extract_outputs cr g first_index (DisplayBytes (bt_hash tx)) 0 (bt_vout tx) claims)
       (extract_txs cr g first_index txs)"

definition ExtractEthereumWithdrawals :: "crypto \<Rightarrow> block \<Rightarrow> u256 \<Rightarrow> 64 word \<Rightarrow> EthereumWithdrawalClaim list res" where
  "ExtractEthereumWithdrawals cr blk genesis first_index =
     guard (\<not> genesis = 0) ''zero Elements genesis in withdrawal accumulator''
       (extract_txs cr (DisplayBytes genesis) first_index (block_vtx blk) [])"

section \<open>Blocks and checkpoints\<close>

fun append_all :: "crypto \<Rightarrow> accumulator \<Rightarrow> u256 list \<Rightarrow> accumulator res" where
  "append_all cr st [] = Inr st"
| "append_all cr st (l # ls) = bind_res (Append cr st l) (\<lambda>st'. append_all cr st' ls)"

definition ApplyEthereumWithdrawals :: "crypto \<Rightarrow> block \<Rightarrow> u256 \<Rightarrow> accumulator
    \<Rightarrow> (accumulator \<times> EthereumWithdrawalClaim list) res" where
  "ApplyEthereumWithdrawals cr blk genesis previous =
     guard (IsSane cr previous) ''malformed prior USDD withdrawal accumulator state''
       (bind_res (ExtractEthereumWithdrawals cr blk genesis (acc_count previous)) (\<lambda>extracted.
          bind_res (append_all cr previous (map claim_leaf extracted)) (\<lambda>st. Inr (st, extracted))))"

definition checkpoint_message :: "u256 \<Rightarrow> byte \<Rightarrow> u256 \<Rightarrow> accumulator \<Rightarrow> accumulator \<Rightarrow> byte list" where
  "checkpoint_message genesis slot hash previous st =
     text_bytes WITHDRAWAL_BIP301_CHECKPOINT_DOMAIN @ be_bytes 4 WITHDRAWAL_BIP301_CHECKPOINT_VERSION
       @ bytes32 (DisplayBytes genesis) @ [slot] @ bytes32 (DisplayBytes hash)
       @ be_bytes 8 (acc_count previous) @ bytes32 (acc_root previous)
       @ be_bytes 8 (acc_count st) @ bytes32 (acc_root st)"

definition ComputeWithdrawalBip301CriticalHash :: "crypto \<Rightarrow> u256 \<Rightarrow> byte \<Rightarrow> u256 \<Rightarrow> accumulator \<Rightarrow> accumulator \<Rightarrow> u256 res" where
  "ComputeWithdrawalBip301CriticalHash cr genesis slot hash previous st =
     guard (\<not> (genesis = 0 \<or> hash = 0)) ''USDD BIP301 checkpoint has a null network or block hash''
     (let count_unchanged = (acc_count st = acc_count previous); root_unchanged = (acc_root st = acc_root previous) in
      guard (\<not> (\<not> IsSane cr previous \<or> \<not> IsSane cr st \<or> acc_count st < acc_count previous
          \<or> count_unchanged \<noteq> root_unchanged)) ''USDD BIP301 checkpoint has a malformed accumulator transition''
      (let critical_hash = DisplayBytes (sha256 cr (checkpoint_message genesis slot hash previous st)) in
       guard (\<not> critical_hash = 0) ''USDD BIP301 checkpoint unexpectedly produced a null hash'' (Inr critical_hash)))"

definition DeriveWithdrawalBip301CriticalHash :: "crypto \<Rightarrow> block \<Rightarrow> u256 \<Rightarrow> byte \<Rightarrow> accumulator \<Rightarrow> (accumulator \<times> u256) res" where
  "DeriveWithdrawalBip301CriticalHash cr blk genesis slot previous =
     bind_res (ApplyEthereumWithdrawals cr blk genesis previous) (\<lambda>(st, _).
       bind_res (ComputeWithdrawalBip301CriticalHash cr genesis slot (block_hash blk) previous st) (\<lambda>h. Inr (st, h)))"

section \<open>Inclusion proofs\<close>

fun next_layer :: "crypto \<Rightarrow> nat \<Rightarrow> u256 list \<Rightarrow> u256 list" where
  "next_layer cr level [] = []"
| "next_layer cr level [x] = [WithdrawalNode cr x (WithdrawalEmptyRoot cr level)]"
| "next_layer cr level (x # y # zs) = WithdrawalNode cr x y # next_layer cr level zs"

text \<open>The loop over \<open>n\<close> levels from \<open>level\<close>: the siblings and the last layer.\<close>

fun sibling_loop :: "crypto \<Rightarrow> nat \<Rightarrow> nat \<Rightarrow> u256 list \<Rightarrow> nat \<Rightarrow> u256 list \<times> u256 list" where
  "sibling_loop cr level 0 layer position = ([], layer)"
| "sibling_loop cr level (Suc n) layer position =
     (let sibling = position XOR 1;
          s = (if sibling < length layer then layer ! sibling else WithdrawalEmptyRoot cr level);
          (ss, top) = sibling_loop cr (Suc level) n (next_layer cr level layer) (drop_bit 1 position)
      in (s # ss, top))"

fun verify_path :: "crypto \<Rightarrow> u256 \<Rightarrow> 64 word \<Rightarrow> u256 list \<Rightarrow> u256" where
  "verify_path cr verified proof_index [] = verified"
| "verify_path cr verified proof_index (s # ss) =
     verify_path cr (if proof_index AND 1 = 0 then WithdrawalNode cr verified s else WithdrawalNode cr s verified)
       (drop_bit 1 proof_index) ss"

definition BuildWithdrawalInclusionProof :: "crypto \<Rightarrow> EthereumWithdrawalClaim list \<Rightarrow> 64 word
    \<Rightarrow> (EthereumWithdrawalClaim \<times> u256 list \<times> u256) res" where
  "BuildWithdrawalInclusionProof cr claims index =
     guard (\<not> unat index \<ge> length claims) ''USDD withdrawal proof index is outside the claim prefix''
     (guard (list_all (\<lambda>i. \<not> (unat (claim_index (claims ! i)) \<noteq> i \<or> claim_leaf (claims ! i) \<noteq> ComputeWithdrawalLeaf cr (claims ! i)))
          [0..<length claims]) ''noncanonical USDD withdrawal claim prefix''
      (let c = claims ! unat index;
           (siblings, layer) = sibling_loop cr 0 WITHDRAWAL_ACCUMULATOR_DEPTH (map claim_leaf claims) (unat index);
           root = hd layer in
       guard (\<not> verify_path cr (claim_leaf c) index siblings \<noteq> root) ''internally inconsistent USDD withdrawal proof''
         (Inr (c, siblings, root))))"

section \<open>Chain and proof service\<close>

text \<open>\<open>ConnectBlock\<close>: the accumulator of a block from its predecessor's and, if there is one, its persisted one.\<close>

definition connect_accumulator :: "crypto \<Rightarrow> u256 \<Rightarrow> accumulator option \<Rightarrow> accumulator option \<Rightarrow> block \<Rightarrow> accumulator res" where
  "connect_accumulator cr genesis prior persisted blk =
     (case prior of
        None \<Rightarrow> Inl ''missing prior USDD withdrawal accumulator; reindex required''
      | Some previous \<Rightarrow>
          (case ApplyEthereumWithdrawals cr blk genesis previous of
             Inl e \<Rightarrow> Inl (''failed to derive USDD withdrawal accumulator: '' @ e)
           | Inr (st, _) \<Rightarrow>
               guard (\<not> (persisted \<noteq> None \<and> persisted \<noteq> Some st))
                 ''persisted USDD withdrawal accumulator disagrees with validated block'' (Inr st)))"

text \<open>
  The remote call \<open>getusddwithdrawalproof\<close>. The target is the accumulator of a block of the active chain with the
  entries of the chain after genesis up to this block; a pruned block is \<open>None\<close>. Whether another call runs, and the
  error of an interruption point, if it throws, are inputs: the points are the scan of a height, the reading of the
  \<open>k\<close>-th block and the final one.
\<close>

record chain_entry =
  ce_block :: "block option"
  ce_accumulator :: "accumulator option"

record rpc_call =
  proof_running :: bool
  scan_interrupt :: "nat \<Rightarrow> string option"
  read_interrupt :: "nat \<Rightarrow> string option"
  final_interrupt :: "string option"

definition interruption_point :: "string option \<Rightarrow> 'a res \<Rightarrow> 'a res" where
  "interruption_point i k = (case i of Some e \<Rightarrow> Inl e | None \<Rightarrow> k)"

definition MAX_RECONSTRUCTION_LEAVES :: "64 word" where
  "MAX_RECONSTRUCTION_LEAVES = 10000"

fun withdrawal_blocks :: "rpc_call \<Rightarrow> nat \<Rightarrow> 64 word \<Rightarrow> chain_entry list \<Rightarrow> chain_entry list res" where
  "withdrawal_blocks call height prior_count [] = Inr []"
| "withdrawal_blocks call height prior_count (e # es) =
     interruption_point (if height AND 0x0fff = 0 then scan_interrupt call height else None)
     (case ce_accumulator e of
        None \<Rightarrow> Inl ''Discontinuous withdrawal accumulator; reindex required''
      | Some st \<Rightarrow>
          guard (\<not> acc_count st < prior_count) ''Nonmonotonic withdrawal accumulator; reindex required''
            (bind_res (withdrawal_blocks call (Suc height) (acc_count st) es) (\<lambda>rest.
               Inr (if acc_count st \<noteq> prior_count then e # rest else rest))))"

fun reconstruct_claims :: "crypto \<Rightarrow> rpc_call \<Rightarrow> u256 \<Rightarrow> nat \<Rightarrow> chain_entry list \<Rightarrow> EthereumWithdrawalClaim list
    \<Rightarrow> EthereumWithdrawalClaim list res" where
  "reconstruct_claims cr call genesis k [] claims = Inr claims"
| "reconstruct_claims cr call genesis k (e # es) claims =
     interruption_point (read_interrupt call k)
     (case ce_block e of
        None \<Rightarrow> Inl ''A withdrawal-containing block is pruned or unreadable; use an archival node or indexer''
      | Some blk \<Rightarrow>
          bind_res (ExtractEthereumWithdrawals cr blk genesis (word_of_nat (length claims))) (\<lambda>appended.
            reconstruct_claims cr call genesis (Suc k) es (claims @ appended)))"

definition getusddwithdrawalproof :: "crypto \<Rightarrow> rpc_call \<Rightarrow> u256 \<Rightarrow> (accumulator option \<times> chain_entry list) option \<Rightarrow> 64 word
    \<Rightarrow> (EthereumWithdrawalClaim \<times> u256 list \<times> u256) res" where
  "getusddwithdrawalproof cr call genesis target requested_index =
     guard (\<not> requested_index <s 0) ''Withdrawal index must not be negative''
     (guard (\<not> proof_running call) ''A withdrawal-proof reconstruction is already running''
     (case target of
        None \<Rightarrow> Inl ''Block is not in the active chain''
      | Some (None, _) \<Rightarrow> Inl ''Withdrawal accumulator unavailable; reindex required''
      | Some (Some st, chain) \<Rightarrow>
          guard (\<not> requested_index \<ge> acc_count st) ''Withdrawal index is outside this accumulator''
          (guard (\<not> acc_count st > MAX_RECONSTRUCTION_LEAVES)
             ''Proof reconstruction exceeds the safe RPC limit; use a dedicated permissionless indexer''
          (bind_res (withdrawal_blocks call 1 0 chain) (\<lambda>blocks. bind_res (reconstruct_claims cr call genesis 0 blocks []) (\<lambda>claims.
             interruption_point (final_interrupt call)
             (guard (\<not> length claims \<noteq> unat (acc_count st)) ''Reconstructed withdrawal count disagrees with the persisted accumulator''
             (bind_res (BuildWithdrawalInclusionProof cr claims requested_index) (\<lambda>(c, siblings, root).
                guard (\<not> root \<noteq> acc_root st) ''Reconstructed withdrawal root mismatch'' (Inr (c, siblings, root)))))))))))"

section \<open>Serialization\<close>

definition serialize_accumulator :: "accumulator \<Rightarrow> byte list" where
  "serialize_accumulator st =
     WITHDRAWAL_ACCUMULATOR_VERSION # le_bytes 8 (acc_count st) @ bytes32 (acc_root st)
       @ concat (map (\<lambda>level. if drop_bit level (acc_count st) AND 1 \<noteq> 0 then bytes32 (acc_frontier st ! level) else [])
           [0..<WITHDRAWAL_ACCUMULATOR_DEPTH])"

definition read_bytes :: "nat \<Rightarrow> byte list \<Rightarrow> (byte list \<times> byte list) res" where
  "read_bytes n s = guard (n \<le> length s) ''end of data'' (Inr (take n s, drop n s))"

fun read_frontier :: "64 word \<Rightarrow> nat list \<Rightarrow> byte list \<Rightarrow> (u256 list \<times> byte list) res" where
  "read_frontier n [] s = Inr ([], s)"
| "read_frontier n (level # levels) s =
     (if drop_bit level n AND 1 \<noteq> 0
      then bind_res (read_bytes 32 s) (\<lambda>(h, s'). bind_res (read_frontier n levels s') (\<lambda>(f, r). Inr (of_be_bytes h # f, r)))
      else bind_res (read_frontier n levels s) (\<lambda>(f, r). Inr (0 # f, r)))"

definition deserialize_accumulator :: "crypto \<Rightarrow> byte list \<Rightarrow> (accumulator \<times> byte list) res" where
  "deserialize_accumulator cr s =
     bind_res (read_bytes 1 s) (\<lambda>(v, s1).
       guard (\<not> v \<noteq> [WITHDRAWAL_ACCUMULATOR_VERSION]) ''unsupported USDD withdrawal accumulator version''
       (bind_res (read_bytes 8 s1) (\<lambda>(n, s2). bind_res (read_bytes 32 s2) (\<lambda>(r, s3).
          bind_res (read_frontier (of_le_bytes n) [0..<WITHDRAWAL_ACCUMULATOR_DEPTH] s3) (\<lambda>(f, s4).
            let st = \<lparr>acc_count = of_le_bytes n, acc_root = of_be_bytes r, acc_frontier = f\<rparr> in
            guard (IsSane cr st) ''malformed USDD withdrawal accumulator state'' (Inr (st, s4)))))))"

end
