(* ===== verification/Withdrawal_Tree.thy ===== *)
theory Withdrawal_Tree
  imports Withdrawal
begin

text \<open>
  The sparse Merkle tree as a recursive reference definition, and that the accumulator with its frontier and
  the layers of an inclusion proof compute it.
\<close>

section \<open>Reference tree\<close>

text \<open>The root of a tree of height \<open>h\<close> whose leftmost leaves are given; the others are empty.\<close>

fun merkle :: "crypto \<Rightarrow> nat \<Rightarrow> u256 list \<Rightarrow> u256" where
  "merkle cr 0 ls = (case ls of [] \<Rightarrow> WithdrawalEmptyRoot cr 0 | l # _ \<Rightarrow> l)"
| "merkle cr (Suc h) ls = WithdrawalNode cr (merkle cr h (take (2 ^ h) ls)) (merkle cr h (drop (2 ^ h) ls))"

lemma merkle_Nil [simp]: "merkle cr h [] = WithdrawalEmptyRoot cr h"
  by (induction h) (simp_all add: Let_def)

text \<open>The root of the subtree that the frontier keeps at level \<open>k\<close> for the leaves \<open>ls\<close>.\<close>

definition frontier_root :: "crypto \<Rightarrow> u256 list \<Rightarrow> nat \<Rightarrow> u256" where
  "frontier_root cr ls k =
     (if odd (length ls div 2 ^ k) then merkle cr k (take (2 ^ k) (drop (length ls div 2 ^ Suc k * 2 ^ Suc k) ls)) else 0)"

text \<open>The accumulator of the leaves \<open>ls\<close>.\<close>

definition represents :: "crypto \<Rightarrow> accumulator \<Rightarrow> u256 list \<Rightarrow> bool" where
  "represents cr st ls \<longleftrightarrow> unat (acc_count st) = length ls \<and> acc_frontier st = map (frontier_root cr ls) [0..<64]
     \<and> acc_root st = merkle cr 64 ls"

lemma represents_unique: "represents cr st ls \<Longrightarrow> represents cr st' ls \<Longrightarrow> st = st'"
  by (cases st; cases st') (auto simp: represents_def word_unat_eq_iff)

lemma level_bit: "drop_bit k (w :: 64 word) AND 1 \<noteq> 0 \<longleftrightarrow> odd (unat w div 2 ^ k)"
proof -
  have "drop_bit k w AND 1 \<noteq> 0 \<longleftrightarrow> bit w k"
    by (simp add: and_one_eq bit_iff_odd_drop_bit odd_iff_mod_2_eq_one)
  also have "\<dots> \<longleftrightarrow> bit (unat w) k" by (auto simp: bit_unsigned_iff)
  finally show ?thesis by (simp add: bit_iff_odd)
qed

lemma div_level: "(n :: nat) div 2 ^ k = 2 * (n div 2 ^ Suc k) + (if odd (n div 2 ^ k) then 1 else 0)"
proof -
  have "n div 2 ^ Suc k = n div 2 ^ k div 2" unfolding power_Suc2 by (rule div_mult2_eq)
  then show ?thesis by simp
qed

section \<open>The root\<close>

lemma compute_root_merkle:
  assumes "unat n = length ls" and "\<forall>k < h. frontier ! k = frontier_root cr ls k"
  shows "compute_root cr n frontier h = merkle cr h (drop (length ls div 2 ^ h * 2 ^ h) ls)"
  using assms(2)
proof (induction h)
  case (Suc h)
  let ?N = "length ls" and ?t = "drop (length ls div 2 ^ Suc h * 2 ^ Suc h) ls"
  note lev = div_level [of ?N h]
  have IH: "compute_root cr n frontier h = merkle cr h (drop (?N div 2 ^ h * 2 ^ h) ls)" using Suc by simp
  show ?case
  proof (cases "odd (?N div 2 ^ h)")
    case True
    with lev have "?N div 2 ^ h * 2 ^ h = ?N div 2 ^ Suc h * 2 ^ Suc h + 2 ^ h" by (simp add: algebra_simps)
    then have "drop (?N div 2 ^ h * 2 ^ h) ls = drop (2 ^ h) ?t" by (simp add: add.commute)
    moreover have "frontier ! h = merkle cr h (take (2 ^ h) ?t)" using Suc.prems True by (simp add: frontier_root_def)
    ultimately show ?thesis using True IH assms(1) by (simp add: level_bit [of h n, simplified] Let_def)
  next
    case False
    with lev have eq: "?N div 2 ^ h * 2 ^ h = ?N div 2 ^ Suc h * 2 ^ Suc h" by simp
    have "length ?t < 2 ^ h"
      using mod_less_divisor [of "2 ^ h" ?N] unfolding eq [symmetric] by (simp add: minus_div_mult_eq_mod)
    then have "take (2 ^ h) ?t = ?t" "drop (2 ^ h) ?t = []" by simp_all
    with False IH assms(1) eq show ?thesis by (simp add: level_bit [of h n, simplified] Let_def del: take_drop drop_drop)
  qed
qed simp

section \<open>Appending\<close>

lemma frontier_root_keep:
  assumes "k' \<le> k" and "Suc (length ls) div 2 ^ k' = length ls div 2 ^ k'"
  shows "frontier_root cr (ls @ [x]) k = frontier_root cr ls k"
proof -
  let ?N = "length ls" and ?s = "length ls div 2 ^ Suc k * 2 ^ Suc k"
  have "(m :: nat) div 2 ^ (k' + j) = m div 2 ^ k' div 2 ^ j" for m j by (simp add: power_add div_mult2_eq)
  with assms obtain j where "k = k' + j" and eq: "Suc ?N div 2 ^ k = ?N div 2 ^ k" "Suc ?N div 2 ^ Suc k = ?N div 2 ^ Suc k"
    using le_Suc_ex [OF assms(1)] by (metis add_Suc_right)
  have "take (2 ^ k) (drop ?s (ls @ [x])) = take (2 ^ k) (drop ?s ls)" if "odd (?N div 2 ^ k)"
  proof -
    have "?s + 2 ^ k = ?N div 2 ^ k * 2 ^ k" using that div_level [of ?N k] by (simp add: algebra_simps)
    also have "\<dots> \<le> ?N" by simp
    finally show ?thesis by simp
  qed
  with eq show ?thesis by (simp add: frontier_root_def del: power_Suc)
qed

lemma pred_div: "Suc n = d * q \<Longrightarrow> 0 < q \<and> n div d = q - 1"
proof -
  assume e: "Suc n = d * q"
  then obtain p c where "q = Suc p" "d = Suc c" by (cases q; cases d) auto
  moreover from this e have "n = c + d * p" by simp
  moreover from this \<open>d = Suc c\<close> have "n div d = p" by (intro div_nat_eqI) simp_all
  ultimately show ?thesis by simp
qed

text \<open>The loop with the levels below \<open>l\<close> carried: \<open>node\<close> is the root of the last \<open>2 ^ l\<close> leaves.\<close>

lemma carry_spec:
  assumes "unat occupied = length ls div 2 ^ l" and "2 ^ l dvd Suc (length ls)" and "Suc (length ls) < 2 ^ 64"
    and "node = merkle cr l (drop (Suc (length ls) - 2 ^ l) (ls @ [x]))"
    and "length frontier = 64" "\<forall>k < l. frontier ! k = 0" "\<forall>k < 64. l \<le> k \<longrightarrow> frontier ! k = frontier_root cr ls k"
  shows "carry cr frontier occupied node l = map (frontier_root cr (ls @ [x])) [0..<64]"
  using assms
proof (induction cr frontier occupied node l rule: carry.induct)
  case (1 cr frontier occupied node l)
  let ?N = "length ls"
  have odd: "occupied AND 1 \<noteq> 0 \<longleftrightarrow> odd (?N div 2 ^ l)" using level_bit [of 0 occupied] 1(2) by simp
  have "2 ^ l \<le> Suc ?N" using 1(3) by (intro dvd_imp_le) simp_all
  with 1(4) have "(2 :: nat) ^ l < 2 ^ 64" by linarith
  then have l: "l < 64" by (simp only: power_strict_increasing_iff)
  obtain m where m: "Suc ?N = 2 ^ l * m" using 1(3) by blast
  then have N: "0 < m" and div: "?N div 2 ^ l = m - 1" using pred_div by blast+
  show ?case
  proof (cases "odd (?N div 2 ^ l)")
    case True
    then have "even m" using div N by (cases m) simp_all
    then obtain q where q: "m = 2 * q" "0 < q" using N by (auto elim: evenE)
    then have M: "Suc ?N = 2 ^ Suc l * q" using m by simp
    have d: "?N div 2 ^ Suc l = q - 1" using pred_div [OF M] by simp
    let ?s = "Suc ?N - 2 ^ Suc l"
    have s: "?N div 2 ^ Suc l * 2 ^ Suc l = ?s" unfolding d using M by (simp add: diff_mult_distrib mult.commute)
    have le: "2 ^ Suc l \<le> Suc ?N" using M q(2) by simp
    have "take (2 ^ l) (drop ?s ls) = take (2 ^ l) (drop ?s (ls @ [x]))" using le by simp
    then have f: "frontier ! l = merkle cr l (take (2 ^ l) (drop ?s (ls @ [x])))"
      using 1(8) l True by (simp add: frontier_root_def s del: power_Suc)
    have "drop (Suc ?N - 2 ^ l) (ls @ [x]) = drop (2 ^ l) (drop ?s (ls @ [x]))"
      using le by (simp only: drop_drop) (simp add: algebra_simps)
    then have node: "WithdrawalNode cr (frontier ! l) node = merkle cr (Suc l) (drop ?s (ls @ [x]))"
      unfolding f 1(5) merkle.simps by (simp only:)
    have "carry cr (frontier[l := 0]) (drop_bit 1 occupied) (WithdrawalNode cr (frontier ! l) node) (Suc l)
        = map (frontier_root cr (ls @ [x])) [0..<64]"
    proof (rule 1(1))
      show "occupied AND 1 \<noteq> 0" using odd True by simp
      show "unat (drop_bit 1 occupied) = ?N div 2 ^ Suc l"
        using 1(2) div_mult2_eq [of ?N "2 ^ l" 2] unat_half [of occupied] by (simp add: mult.commute)
      show "2 ^ Suc l dvd Suc ?N" using M by simp
    qed (use 1 l node in \<open>auto simp: nth_list_update less_Suc_eq\<close>)
    then show ?thesis using odd True by (subst carry.simps) simp
  next
    case False
    then have "odd m" using div N by (cases m) simp_all
    then obtain q where q: "m = Suc (2 * q)" by (auto elim: oddE)
    have M: "Suc ?N = 2 ^ Suc l * q + 2 ^ l" using m q by (simp add: algebra_simps)
    have d: "Suc ?N div 2 ^ Suc l = q" "?N div 2 ^ Suc l = q"
    proof -
      have "(1 :: nat) \<le> 2 ^ l" "2 ^ Suc l * Suc q = 2 ^ Suc l * q + 2 * 2 ^ l" by simp_all
      with M show "Suc ?N div 2 ^ Suc l = q" "?N div 2 ^ Suc l = q" by (intro div_nat_eqI; linarith)+
    qed
    have "frontier[l := node] ! k = frontier_root cr (ls @ [x]) k" if "k < 64" for k
    proof -
      consider "k < l" | "k = l" | "l < k" by linarith
      then show ?thesis
      proof cases
        assume k: "k < l"
        then obtain j where j: "l = Suc (k + j)" using less_iff_Suc_add by blast
        have "Suc ?N div 2 ^ k = 2 * (2 ^ j * m)" unfolding m j by (simp add: power_add ac_simps)
        then show ?thesis using k 1(7) by (simp add: frontier_root_def)
      next
        assume k: "k = l"
        have "Suc ?N div 2 ^ l = m" unfolding m by simp
        moreover have "q * 2 ^ Suc l = Suc ?N - 2 ^ l" using M by (simp add: mult.commute)
        moreover have "length (drop (Suc ?N - 2 ^ l) (ls @ [x])) \<le> 2 ^ l" by (simp only: length_drop length_append list.size)
        ultimately show ?thesis
          using k l 1(5,6) d(1) \<open>odd m\<close> by (simp add: frontier_root_def del: power_Suc drop_append)
      next
        assume k: "l < k"
        then have "frontier_root cr (ls @ [x]) k = frontier_root cr ls k"
          using d by (intro frontier_root_keep [of "Suc l"]) simp_all
        then show ?thesis using k that 1(8) by simp
      qed
    qed
    then have "frontier[l := node] = map (frontier_root cr (ls @ [x])) [0..<64]"
      using 1(6) by (intro nth_equalityI) simp_all
    then show ?thesis using odd False by (subst carry.simps) simp
  qed
qed

lemma frontier_root_Nil [simp]: "frontier_root cr [] k = 0"
  by (simp add: frontier_root_def)

lemma represents_Empty: "represents cr (Empty_accumulator cr) []"
  by (simp add: represents_def Empty_accumulator_def WITHDRAWAL_ACCUMULATOR_DEPTH_def list_eq_iff_nth_eq)

lemma root_merkle:
  assumes "unat (acc_count st) = length ls" and "acc_frontier st = map (frontier_root cr ls) [0..<64]"
  shows "ComputeWithdrawalAccumulatorRoot cr st = merkle cr 64 ls"
proof -
  have "length ls < 2 ^ 64" using unsigned_less [of "acc_count st", where ?'a = nat] assms(1) by simp
  then show ?thesis
    using compute_root_merkle [of "acc_count st" ls 64 "acc_frontier st" cr] assms
    by (simp add: ComputeWithdrawalAccumulatorRoot_def WITHDRAWAL_ACCUMULATOR_DEPTH_def)
qed

lemma represents_sane:
  assumes "represents cr st ls"
  shows "IsSane cr st"
proof -
  have "acc_frontier st ! k = 0" if "k < 64" "drop_bit k (acc_count st) AND 1 = 0" for k
    using assms that level_bit [of k "acc_count st"] by (simp add: represents_def frontier_root_def)
  with assms root_merkle [of st ls cr] show ?thesis
    by (auto simp: IsSane_def represents_def list_all_iff WITHDRAWAL_ACCUMULATOR_DEPTH_def)
qed

lemma unat_max: "unat (- 1 :: 64 word) = 2 ^ 64 - 1"
  by (simp add: unsigned_minus_1_eq_mask mask_eq_exp_minus_1)

lemma Append_exact:
  assumes "represents cr st ls"
  shows "Append cr st x = Inr st' \<longleftrightarrow> Suc (length ls) < 2 ^ 64 \<and> represents cr st' (ls @ [x])"
proof -
  have n: "unat (acc_count st) = length ls" and f: "acc_frontier st = map (frontier_root cr ls) [0..<64]"
    using assms by (simp_all add: represents_def)
  have max: "acc_count st = - 1 \<longleftrightarrow> \<not> Suc (length ls) < 2 ^ 64"
    using n unsigned_less [of "acc_count st", where ?'a = nat] by (auto simp: word_unat_eq_iff unat_max)
  define st1 where "st1 = st\<lparr>acc_frontier := carry cr (acc_frontier st) (acc_count st) x 0, acc_count := acc_count st + 1\<rparr>"
  define st2 where "st2 = st1\<lparr>acc_root := ComputeWithdrawalAccumulatorRoot cr st1\<rparr>"
  have eq: "Append cr st x = guard (\<not> acc_count st = - 1) ''USDD withdrawal accumulator count overflow'' (Inr st2)"
    by (simp add: Append_def Let_def st2_def st1_def)
  show ?thesis
  proof (cases "Suc (length ls) < 2 ^ 64")
    case True
    have "carry cr (acc_frontier st) (acc_count st) x 0 = map (frontier_root cr (ls @ [x])) [0..<64]"
      by (rule carry_spec) (use True n f in simp_all)
    moreover have "unat (acc_count st + 1) = Suc (length ls)"
      using True n by (simp add: unat_word_ariths)
    ultimately have "represents cr st2 (ls @ [x])"
      using root_merkle [of st1 "ls @ [x]" cr] by (simp add: represents_def st2_def st1_def)
    then show ?thesis using True max eq represents_unique by (auto simp: guard_def)
  qed (use max eq in \<open>simp add: guard_def\<close>)
qed

lemma append_all_exact:
  assumes "represents cr st ls" "length ls < 2 ^ 64"
  shows "append_all cr st xs = Inr st' \<longleftrightarrow> length ls + length xs < 2 ^ 64 \<and> represents cr st' (ls @ xs)"
  using assms
proof (induction xs arbitrary: st ls)
  case Nil
  then show ?case using represents_unique by auto
next
  case (Cons x xs)
  have "append_all cr st (x # xs) = Inr st' \<longleftrightarrow> (\<exists>st1. Append cr st x = Inr st1 \<and> append_all cr st1 xs = Inr st')"
    by (simp add: bind_res_Inr)
  also have "\<dots> \<longleftrightarrow> (\<exists>st1. Suc (length ls) < 2 ^ 64 \<and> represents cr st1 (ls @ [x])
      \<and> length ls + length (x # xs) < 2 ^ 64 \<and> represents cr st' (ls @ x # xs))"
    using Append_exact [OF Cons.prems(1)] Cons.IH [of _ "ls @ [x]"] by auto
  also have "\<dots> \<longleftrightarrow> length ls + length (x # xs) < 2 ^ 64 \<and> represents cr st' (ls @ x # xs)"
  proof (cases "Suc (length ls) < 2 ^ 64")
    case True
    then have "acc_count st \<noteq> - 1"
      using Cons.prems(1) by (auto simp: represents_def unat_max)
    then obtain st1 where "Append cr st x = Inr st1" by (simp add: Append_def Let_def)
    with True Append_exact [OF Cons.prems(1)] show ?thesis by auto
  qed simp
  finally show ?case .
qed

end
