(* ===== verification/Withdrawal_Path.thy ===== *)
theory Withdrawal_Path
  imports Withdrawal_Tree
begin

text \<open>
  Inclusion proofs of the withdrawal accumulator: the layers that the proof builder computes are the levels of
  the reference tree, the path it returns verifies, and a path that verifies is unique unless two of its
  inputs collide under the hash.
\<close>

section \<open>Layers\<close>

text \<open>The value at a position of a layer; positions beyond its end are empty subtrees.\<close>

definition layer_at :: "crypto \<Rightarrow> nat \<Rightarrow> u256 list \<Rightarrow> nat \<Rightarrow> u256" where
  "layer_at cr level layer i = (if i < length layer then layer ! i else WithdrawalEmptyRoot cr level)"

lemma length_next_layer: "length (next_layer cr level layer) = Suc (length layer) div 2"
  by (induction cr level layer rule: next_layer.induct) simp_all

lemma next_layer_Nil [simp]: "next_layer cr level layer = [] \<longleftrightarrow> layer = []"
  by (induction cr level layer rule: next_layer.induct) simp_all

lemma layer_at_simps [simp]:
  "layer_at cr level [] i = WithdrawalEmptyRoot cr level"
  "layer_at cr level (x # xs) 0 = x"
  "layer_at cr level (x # xs) (Suc i) = layer_at cr level xs i"
  by (simp_all add: layer_at_def)

lemma layer_at_next:
  "layer_at cr (Suc level) (next_layer cr level layer) i =
     WithdrawalNode cr (layer_at cr level layer (2 * i)) (layer_at cr level layer (Suc (2 * i)))"
proof (induction cr level layer arbitrary: i rule: next_layer.induct)
  case (2 cr level x)
  show ?case by (cases i) (simp_all add: Let_def)
next
  case (3 cr level x y zs)
  then show ?case by (cases i) simp_all
qed (simp add: Let_def)

lemma sibling_loop_layers:
  "snd (sibling_loop cr level n layer i) = fold (next_layer cr) [level..<level + n] layer"
  "length (fst (sibling_loop cr level n layer i)) = n"
  by (induction n arbitrary: level layer i) (simp_all add: Let_def upt_conv_Cons case_prod_beta del: upt_Suc)

lemma layers_merkle:
  "layer_at cr h (fold (next_layer cr) [0..<h] ls) i = merkle cr h (take (2 ^ h) (drop (i * 2 ^ h) ls))"
proof (induction h arbitrary: i)
  case 0
  show ?case by (cases "i < length ls") (simp_all add: layer_at_def take_Suc_conv_app_nth hd_drop_conv_nth take_Suc)
next
  case (Suc h)
  let ?d = "drop (i * 2 ^ Suc h) ls"
  have "take (2 ^ h) (take (2 ^ Suc h) ?d) = take (2 ^ h) (drop (2 * i * 2 ^ h) ls)" by (simp add: min_def mult.assoc mult.commute)
  moreover have "drop (2 ^ h) (take (2 ^ Suc h) ?d) = take (2 ^ h) (drop (Suc (2 * i) * 2 ^ h) ls)"
    by (simp add: drop_take algebra_simps)
  ultimately show ?case using Suc by (simp add: layer_at_next del: take_take drop_drop)
qed

section \<open>Completeness\<close>

lemma xor_one: "(i :: nat) XOR 1 = (if even i then Suc i else i - 1)"
  using xor_one_eq [of i] by simp

lemma sibling_loop_Suc:
  "sibling_loop cr level (Suc n) layer i =
     (layer_at cr level layer (i XOR 1) # fst (sibling_loop cr (Suc level) n (next_layer cr level layer) (i div 2)),
      snd (sibling_loop cr (Suc level) n (next_layer cr level layer) (i div 2)))"
  by (simp add: Let_def layer_at_def case_prod_beta drop_bit_Suc)

lemma verify_sibling_loop:
  assumes "unat index = i" and "i < 2 ^ n"
  shows "verify_path cr (layer_at cr level layer i) index (fst (sibling_loop cr level n layer i))
    = layer_at cr (level + n) (snd (sibling_loop cr level n layer i)) 0"
  using assms
proof (induction n arbitrary: level layer i index)
  case 0
  then show ?case by simp
next
  case (Suc n)
  let ?layer = "next_layer cr level layer"
  have odd: "index AND 1 = 0 \<longleftrightarrow> even i" using level_bit [of 0 index] Suc.prems(1) by simp
  have node: "(if index AND 1 = 0 then WithdrawalNode cr (layer_at cr level layer i) (layer_at cr level layer (i XOR 1))
      else WithdrawalNode cr (layer_at cr level layer (i XOR 1)) (layer_at cr level layer i)) = layer_at cr (Suc level) ?layer (i div 2)"
    unfolding odd layer_at_next xor_one by (cases "even i") (auto elim!: evenE oddE)
  have "verify_path cr (layer_at cr (Suc level) ?layer (i div 2)) (drop_bit 1 index) (fst (sibling_loop cr (Suc level) n ?layer (i div 2)))
      = layer_at cr (Suc level + n) (snd (sibling_loop cr (Suc level) n ?layer (i div 2))) 0"
    by (rule Suc.IH) (use Suc.prems in \<open>simp_all add: unat_half [simplified]\<close>)
  then show ?case unfolding sibling_loop_Suc fst_conv snd_conv verify_path.simps node by simp
qed

text \<open>The honest path of a position leads to the root of the tree, whether the position is filled or empty.\<close>

definition honest_path :: "crypto \<Rightarrow> u256 list \<Rightarrow> 64 word \<Rightarrow> u256 list" where
  "honest_path cr ls index = fst (sibling_loop cr 0 WITHDRAWAL_ACCUMULATOR_DEPTH ls (unat index))"

lemma honest_path_verifies:
  assumes "length ls < 2 ^ 64"
  shows "verify_path cr (layer_at cr 0 ls (unat index)) index (honest_path cr ls index) = merkle cr 64 ls"
    "length (honest_path cr ls index) = 64"
    "layer_at cr 64 (snd (sibling_loop cr 0 64 ls (unat index))) 0 = merkle cr 64 ls"
proof -
  show top: "layer_at cr 64 (snd (sibling_loop cr 0 64 ls (unat index))) 0 = merkle cr 64 ls"
    using layers_merkle [of cr 64 ls 0] assms by (simp add: sibling_loop_layers)
  have "unat index < 2 ^ 64" using unsigned_less [of index, where ?'a = nat] by simp
  from verify_sibling_loop [OF refl this, of cr 0 ls] top
  show "verify_path cr (layer_at cr 0 ls (unat index)) index (honest_path cr ls index) = merkle cr 64 ls"
    by (simp add: honest_path_def WITHDRAWAL_ACCUMULATOR_DEPTH_def)
  show "length (honest_path cr ls index) = 64"
    by (simp add: honest_path_def sibling_loop_layers WITHDRAWAL_ACCUMULATOR_DEPTH_def)
qed

lemma fold_next_layer_Nil: "fold (next_layer cr) ks ls = [] \<longleftrightarrow> ls = []"
  by (induction ks arbitrary: ls) simp_all

section \<open>Uniqueness\<close>

text \<open>What the verification of a path hashes, level by level.\<close>

fun path_inputs :: "crypto \<Rightarrow> u256 \<Rightarrow> 64 word \<Rightarrow> u256 list \<Rightarrow> byte list list" where
  "path_inputs cr v index [] = []"
| "path_inputs cr v index (s # ss) =
     (let (l, r) = (if index AND 1 = 0 then (v, s) else (s, v)) in
      (WITHDRAWAL_NODE_PREFIX # bytes32 l @ bytes32 r) # path_inputs cr (WithdrawalNode cr l r) (drop_bit 1 index) ss)"

definition no_collision :: "crypto \<Rightarrow> byte list \<Rightarrow> byte list \<Rightarrow> bool" where
  "no_collision cr a b \<longleftrightarrow> (sha256 cr a = sha256 cr b \<longrightarrow> a = b)"

lemma verify_path_unique:
  assumes "list_all2 (no_collision cr) (path_inputs cr v index ss) (path_inputs cr v' index ss')" and "length ss = length ss'"
    and "verify_path cr v index ss = verify_path cr v' index ss'"
  shows "v = v' \<and> ss = ss'"
  using assms(2,1,3)
proof (induction ss ss' arbitrary: v v' index rule: list_induct2)
  case (Cons s ss s' ss')
  let ?lr = "if index AND 1 = 0 then (v, s) else (s, v)" and ?lr' = "if index AND 1 = 0 then (v', s') else (s', v')"
  let ?n = "WithdrawalNode cr (fst ?lr) (snd ?lr)" and ?n' = "WithdrawalNode cr (fst ?lr') (snd ?lr')"
  have "list_all2 (no_collision cr) (path_inputs cr ?n (drop_bit 1 index) ss) (path_inputs cr ?n' (drop_bit 1 index) ss')"
    and nc: "no_collision cr (WITHDRAWAL_NODE_PREFIX # bytes32 (fst ?lr) @ bytes32 (snd ?lr))
      (WITHDRAWAL_NODE_PREFIX # bytes32 (fst ?lr') @ bytes32 (snd ?lr'))"
    using Cons.prems(1) by (simp_all split: if_splits)
  moreover have "verify_path cr ?n (drop_bit 1 index) ss = verify_path cr ?n' (drop_bit 1 index) ss'"
    using Cons.prems(2) by (simp split: if_splits)
  ultimately have "?n = ?n'" and ss: "ss = ss'" using Cons.IH by blast+
  then have "bytes32 (fst ?lr) @ bytes32 (snd ?lr) = bytes32 (fst ?lr') @ bytes32 (snd ?lr')"
    using nc by (simp only: no_collision_def WithdrawalNode_def) simp
  then have "fst ?lr = fst ?lr'" "snd ?lr = snd ?lr'" by simp_all
  with ss show ?case by (simp split: if_splits)
qed simp

end
