(* ===== verification/Withdrawal_Block.thy ===== *)
theory Withdrawal_Block
  imports Withdrawal_Path
begin

text \<open>
  Blocks of the withdrawal accumulator: the canonical burn as an encoder, that the extraction finds exactly
  these outputs, numbered in their order.
\<close>

section \<open>Canonical burns\<close>

record burn =
  b_asset :: u256
  b_vault :: u256
  b_recipient :: "160 word"
  b_amount :: "64 word"

definition burn_valid :: "burn \<Rightarrow> bool" where
  "burn_valid b \<longleftrightarrow> b_asset b \<noteq> 0 \<and> b_vault b \<noteq> 0 \<and> b_recipient b \<noteq> 0
     \<and> 0 < unat (b_amount b) \<and> unat (b_amount b) \<le> 20000000 * 1000000"

definition burn_script :: "burn \<Rightarrow> byte list" where
  "burn_script b = [0x6a, 65] @ text_bytes ''USDD'' @ [1] @ bytes32 (b_vault b) @ be_bytes 20 (b_recipient b) @ be_bytes 8 (b_amount b)"

definition encode_burn :: "burn \<Rightarrow> burn_output" where
  "encode_burn b = \<lparr>nAsset = SetToAsset (b_asset b), nValue = SetToAmount (b_amount b * 100), scriptPubKey = burn_script b, nNonce = []\<rparr>"

definition burn_claim :: "crypto \<Rightarrow> u256 \<Rightarrow> 64 word \<Rightarrow> u256 \<Rightarrow> 32 word \<Rightarrow> burn \<Rightarrow> EthereumWithdrawalClaim" where
  "burn_claim cr g index txid i b =
     (let c = \<lparr>elements_genesis = g, asset_id = DisplayBytes (b_asset b), vault_id = b_vault b, burn_txid_display = txid, burn_vout = i,
               burn_id = ComputeWithdrawalBurnId cr g txid i, claim_index = index, amount_usdt_micro = b_amount b,
               recipient = b_recipient b, claim_leaf = 0\<rparr> in
      c\<lparr>claim_leaf := ComputeWithdrawalLeaf cr c\<rparr>)"

lemma encode_burn_inject: "encode_burn b = encode_burn b' \<Longrightarrow> b = b'"
  by (cases b; cases b') (simp add: encode_burn_def SetToAsset_def burn_script_def)

lemma length_burn_script: "length (burn_script b) = 67"
  by (simp add: burn_script_def text_bytes_def)

text \<open>A script of the right size is split at the positions the code reads.\<close>

lemma script_split:
  assumes "length s = 67"
  shows "s = s ! 0 # s ! 1 # take 4 (drop 2 s) @ s ! 6 # take 32 (drop 7 s) @ take 20 (drop 39 s) @ take 8 (drop 59 s)"
proof -
  have "s = s ! 0 # s ! 1 # drop 2 s" using assms by (simp add: Cons_nth_drop_Suc numeral_2_eq_2)
  also have "drop 2 s = take 4 (drop 2 s) @ drop 6 s" using append_take_drop_id [of 4 "drop 2 s"] by simp
  also have "drop 6 s = s ! 6 # drop 7 s" using assms Cons_nth_drop_Suc [of 6 s] by simp
  also have "drop 7 s = take 32 (drop 7 s) @ drop 39 s" using append_take_drop_id [of 32 "drop 7 s"] by simp
  also have "drop 39 s = take 20 (drop 39 s) @ drop 59 s" using append_take_drop_id [of 20 "drop 39 s"] by simp
  also have "drop 59 s = take 8 (drop 59 s)" using assms by simp
  finally show ?thesis .
qed

lemma burn_script_fields:
  "burn_script b ! 0 = 0x6a" "burn_script b ! 1 = 65" "take 4 (drop 2 (burn_script b)) = text_bytes ''USDD''"
  "burn_script b ! 6 = 1" "take 32 (drop 7 (burn_script b)) = bytes32 (b_vault b)"
  "take 20 (drop 39 (burn_script b)) = be_bytes 20 (b_recipient b)" "take 8 (drop 59 (burn_script b)) = be_bytes 8 (b_amount b)"
proof -
  let ?s = "burn_script b"
  have len: "length ?s = 67" by (rule length_burn_script)
  have "?s = 0x6a # 65 # text_bytes ''USDD'' @ 1 # bytes32 (b_vault b) @ be_bytes 20 (b_recipient b) @ be_bytes 8 (b_amount b)"
    by (simp add: burn_script_def)
  with script_split [OF len] have eq: "?s ! 0 # ?s ! 1 # take 4 (drop 2 ?s) @ ?s ! 6 # take 32 (drop 7 ?s) @ take 20 (drop 39 ?s) @ take 8 (drop 59 ?s)
      = 0x6a # 65 # text_bytes ''USDD'' @ 1 # bytes32 (b_vault b) @ be_bytes 20 (b_recipient b) @ be_bytes 8 (b_amount b)" by simp
  have l: "length (take 4 (drop 2 ?s)) = length (text_bytes ''USDD'')" "length (take 32 (drop 7 ?s)) = length (bytes32 (b_vault b))"
    "length (take 20 (drop 39 ?s)) = length (be_bytes 20 (b_recipient b))"
    using len by (simp_all add: text_bytes_def)
  show "?s ! 0 = 0x6a" "?s ! 1 = 65" "take 4 (drop 2 ?s) = text_bytes ''USDD''" "?s ! 6 = 1"
    "take 32 (drop 7 ?s) = bytes32 (b_vault b)" "take 20 (drop 39 ?s) = be_bytes 20 (b_recipient b)" "take 8 (drop 59 ?s) = be_bytes 8 (b_amount b)"
    using eq l by simp_all
qed

definition decode_burn :: "burn_output \<Rightarrow> burn option" where
  "decode_burn out =
     (let s = scriptPubKey out;
          b = \<lparr>b_asset = GetAsset (nAsset out), b_vault = of_be_bytes (take 32 (drop 7 s)),
               b_recipient = of_be_bytes (take 20 (drop 39 s)), b_amount = of_be_bytes (take 8 (drop 59 s))\<rparr> in
      if burn_valid b \<and> out = encode_burn b then Some b else None)"

lemma encode_fields [simp]:
  "scriptPubKey (encode_burn b) = burn_script b" "nAsset (encode_burn b) = SetToAsset (b_asset b)"
  "nValue (encode_burn b) = SetToAmount (b_amount b * 100)" "nNonce (encode_burn b) = []"
  by (simp_all add: encode_burn_def)

lemma explicit_fields [simp]:
  "asset_IsExplicit (SetToAsset a)" "GetAsset (SetToAsset a) = a" "value_IsExplicit (SetToAmount v)" "GetAmount (SetToAmount v) = v"
  by (simp_all add: asset_IsExplicit_def GetAsset_def value_IsExplicit_def GetAmount_def SetToAsset_def SetToAmount_def of_be_bytes_inverse)

lemma explicit_asset: "asset_IsExplicit v \<Longrightarrow> v = SetToAsset (GetAsset v)"
  by (cases v) (auto simp: asset_IsExplicit_def GetAsset_def SetToAsset_def be_bytes_of_be_bytes)

lemma explicit_value: "value_IsExplicit v \<Longrightarrow> v = SetToAmount (GetAmount v)"
  by (cases v) (auto simp: value_IsExplicit_def GetAmount_def SetToAmount_def be_bytes_of_be_bytes)

lemma decode_burn_iff: "decode_burn out = Some b \<longleftrightarrow> burn_valid b \<and> out = encode_burn b"
proof
  assume "burn_valid b \<and> out = encode_burn b"
  then show "decode_burn out = Some b"
    by (cases b) (simp add: decode_burn_def burn_script_fields of_be_bytes_inverse Let_def)
qed (auto simp: decode_burn_def Let_def split: if_splits)

text \<open>The tests of the extraction, as one condition.\<close>

lemma burn_amount:
  assumes "0 < unat a" "unat a \<le> 20000000 * 1000000"
  shows "a \<noteq> 0" "\<not> a > MAX_WITHDRAWAL_USDT_MICRO" "\<not> a > (- 1) div USDD_UNITS_PER_USDT_MICRO" "0 < sint (a * 100)"
proof -
  show "a \<noteq> 0" using assms(1) by auto
  show "\<not> a > MAX_WITHDRAWAL_USDT_MICRO" using assms(2) by (simp add: word_less_nat_alt MAX_WITHDRAWAL_USDT_MICRO_def)
  show "\<not> a > (- 1) div USDD_UNITS_PER_USDT_MICRO" using assms(2) by (simp add: word_less_nat_alt USDD_UNITS_PER_USDT_MICRO_def)
  have u: "unat (a * 100) = unat a * 100" using assms(2) by (simp add: unat_word_ariths)
  define n where "n = unat a"
  have "uint (a * 100) = int (unat (a * 100))" by simp
  also have "\<dots> = int n * 100" unfolding u by (simp add: n_def)
  finally have "uint (a * 100) = int n * 100" .
  moreover have "0 < n" "n \<le> 20000000000000" using assms by (simp_all add: n_def)
  ultimately show "0 < sint (a * 100)" by (simp add: sint_uint signed_take_bit_int_eq_self)
qed

lemma amount_valid: "a \<noteq> 0 \<Longrightarrow> \<not> a > MAX_WITHDRAWAL_USDT_MICRO \<Longrightarrow> 0 < unat a \<and> unat a \<le> 20000000 * 1000000"
  by (simp add: word_less_nat_alt MAX_WITHDRAWAL_USDT_MICRO_def unat_gt_0 not_less)

lemmas withdrawal_consts = WITHDRAWAL_SCRIPT_SIZE_def WITHDRAWAL_SCRIPT_PUSH_SIZE_def OP_RETURN_def WITHDRAWAL_MAGIC_def
  WITHDRAWAL_PROTOCOL_VERSION_def ReadU64BE_def

lemma script_canonical:
  assumes "length s = WITHDRAWAL_SCRIPT_SIZE" "s ! 0 = OP_RETURN" "s ! 1 = word_of_nat WITHDRAWAL_SCRIPT_PUSH_SIZE"
    "take 4 (drop 2 s) = text_bytes WITHDRAWAL_MAGIC" "(ucast (s ! 6) :: 32 word) = WITHDRAWAL_PROTOCOL_VERSION"
  shows "s = burn_script \<lparr>b_asset = a, b_vault = of_be_bytes (take 32 (drop 7 s)), b_recipient = of_be_bytes (take 20 (drop 39 s)),
    b_amount = of_be_bytes (take 8 (drop 59 s))\<rparr>"
proof -
  have len: "length s = 67" using assms(1) by (simp add: withdrawal_consts)
  have "unat (s ! 6) < 2 ^ 32" using unsigned_less [of "s ! 6", where ?'a = nat] by simp
  then have "unat (s ! 6) = 1"
    using arg_cong [OF assms(5), of unat] by (simp add: withdrawal_consts unsigned_ucast_eq take_bit_nat_eq_self)
  then have "s ! 6 = 1" by (simp add: word_unat_eq_iff)
  then show ?thesis
    using script_split [OF len] len assms(2-4) by (simp add: burn_script_def withdrawal_consts be_bytes_of_be_bytes)
qed

lemma extract_output_eq:
  assumes "k \<le> unat (- 1 - first_index)"
  shows "extract_output cr g first_index k txid i out
    = Inr (map_option (burn_claim cr g (first_index + word_of_nat k) txid i) (decode_burn out))"
proof (cases "decode_burn out")
  case (Some b)
  then have b: "burn_valid b" "out = encode_burn b" by (simp_all add: decode_burn_iff)
  then have v: "b_asset b \<noteq> 0" "b_vault b \<noteq> 0" "b_recipient b \<noteq> 0" and a: "0 < unat (b_amount b)" "unat (b_amount b) \<le> 20000000 * 1000000"
    by (simp_all add: burn_valid_def)
  from burn_amount [OF a] v assms Some show ?thesis
    by (simp add: extract_output_def b(2) burn_script_fields burn_script_fields(2) [unfolded One_nat_def] length_burn_script withdrawal_consts of_be_bytes_inverse
        USDD_UNITS_PER_USDT_MICRO_def burn_claim_def Let_def)
next
  case None
  let ?s = "scriptPubKey out"
  let ?b = "\<lparr>b_asset = GetAsset (nAsset out), b_vault = of_be_bytes (take 32 (drop 7 ?s)),
    b_recipient = of_be_bytes (take 20 (drop 39 ?s)), b_amount = of_be_bytes (take 8 (drop 59 ?s))\<rparr>"
  have no: "\<not> (burn_valid ?b \<and> out = encode_burn ?b)" using None by (auto simp: decode_burn_def Let_def split: if_splits)
  show ?thesis
  proof (rule ccontr)
    assume "\<not> ?thesis"
    then have c: "length ?s = WITHDRAWAL_SCRIPT_SIZE" "?s ! 0 = OP_RETURN" "?s ! 1 = word_of_nat WITHDRAWAL_SCRIPT_PUSH_SIZE"
        "take 4 (drop 2 ?s) = text_bytes WITHDRAWAL_MAGIC" "(ucast (?s ! 6) :: 32 word) = WITHDRAWAL_PROTOCOL_VERSION"
      and e: "asset_IsExplicit (nAsset out)" "value_IsExplicit (nValue out)" "nNonce out = []"
      and z: "GetAsset (nAsset out) \<noteq> 0" "(of_be_bytes (take 32 (drop 7 ?s)) :: u256) \<noteq> 0" "(of_be_bytes (take 20 (drop 39 ?s)) :: 160 word) \<noteq> 0"
      and a: "ReadU64BE (drop 59 ?s) \<noteq> 0" "\<not> ReadU64BE (drop 59 ?s) > MAX_WITHDRAWAL_USDT_MICRO"
        "ReadU64BE (drop 59 ?s) * USDD_UNITS_PER_USDT_MICRO = GetAmount (nValue out)"
      using None assms unfolding extract_output_def Let_def by (simp_all split: if_splits)
    have "burn_valid ?b" using z amount_valid [OF a(1,2)] by (simp add: burn_valid_def ReadU64BE_def)
    moreover have "out = encode_burn ?b"
      using script_canonical [OF c] explicit_asset [OF e(1)] explicit_value [OF e(2)] e(3) a(3)
      by (cases out) (simp add: encode_burn_def ReadU64BE_def USDD_UNITS_PER_USDT_MICRO_def)
    ultimately show False using no by blast
  qed
qed

text \<open>Beyond the index bound the extraction fails or skips the output.\<close>

lemma extract_output_Inr:
  assumes "extract_output cr g first_index k txid i out = Inr c"
  shows "c = map_option (burn_claim cr g (first_index + word_of_nat k) txid i) (decode_burn out)"
proof (cases "k \<le> unat (- 1 - first_index)")
  case True
  with assms extract_output_eq show ?thesis by simp
next
  case False
  then have c: "c = None" using assms unfolding extract_output_def Let_def by (simp split: if_splits)
  have "extract_output cr g first_index 0 txid i out = Inr None"
    using assms False unfolding extract_output_def Let_def c by (simp split: if_splits)
  with c show ?thesis by (simp add: extract_output_eq)
qed

section \<open>Claims of a block\<close>

type_synonym placed_burn = "u256 \<times> 32 word \<times> burn"

text \<open>The canonical burns of a transaction, from output \<open>n\<close> on, and of a block, in their order.\<close>

definition burns_from :: "u256 \<Rightarrow> nat \<Rightarrow> burn_output list \<Rightarrow> placed_burn list" where
  "burns_from txid n outs =
     List.map_filter (\<lambda>(i, out). map_option (\<lambda>b. (txid, word_of_nat i, b)) (decode_burn out)) (enumerate n outs)"

definition tx_burns :: "block_tx option list \<Rightarrow> placed_burn list" where
  "tx_burns txs = concat (map (\<lambda>tx. burns_from (DisplayBytes (bt_hash (the tx))) 0 (bt_vout (the tx))) txs)"

definition numbered_claims :: "crypto \<Rightarrow> u256 \<Rightarrow> nat \<Rightarrow> placed_burn list \<Rightarrow> EthereumWithdrawalClaim list" where
  "numbered_claims cr g first bs = map (\<lambda>(k, txid, i, b). burn_claim cr g (word_of_nat k) txid i b) (enumerate first bs)"

lemma length_numbered [simp]: "length (numbered_claims cr g n bs) = length bs"
  by (simp add: numbered_claims_def)

lemma numbered_append:
  "numbered_claims cr g n (bs @ bs') = numbered_claims cr g n bs @ numbered_claims cr g (n + length bs) bs'"
  by (simp add: numbered_claims_def enumerate_append_eq)

lemma burns_from_Cons:
  "burns_from txid n (out # outs) = (case decode_burn out of None \<Rightarrow> [] | Some b \<Rightarrow> [(txid, word_of_nat n, b)]) @ burns_from txid (Suc n) outs"
  by (simp add: burns_from_def map_filter_simps split: option.split)

lemma burns_from_Nil [simp]: "burns_from txid n [] = []"
  by (simp add: burns_from_def map_filter_simps)

lemma numbered_snoc:
  "(case map_option (burn_claim cr g (word_of_nat f + word_of_nat (length bs)) txid (word_of_nat n)) (decode_burn out) of
      None \<Rightarrow> numbered_claims cr g f bs | Some c \<Rightarrow> numbered_claims cr g f bs @ [c])
    = numbered_claims cr g f (bs @ (case decode_burn out of None \<Rightarrow> [] | Some b \<Rightarrow> [(txid, word_of_nat n, b)]))"
  by (simp add: numbered_append split: option.split) (simp add: numbered_claims_def)

lemma unat_complement: "unat (- 1 - (w :: 64 word)) = 2 ^ 64 - 1 - unat w"
proof -
  have "w \<le> - 1" by simp
  then show ?thesis by (simp add: unat_sub unat_max)
qed

lemma extract_outputs_eq:
  "f < 2 ^ 64 \<Longrightarrow> f + length bs + length (burns_from txid n outs) < 2 ^ 64 \<Longrightarrow>
    extract_outputs cr g (word_of_nat f) txid (word_of_nat n) outs (numbered_claims cr g f bs)
      = Inr (numbered_claims cr g f (bs @ burns_from txid n outs))"
proof (induction outs arbitrary: bs n)
  case (Cons out outs)
  let ?b = "case decode_burn out of None \<Rightarrow> [] | Some b \<Rightarrow> [(txid, word_of_nat n, b)]"
  have "unat (word_of_nat f :: 64 word) = f" using Cons.prems(1) by (simp add: unsigned_of_nat take_bit_nat_eq_self)
  then have "length bs \<le> unat (- 1 - (word_of_nat f :: 64 word))" using Cons.prems by (simp add: unat_complement)
  note out = extract_output_eq [OF this, of cr g txid "word_of_nat n" out]
  show ?case
    unfolding extract_outputs.simps length_numbered out bind_res_simps numbered_snoc
    using Cons.IH [of "bs @ ?b" "Suc n"] Cons.prems by (simp add: burns_from_Cons add.commute)
qed simp

lemma extract_outputs_Inr:
  "extract_outputs cr g (word_of_nat f) txid (word_of_nat n) outs (numbered_claims cr g f bs) = Inr claims \<Longrightarrow>
    claims = numbered_claims cr g f (bs @ burns_from txid n outs)"
proof (induction outs arbitrary: bs n)
  case (Cons out outs)
  let ?b = "case decode_burn out of None \<Rightarrow> [] | Some b \<Rightarrow> [(txid, word_of_nat n, b)]"
  from Cons.prems obtain c where c: "extract_output cr g (word_of_nat f) (length bs) txid (word_of_nat n) out = Inr c"
    and r: "extract_outputs cr g (word_of_nat f) txid (word_of_nat n + 1) outs
      (case c of None \<Rightarrow> numbered_claims cr g f bs | Some c \<Rightarrow> numbered_claims cr g f bs @ [c]) = Inr claims"
    by (auto simp: bind_res_Inr)
  from Cons.IH [of "Suc n" "bs @ ?b"] r show ?case
    unfolding extract_output_Inr [OF c] numbered_snoc by (simp add: burns_from_Cons add.commute)
qed simp

lemma tx_burns_Cons: "tx_burns (Some tx # txs) = burns_from (DisplayBytes (bt_hash tx)) 0 (bt_vout tx) @ tx_burns txs"
  by (simp add: tx_burns_def)

lemma extract_txs_eq:
  "f < 2 ^ 64 \<Longrightarrow> f + length bs + length (tx_burns txs) < 2 ^ 64 \<Longrightarrow> None \<notin> set txs \<Longrightarrow>
    extract_txs cr g (word_of_nat f) txs (numbered_claims cr g f bs) = Inr (numbered_claims cr g f (bs @ tx_burns txs))"
proof (induction txs arbitrary: bs)
  case (Cons tx txs)
  then obtain t where t: "tx = Some t" by (cases tx) auto
  let ?b = "burns_from (DisplayBytes (bt_hash t)) 0 (bt_vout t)"
  have "extract_outputs cr g (word_of_nat f) (DisplayBytes (bt_hash t)) 0 (bt_vout t) (numbered_claims cr g f bs)
      = Inr (numbered_claims cr g f (bs @ ?b))"
    using extract_outputs_eq [of f bs "DisplayBytes (bt_hash t)" 0 "bt_vout t" cr g] Cons.prems by (simp add: t tx_burns_Cons)
  then show ?case using Cons.IH [of "bs @ ?b"] Cons.prems by (simp add: t tx_burns_Cons)
qed (simp add: tx_burns_def)

lemma extract_txs_Inr:
  "extract_txs cr g (word_of_nat f) txs (numbered_claims cr g f bs) = Inr claims \<Longrightarrow>
    None \<notin> set txs \<and> claims = numbered_claims cr g f (bs @ tx_burns txs)"
proof (induction txs arbitrary: bs)
  case (Cons tx txs)
  then obtain t c where t: "tx = Some t"
    and c: "extract_outputs cr g (word_of_nat f) (DisplayBytes (bt_hash t)) 0 (bt_vout t) (numbered_claims cr g f bs) = Inr c"
    "extract_txs cr g (word_of_nat f) txs c = Inr claims"
    by (cases tx) (auto simp: bind_res_Inr)
  have "c = numbered_claims cr g f (bs @ burns_from (DisplayBytes (bt_hash t)) 0 (bt_vout t))"
    using extract_outputs_Inr [of cr g f _ 0] c(1) by simp
  from Cons.IH [OF c(2) [unfolded this]] t show ?case by (simp add: tx_burns_Cons)
qed (simp add: tx_burns_def)

text \<open>The extraction finds exactly the canonical burns; it fails for a null genesis, a null transaction or an index overflow.\<close>

lemma Extract_exact:
  assumes "f < 2 ^ 64"
  shows "ExtractEthereumWithdrawals cr blk genesis (word_of_nat f) = Inr claims \<Longrightarrow> genesis \<noteq> 0 \<and> None \<notin> set (block_vtx blk)
      \<and> claims = numbered_claims cr (DisplayBytes genesis) f (tx_burns (block_vtx blk))"
    and "genesis \<noteq> 0 \<Longrightarrow> None \<notin> set (block_vtx blk) \<Longrightarrow> f + length (tx_burns (block_vtx blk)) < 2 ^ 64 \<Longrightarrow>
      ExtractEthereumWithdrawals cr blk genesis (word_of_nat f) = Inr (numbered_claims cr (DisplayBytes genesis) f (tx_burns (block_vtx blk)))"
  using extract_txs_Inr [of cr "DisplayBytes genesis" f "block_vtx blk" "[]" claims]
    extract_txs_eq [of f "[]" "block_vtx blk" cr "DisplayBytes genesis"] assms
  by (auto simp: ExtractEthereumWithdrawals_def guard_Inr numbered_claims_def)

end
