(* ===== verification/Withdrawal_Chain.thy ===== *)
theory Withdrawal_Chain
  imports Withdrawal_Block
begin

text \<open>
  The withdrawal accumulator along a chain of blocks: applying a block, the proof service, and the
  serialized state.
\<close>

section \<open>Applying blocks\<close>

lemma represents_count:
  "represents cr st ls \<Longrightarrow> acc_count st = word_of_nat (length ls) \<and> length ls < 2 ^ 64"
proof -
  assume "represents cr st ls"
  then have "unat (acc_count st) = length ls" by (simp add: represents_def)
  then show ?thesis using unsigned_less [of "acc_count st", where ?'a = nat] by (auto simp: word_unat_eq_iff unsigned_of_nat take_bit_nat_eq_self)
qed

abbreviation block_claims :: "crypto \<Rightarrow> u256 \<Rightarrow> nat \<Rightarrow> block \<Rightarrow> EthereumWithdrawalClaim list" where
  "block_claims cr genesis f blk \<equiv> numbered_claims cr (DisplayBytes genesis) f (tx_burns (block_vtx blk))"

lemma Apply_exact:
  assumes "represents cr previous ls"
  shows "ApplyEthereumWithdrawals cr blk genesis previous = Inr (st, claims) \<longleftrightarrow>
    genesis \<noteq> 0 \<and> None \<notin> set (block_vtx blk) \<and> claims = block_claims cr genesis (length ls) blk
    \<and> length ls + length claims < 2 ^ 64 \<and> represents cr st (ls @ map claim_leaf claims)"
proof -
  note c = represents_count [OF assms]
  have "ApplyEthereumWithdrawals cr blk genesis previous = Inr (st, claims) \<longleftrightarrow>
      ExtractEthereumWithdrawals cr blk genesis (word_of_nat (length ls)) = Inr claims
      \<and> append_all cr previous (map claim_leaf claims) = Inr st"
    using represents_sane [OF assms] c by (auto simp: ApplyEthereumWithdrawals_def bind_res_Inr guard_Inr)
  also have "\<dots> \<longleftrightarrow> ExtractEthereumWithdrawals cr blk genesis (word_of_nat (length ls)) = Inr claims
      \<and> length ls + length claims < 2 ^ 64 \<and> represents cr st (ls @ map claim_leaf claims)"
    using append_all_exact [OF assms] c by auto
  finally show ?thesis
    using Extract_exact [where f = "length ls" and cr = cr and blk = blk and genesis = genesis] c by auto
qed

lemma connect_exact:
  assumes "represents cr previous ls"
  shows "connect_accumulator cr genesis (Some previous) None blk = Inr st \<longleftrightarrow>
    (\<exists>claims. ApplyEthereumWithdrawals cr blk genesis previous = Inr (st, claims))"
  by (auto simp: connect_accumulator_def guard_Inr split: sum.splits)

section \<open>Chains\<close>

text \<open>Entries that were connected one after the other, none of them pruned.\<close>

fun connected :: "crypto \<Rightarrow> u256 \<Rightarrow> accumulator \<Rightarrow> chain_entry list \<Rightarrow> bool" where
  "connected cr genesis previous [] = True"
| "connected cr genesis previous (e # es) =
     (case (ce_block e, ce_accumulator e) of
        (Some blk, Some st) \<Rightarrow> connect_accumulator cr genesis (Some previous) None blk = Inr st \<and> connected cr genesis st es
      | _ \<Rightarrow> False)"

fun tip_accumulator :: "accumulator \<Rightarrow> chain_entry list \<Rightarrow> accumulator" where
  "tip_accumulator st [] = st"
| "tip_accumulator st (e # es) = tip_accumulator (the (ce_accumulator e)) es"

definition chain_burns :: "chain_entry list \<Rightarrow> placed_burn list" where
  "chain_burns es = concat (map (\<lambda>e. tx_burns (block_vtx (the (ce_block e)))) es)"

lemma chain_burns_simps [simp]:
  "chain_burns [] = []" "chain_burns (e # es) = tx_burns (block_vtx (the (ce_block e))) @ chain_burns es"
  by (simp_all add: chain_burns_def)

text \<open>A call that runs alone and is not interrupted.\<close>

definition uninterrupted :: "rpc_call \<Rightarrow> bool" where
  "uninterrupted call \<longleftrightarrow> \<not> proof_running call \<and> scan_interrupt call = (\<lambda>_. None) \<and> read_interrupt call = (\<lambda>_. None)
     \<and> final_interrupt call = None"

lemma interruption_None [simp]: "interruption_point None k = k"
  by (simp add: interruption_point_def)

lemma chain_claims:
  assumes "connected cr genesis previous es" and "represents cr previous (map claim_leaf claims)" and "uninterrupted call"
  shows "represents cr (tip_accumulator previous es)
      (map claim_leaf (claims @ numbered_claims cr (DisplayBytes genesis) (length claims) (chain_burns es)))
    \<and> (\<exists>bs. withdrawal_blocks call height (acc_count previous) es = Inr bs
        \<and> (\<forall>k. reconstruct_claims cr call genesis k bs claims
          = Inr (claims @ numbered_claims cr (DisplayBytes genesis) (length claims) (chain_burns es))))"
  using assms(1,2)
proof (induction es arbitrary: previous claims height)
  case Nil
  then show ?case by (simp add: numbered_claims_def)
next
  case (Cons e es)
  obtain blk st where e: "ce_block e = Some blk" "ce_accumulator e = Some st"
    and con: "connect_accumulator cr genesis (Some previous) None blk = Inr st" "connected cr genesis st es"
    using Cons.prems(1) by (auto split: option.splits)
  let ?new = "block_claims cr genesis (length claims) blk"
  have app: "genesis \<noteq> 0" "None \<notin> set (block_vtx blk)" "length claims + length ?new < 2 ^ 64"
    and st: "represents cr st (map claim_leaf (claims @ ?new))"
    using con(1) connect_exact [OF Cons.prems(2)] Apply_exact [OF Cons.prems(2)] by auto
  note cp = represents_count [OF Cons.prems(2)] and cs = represents_count [OF st]
  have ext: "ExtractEthereumWithdrawals cr blk genesis (word_of_nat (length claims)) = Inr ?new"
    by (rule Extract_exact(2)) (use app in simp_all)
  obtain bs where IH: "represents cr (tip_accumulator st es) (map claim_leaf ((claims @ ?new)
        @ numbered_claims cr (DisplayBytes genesis) (length (claims @ ?new)) (chain_burns es)))"
      "withdrawal_blocks call (Suc height) (acc_count st) es = Inr bs"
      "\<forall>k. reconstruct_claims cr call genesis k bs (claims @ ?new)
        = Inr ((claims @ ?new) @ numbered_claims cr (DisplayBytes genesis) (length (claims @ ?new)) (chain_burns es))"
    using Cons.IH [OF con(2) st, of "Suc height"] by blast
  have "unat (acc_count st) = length claims + length ?new" "unat (acc_count previous) = length claims"
    using st Cons.prems(2) by (simp_all add: represents_def)
  then have mono: "\<not> acc_count st < acc_count previous" and new: "acc_count st = acc_count previous \<longleftrightarrow> ?new = []"
    by (simp_all add: word_less_nat_alt word_unat_eq_iff flip: length_0_conv)
  let ?bs = "if acc_count st \<noteq> acc_count previous then e # bs else bs"
  have "withdrawal_blocks call height (acc_count previous) (e # es) = Inr ?bs"
    using e IH(2) mono assms(3) by (simp add: uninterrupted_def)
  moreover have "reconstruct_claims cr call genesis k ?bs claims
      = Inr ((claims @ ?new) @ numbered_claims cr (DisplayBytes genesis) (length (claims @ ?new)) (chain_burns es))" for k
    using new e ext IH(3) assms(3) by (cases "?new = []") (simp_all add: uninterrupted_def)
  ultimately show ?case using IH e by (simp add: numbered_append)
qed

section \<open>Proofs of claims\<close>

lemma leaf_burn_claim: "claim_leaf (burn_claim cr g n txid i b) = ComputeWithdrawalLeaf cr (burn_claim cr g n txid i b)"
  by (simp add: burn_claim_def ComputeWithdrawalLeaf_def leaf_message_def Let_def)

lemma leaf_message_inject:
  "leaf_message c = leaf_message d \<Longrightarrow> asset_id c = asset_id d \<and> vault_id c = vault_id d \<and> burn_id c = burn_id d
    \<and> claim_index c = claim_index d \<and> amount_usdt_micro c = amount_usdt_micro d \<and> recipient c = recipient d"
  by (simp add: leaf_message_def)

lemma numbered_nth:
  assumes "i < length bs"
  shows "claim_index (numbered_claims cr g 0 bs ! i) = word_of_nat i"
    "claim_leaf (numbered_claims cr g 0 bs ! i) = ComputeWithdrawalLeaf cr (numbered_claims cr g 0 bs ! i)"
proof -
  obtain txid n b where b: "bs ! i = (txid, n, b)" by (cases "bs ! i")
  then have "numbered_claims cr g 0 bs ! i = burn_claim cr g (word_of_nat i) txid n b"
    using assms by (simp add: numbered_claims_def nth_enumerate_eq)
  then show "claim_index (numbered_claims cr g 0 bs ! i) = word_of_nat i"
    "claim_leaf (numbered_claims cr g 0 bs ! i) = ComputeWithdrawalLeaf cr (numbered_claims cr g 0 bs ! i)"
    by (simp add: burn_claim_def Let_def, simp add: leaf_burn_claim)
qed

lemma Build_exact:
  assumes "length bs < 2 ^ 64" and "unat index < length bs" and claims_def: "claims = numbered_claims cr g 0 bs"
  shows "BuildWithdrawalInclusionProof cr claims index =
    Inr (claims ! unat index, honest_path cr (map claim_leaf claims) index, merkle cr 64 (map claim_leaf claims))"
proof -
  let ?ls = "map claim_leaf claims" and ?r = "sibling_loop cr 0 64 (map claim_leaf claims) (unat index)"
  have len: "length claims = length bs" by (simp add: claims_def)
  have canon: "list_all (\<lambda>i. \<not> (unat (claim_index (claims ! i)) \<noteq> i \<or> claim_leaf (claims ! i) \<noteq> ComputeWithdrawalLeaf cr (claims ! i)))
      [0..<length claims]"
    using assms(1) numbered_nth [of _ bs cr g] by (simp add: list_all_iff len claims_def unsigned_of_nat take_bit_nat_eq_self)
  have l: "length ?ls < 2 ^ 64" using assms(1) len by simp
  note p = honest_path_verifies [OF l, of cr index]
  have "snd ?r \<noteq> []" using assms(2) len by (auto simp: sibling_loop_layers fold_next_layer_Nil)
  then have hd: "hd (snd ?r) = merkle cr 64 ?ls" using p(3) by (simp add: layer_at_def hd_conv_nth)
  have leaf: "layer_at cr 0 ?ls (unat index) = claim_leaf (claims ! unat index)"
    using assms(2) len by (simp add: layer_at_def)
  show ?thesis
    using canon assms(2) len hd p(1) unfolding leaf
    by (simp add: BuildWithdrawalInclusionProof_def Let_def honest_path_def WITHDRAWAL_ACCUMULATOR_DEPTH_def case_prod_beta)
qed

section \<open>Serialized state\<close>

abbreviation occupied_bytes :: "64 word \<Rightarrow> nat \<Rightarrow> u256 \<Rightarrow> byte list" where
  "occupied_bytes n level h \<equiv> (if drop_bit level n AND 1 \<noteq> 0 then bytes32 h else [])"

lemma read_bytes_append [simp]: "length b = n \<Longrightarrow> read_bytes n (b @ r) = Inr (b, r)"
  by (simp add: read_bytes_def)

lemma read_bytesD: "read_bytes n s = Inr (b, r) \<Longrightarrow> length b = n \<and> s = b @ r"
  by (auto simp: read_bytes_def guard_Inr)

lemma read_frontier_bytes:
  "(\<And>l. l \<in> set levels \<Longrightarrow> drop_bit l n AND 1 = 0 \<Longrightarrow> F l = 0) \<Longrightarrow>
    read_frontier n levels (concat (map (\<lambda>l. occupied_bytes n l (F l)) levels) @ r) = Inr (map F levels, r)"
  by (induction levels) (simp_all add: of_be_bytes_inverse)

lemma read_frontierD:
  "read_frontier n levels s = Inr (f, r) \<Longrightarrow> length f = length levels \<and> s = concat (map2 (occupied_bytes n) levels f) @ r"
proof (induction levels arbitrary: s f)
  case (Cons l levels)
  show ?case
  proof (cases "drop_bit l n AND 1 = 0")
    case True
    with Cons show ?thesis by (auto simp: bind_res_Inr)
  next
    case False
    with Cons.prems obtain h s' f' where "read_bytes 32 s = Inr (h, s')" "read_frontier n levels s' = Inr (f', r)" "f = of_be_bytes h # f'"
      by (auto simp: bind_res_Inr)
    with False Cons.IH read_bytesD show ?thesis by (force simp: be_bytes_of_be_bytes)
  qed
qed simp

lemma map2_levels: "length f = d \<Longrightarrow> map2 g [0..<d] f = map (\<lambda>l. g l (f ! l)) [0..<d]"
  by (rule nth_equalityI) simp_all

lemma deserialize_serialize:
  assumes "IsSane cr st" "length (acc_frontier st) = WITHDRAWAL_ACCUMULATOR_DEPTH"
  shows "deserialize_accumulator cr (serialize_accumulator st @ r) = Inr (st, r)"
proof -
  let ?n = "acc_count st" and ?f = "acc_frontier st" and ?D = WITHDRAWAL_ACCUMULATOR_DEPTH
  let ?s = "concat (map (\<lambda>l. occupied_bytes ?n l (?f ! l)) [0..<?D])"
  have f: "read_frontier ?n [0..<?D] (?s @ r) = Inr (map ((!) ?f) [0..<?D], r)"
    by (rule read_frontier_bytes) (use assms in \<open>auto simp: IsSane_def list_all_iff\<close>)
  moreover have "map ((!) ?f) [0..<?D] = ?f" using assms(2) map_nth [of ?f] by simp
  moreover have v: "read_bytes 1 (serialize_accumulator st @ r)
      = Inr ([WITHDRAWAL_ACCUMULATOR_VERSION], le_bytes 8 ?n @ bytes32 (acc_root st) @ ?s @ r)"
    using read_bytes_append [of "[WITHDRAWAL_ACCUMULATOR_VERSION]" 1 "le_bytes 8 ?n @ bytes32 (acc_root st) @ ?s @ r"]
    by (simp add: serialize_accumulator_def)
  moreover have "of_le_bytes (le_bytes 8 ?n) = ?n" by (simp add: of_le_bytes_take take_bit_word_eq_self)
  ultimately show ?thesis
    using assms(1) unfolding deserialize_accumulator_def by (cases st) (simp add: of_be_bytes_inverse Let_def)
qed

lemma deserializeD:
  assumes "deserialize_accumulator cr s = Inr (st, r)"
  shows "IsSane cr st" "length (acc_frontier st) = WITHDRAWAL_ACCUMULATOR_DEPTH" "s = serialize_accumulator st @ r"
proof -
  let ?D = WITHDRAWAL_ACCUMULATOR_DEPTH
  obtain s1 n s2 h s3 f where rd: "read_bytes 1 s = Inr ([WITHDRAWAL_ACCUMULATOR_VERSION], s1)" "read_bytes 8 s1 = Inr (n, s2)"
      "read_bytes 32 s2 = Inr (h, s3)" "read_frontier (of_le_bytes n) [0..<?D] s3 = Inr (f, r)"
    and st: "st = \<lparr>acc_count = of_le_bytes n, acc_root = of_be_bytes h, acc_frontier = f\<rparr>" and sane: "IsSane cr st"
    using assms by (auto simp: deserialize_accumulator_def bind_res_Inr guard_Inr Let_def)
  note d = read_bytesD [OF rd(1)] read_bytesD [OF rd(2)] read_bytesD [OF rd(3)] read_frontierD [OF rd(4)]
  have "le_bytes 8 (of_le_bytes n :: 64 word) = n" using le_bytes_of_le_bytes [of n, where ?'a = 64] d(2) by simp
  moreover have "bytes32 (of_be_bytes h) = h" using d(3) by (simp add: be_bytes_of_be_bytes)
  moreover have "length f = ?D" and "s3 = concat (map (\<lambda>l. occupied_bytes (of_le_bytes n) l (f ! l)) [0..<?D]) @ r"
    using d(4) map2_levels [of f ?D "occupied_bytes (of_le_bytes n)"] by simp_all
  ultimately show "IsSane cr st" "length (acc_frontier st) = ?D" "s = serialize_accumulator st @ r"
    using sane d(1-3) by (simp_all add: st serialize_accumulator_def cong: if_cong)
qed

end
