(* ===== verification/Withdrawal_Index.thy ===== *)
theory Withdrawal_Index
  imports Withdrawal_Chain "HOL-Library.AList"
begin

text \<open>
  The accumulators in the node's block index and its database: \<^verbatim>\<open>src/src/node/blockstorage.cpp\<close> and the steps of
  \<^verbatim>\<open>src/src/validation.cpp\<close> that write them. Blocks of all branches are in the index; a restart may come at any
  time and finds the last flushed state.
\<close>

section \<open>Model\<close>

text \<open>
  The fields of \<open>CBlockIndex\<close> that matter: predecessor, whether the scripts were validated, whether the block
  was marked as failed, and the accumulator. A header hash is not null.
\<close>

record index_entry =
  ie_prev :: "u256 option"
  ie_scripts :: bool
  ie_failed :: bool
  ie_accumulator :: "accumulator option"

record disk_entry =
  hashPrev :: u256
  de_scripts :: bool
  de_failed :: bool

record node_index =
  m_block_index :: "u256 \<rightharpoonup> index_entry"
  m_dirty_blockindex :: "u256 list"
  db_index :: "(u256 \<times> disk_entry) list"
  db_accumulator :: "u256 \<rightharpoonup> byte list"

definition new_entry :: "u256 option \<Rightarrow> index_entry" where
  "new_entry prev = \<lparr>ie_prev = prev, ie_scripts = False, ie_failed = False, ie_accumulator = None\<rparr>"

definition set_entry :: "node_index \<Rightarrow> u256 \<Rightarrow> index_entry \<Rightarrow> node_index" where
  "set_entry s h e = s\<lparr>m_block_index := (m_block_index s)(h \<mapsto> e), m_dirty_blockindex := List.insert h (m_dirty_blockindex s)\<rparr>"

definition AddToBlockIndex :: "node_index \<Rightarrow> u256 \<Rightarrow> u256 \<Rightarrow> node_index" where
  "AddToBlockIndex s h prev =
     (if m_block_index s h \<noteq> None then s
      else set_entry s h (new_entry (if m_block_index s prev \<noteq> None then Some prev else None)))"

text \<open>
  The accumulator in \<open>ConnectBlock\<close>, for the entry of the genesis block and of any other one. The other checks of
  \<open>ConnectBlock\<close> only refuse blocks.
\<close>

definition connect_genesis :: "crypto \<Rightarrow> node_index \<Rightarrow> u256 \<Rightarrow> index_entry \<Rightarrow> node_index res" where
  "connect_genesis cr s h e =
     guard (\<not> (ie_accumulator e \<noteq> None \<and> ie_accumulator e \<noteq> Some (Empty_accumulator cr)))
       ''genesis has a nonempty USDD withdrawal accumulator''
       (Inr (set_entry s h (e\<lparr>ie_accumulator := Some (Empty_accumulator cr)\<rparr>)))"

definition prior_accumulator :: "node_index \<Rightarrow> index_entry \<Rightarrow> accumulator option" where
  "prior_accumulator s e = Option.bind (ie_prev e) (\<lambda>p. Option.bind (m_block_index s p) ie_accumulator)"

definition connect_index :: "crypto \<Rightarrow> u256 \<Rightarrow> node_index \<Rightarrow> index_entry \<Rightarrow> block \<Rightarrow> node_index res" where
  "connect_index cr genesis s e blk =
     (if block_hash blk = genesis then connect_genesis cr s genesis e
      else bind_res (connect_accumulator cr genesis (prior_accumulator s e) (ie_accumulator e) blk) (\<lambda>st.
        Inr (set_entry s (block_hash blk)
          (e\<lparr>ie_accumulator := Some st, ie_scripts := ie_scripts e \<or> \<not> ie_failed e\<rparr>))))"

text \<open>The checkpoint of a block from its predecessor's entry.\<close>

definition DeriveUsddBip301CriticalHash :: "crypto \<Rightarrow> u256 \<Rightarrow> byte option \<Rightarrow> index_entry option \<Rightarrow> block \<Rightarrow> (accumulator \<times> u256) res" where
  "DeriveUsddBip301CriticalHash cr genesis drivechain_slot predecessor blk =
     (case drivechain_slot of
        None \<Rightarrow> Inl ''USDD BIP301 checkpoint requires a configured sidechain slot''
      | Some slot \<Rightarrow>
          (case Option.bind predecessor ie_accumulator of
             None \<Rightarrow> Inl ''USDD BIP301 checkpoint requires the predecessor accumulator; reindex required''
           | Some previous \<Rightarrow> DeriveWithdrawalBip301CriticalHash cr blk genesis slot previous))"

text \<open>Writing one entry of a batch, and \<open>WriteBlockIndexDB\<close>; a failed assertion is an error.\<close>

definition disk_of :: "index_entry \<Rightarrow> disk_entry" where
  "disk_of e = \<lparr>hashPrev = (case ie_prev e of None \<Rightarrow> 0 | Some p \<Rightarrow> p), de_scripts = ie_scripts e, de_failed = ie_failed e\<rparr>"

fun WriteBatchSync :: "crypto \<Rightarrow> (u256 \<rightharpoonup> index_entry) \<Rightarrow> u256 list \<Rightarrow> (u256 \<times> disk_entry) list \<times> (u256 \<rightharpoonup> byte list)
    \<Rightarrow> ((u256 \<times> disk_entry) list \<times> (u256 \<rightharpoonup> byte list)) res" where
  "WriteBatchSync cr idx [] db = Inr db"
| "WriteBatchSync cr idx (h # hs) (ds, accs) =
     (case idx h of
        None \<Rightarrow> Inl ''dangling block index pointer''
      | Some e \<Rightarrow>
          (case ie_accumulator e of
             Some st \<Rightarrow> guard (IsSane cr st) ''assertion failed''
               (WriteBatchSync cr idx hs (AList.update h (disk_of e) ds, accs(h \<mapsto> serialize_accumulator st)))
           | None \<Rightarrow> WriteBatchSync cr idx hs (AList.update h (disk_of e) ds, accs(h := None))))"

definition WriteBlockIndexDB :: "crypto \<Rightarrow> node_index \<Rightarrow> node_index res" where
  "WriteBlockIndexDB cr s =
     bind_res (WriteBatchSync cr (m_block_index s) (m_dirty_blockindex s) (db_index s, db_accumulator s)) (\<lambda>(ds, accs).
       Inr (s\<lparr>m_dirty_blockindex := [], db_index := ds, db_accumulator := accs\<rparr>))"

definition load_accumulator :: "crypto \<Rightarrow> u256 \<Rightarrow> (u256 \<rightharpoonup> byte list) \<Rightarrow> u256 \<Rightarrow> disk_entry \<Rightarrow> accumulator option res" where
  "load_accumulator cr genesis accs h d =
     (case accs h of
        Some bytes \<Rightarrow>
          (case deserialize_accumulator cr bytes of
             Inl _ \<Rightarrow> Inl ''malformed persisted USDD withdrawal accumulator''
           | Inr (st, _) \<Rightarrow> guard (IsSane cr st) ''malformed persisted USDD withdrawal accumulator'' (Inr (Some st)))
      | None \<Rightarrow>
          if h = genesis then Inr (Some (Empty_accumulator cr))
          else guard (\<not> (de_scripts d \<and> \<not> de_failed d)) ''missing derived USDD withdrawal accumulator for validated block; reindex required''
            (Inr None))"

fun load_entries :: "crypto \<Rightarrow> u256 \<Rightarrow> (u256 \<rightharpoonup> byte list) \<Rightarrow> (u256 \<times> disk_entry) list \<Rightarrow> (u256 \<times> index_entry) list res" where
  "load_entries cr genesis accs [] = Inr []"
| "load_entries cr genesis accs ((h, d) # ds) =
     bind_res (load_accumulator cr genesis accs h d) (\<lambda>a. bind_res (load_entries cr genesis accs ds) (\<lambda>es.
       Inr ((h, \<lparr>ie_prev = (if hashPrev d = 0 then None else Some (hashPrev d)), ie_scripts = de_scripts d, ie_failed = de_failed d,
                 ie_accumulator = a\<rparr>) # es)))"

text \<open>\<open>insertBlockIndex\<close> also makes an entry for a predecessor that has none on disk.\<close>

definition loaded_index :: "(u256 \<times> index_entry) list \<Rightarrow> u256 \<rightharpoonup> index_entry" where
  "loaded_index es h =
     (case map_of es h of
        Some e \<Rightarrow> Some e
      | None \<Rightarrow> if list_ex (\<lambda>(_, e). ie_prev e = Some h) es then Some (new_entry None) else None)"

definition check_continuity :: "crypto \<Rightarrow> u256 \<Rightarrow> (u256 \<rightharpoonup> index_entry) \<Rightarrow> u256 \<times> index_entry \<Rightarrow> unit res" where
  "check_continuity cr genesis idx x =
     (case x of (h, e) \<Rightarrow>
       case ie_accumulator e of
         None \<Rightarrow> Inr ()
       | Some st \<Rightarrow>
           (case ie_prev e of
              None \<Rightarrow> guard (\<not> (h \<noteq> genesis \<or> st \<noteq> Empty_accumulator cr)) ''nonempty or misplaced genesis USDD withdrawal accumulator'' (Inr ())
            | Some p \<Rightarrow>
                (case Option.bind (idx p) ie_accumulator of
                   None \<Rightarrow> Inl ''discontinuous USDD withdrawal accumulator''
                 | Some previous \<Rightarrow>
                     guard (\<not> acc_count st < acc_count previous) ''discontinuous USDD withdrawal accumulator''
                     (guard (\<not> (acc_count st = acc_count previous \<and> st \<noteq> previous))
                        ''USDD withdrawal accumulator changed without an appended leaf'' (Inr ())))))"

fun check_all_continuity :: "crypto \<Rightarrow> u256 \<Rightarrow> (u256 \<rightharpoonup> index_entry) \<Rightarrow> (u256 \<times> index_entry) list \<Rightarrow> unit res" where
  "check_all_continuity cr genesis idx [] = Inr ()"
| "check_all_continuity cr genesis idx (x # xs) =
     bind_res (check_continuity cr genesis idx x) (\<lambda>_. check_all_continuity cr genesis idx xs)"

text \<open>The iterator of the database visits the entries in the order of their keys.\<close>

definition LoadBlockIndexGuts :: "crypto \<Rightarrow> u256 \<Rightarrow> node_index \<Rightarrow> node_index res" where
  "LoadBlockIndexGuts cr genesis s =
     bind_res (load_entries cr genesis (db_accumulator s) (sort_key fst (db_index s))) (\<lambda>es.
       bind_res (check_all_continuity cr genesis (loaded_index es) es) (\<lambda>_.
         Inr (s\<lparr>m_block_index := loaded_index es, m_dirty_blockindex := []\<rparr>)))"

text \<open>
  The node: headers arrive (genesis first, others after their predecessor), blocks are connected on any branch and
  disconnected without a change of the index, marked as failed or reconsidered; the index is flushed, and the node
  may stop at any time and load the index again.
\<close>

inductive index_step :: "crypto \<Rightarrow> u256 \<Rightarrow> node_index \<Rightarrow> node_index \<Rightarrow> bool" for cr genesis where
  header: "h \<noteq> 0 \<Longrightarrow> (if h = genesis then prev = 0 else m_block_index s prev \<noteq> None)
    \<Longrightarrow> index_step cr genesis s (AddToBlockIndex s h prev)"
| connect: "m_block_index s (block_hash blk) = Some e \<Longrightarrow> connect_index cr genesis s e blk = Inr s' \<Longrightarrow> index_step cr genesis s s'"
| status: "m_block_index s h = Some e \<Longrightarrow> index_step cr genesis s (set_entry s h (e\<lparr>ie_failed := b\<rparr>))"
| flush: "WriteBlockIndexDB cr s = Inr s' \<Longrightarrow> index_step cr genesis s s'"
| restart: "LoadBlockIndexGuts cr genesis s = Inr s' \<Longrightarrow> index_step cr genesis s s'"

definition no_index :: node_index where
  "no_index = \<lparr>m_block_index = Map.empty, m_dirty_blockindex = [], db_index = [], db_accumulator = Map.empty\<rparr>"

definition index_reachable :: "crypto \<Rightarrow> u256 \<Rightarrow> node_index \<Rightarrow> bool" where
  "index_reachable cr genesis s \<longleftrightarrow> (index_step cr genesis)\<^sup>*\<^sup>* no_index s"

inductive_cases index_stepE: "index_step cr genesis s s'"

section \<open>Accumulators come from blocks\<close>

inductive derived :: "crypto \<Rightarrow> u256 \<Rightarrow> (u256 \<rightharpoonup> index_entry) \<Rightarrow> u256 \<Rightarrow> accumulator \<Rightarrow> bool" for cr genesis idx where
  base: "idx genesis = Some e \<Longrightarrow> ie_accumulator e = Some (Empty_accumulator cr) \<Longrightarrow> derived cr genesis idx genesis (Empty_accumulator cr)"
| step: "derived cr genesis idx p previous \<Longrightarrow> idx (block_hash blk) = Some e \<Longrightarrow> ie_prev e = Some p
    \<Longrightarrow> ie_accumulator e = Some st \<Longrightarrow> connect_accumulator cr genesis (Some previous) None blk = Inr st
    \<Longrightarrow> derived cr genesis idx (block_hash blk) st"

definition extends :: "(u256 \<rightharpoonup> index_entry) \<Rightarrow> (u256 \<rightharpoonup> index_entry) \<Rightarrow> bool" where
  "extends idx idx' \<longleftrightarrow> (\<forall>h e. idx h = Some e \<longrightarrow> (\<exists>e'. idx' h = Some e' \<and> ie_prev e' = ie_prev e
     \<and> (ie_accumulator e = None \<or> ie_accumulator e' = ie_accumulator e)))"

lemma derived_mono: "derived cr genesis idx h st \<Longrightarrow> extends idx idx' \<Longrightarrow> derived cr genesis idx' h st"
proof (induction rule: derived.induct)
  case (base e)
  then obtain e' where "idx' genesis = Some e'" "ie_accumulator e' = Some (Empty_accumulator cr)" by (force simp: extends_def)
  then show ?case by (rule derived.base)
next
  case (step p previous blk e st)
  then obtain e' where "idx' (block_hash blk) = Some e'" "ie_prev e' = Some p" "ie_accumulator e' = Some st"
    by (force simp: extends_def)
  with step show ?case by (blast intro: derived.step)
qed

lemma derived_acc: "derived cr genesis idx h st \<Longrightarrow> Option.bind (idx h) ie_accumulator = Some st"
  by (erule derived.cases) simp_all

lemma connect_represents:
  assumes "represents cr previous ls" and "connect_accumulator cr genesis (Some previous) persisted blk = Inr st"
  obtains claims :: "EthereumWithdrawalClaim list" where "represents cr st (ls @ map claim_leaf claims)"
proof -
  obtain claims where "ApplyEthereumWithdrawals cr blk genesis previous = Inr (st, claims)"
    using assms(2) by (auto simp: connect_accumulator_def guard_Inr split: sum.splits)
  then have "represents cr st (ls @ map claim_leaf claims)" using Apply_exact [OF assms(1), THEN iffD1] by blast
  then show thesis by (rule that)
qed

lemma derived_represents: "derived cr genesis idx h st \<Longrightarrow> \<exists>ls. represents cr st ls"
  by (induction rule: derived.induct) (use represents_Empty connect_represents in blast)+

lemma derived_sane:
  assumes "derived cr genesis idx h st"
  shows "IsSane cr st" "length (acc_frontier st) = WITHDRAWAL_ACCUMULATOR_DEPTH"
  using derived_represents [OF assms] represents_sane
  by (auto simp: represents_def WITHDRAWAL_ACCUMULATOR_DEPTH_def)

section \<open>Well-formed indices\<close>

definition entry_ok :: "crypto \<Rightarrow> u256 \<Rightarrow> (u256 \<rightharpoonup> index_entry) \<Rightarrow> u256 \<Rightarrow> index_entry \<Rightarrow> bool" where
  "entry_ok cr genesis idx h e \<longleftrightarrow> h \<noteq> 0 \<and> (ie_prev e = None \<longleftrightarrow> h = genesis) \<and> (\<forall>p. ie_prev e = Some p \<longrightarrow> idx p \<noteq> None)
     \<and> (ie_scripts e \<longrightarrow> ie_accumulator e \<noteq> None) \<and> (\<forall>st. ie_accumulator e = Some st \<longrightarrow> derived cr genesis idx h st)"

definition index_ok :: "crypto \<Rightarrow> u256 \<Rightarrow> (u256 \<rightharpoonup> index_entry) \<Rightarrow> bool" where
  "index_ok cr genesis idx \<longleftrightarrow> (\<forall>h e. idx h = Some e \<longrightarrow> entry_ok cr genesis idx h e)"

lemma entry_ok_mono: "entry_ok cr genesis idx h e \<Longrightarrow> extends idx idx' \<Longrightarrow> entry_ok cr genesis idx' h e"
  using derived_mono [of cr genesis idx h _ idx'] unfolding entry_ok_def extends_def by fastforce

lemma index_ok_update:
  assumes "index_ok cr genesis idx" and "entry_ok cr genesis (idx(h \<mapsto> e')) h e'"
    and "\<And>e. idx h = Some e \<Longrightarrow> ie_prev e' = ie_prev e \<and> (ie_accumulator e = None \<or> ie_accumulator e' = ie_accumulator e)"
  shows "index_ok cr genesis (idx(h \<mapsto> e'))"
proof -
  have "extends idx (idx(h \<mapsto> e'))" using assms(3) by (simp add: extends_def)
  then have "entry_ok cr genesis (idx(h \<mapsto> e')) h1 e1" if "idx h1 = Some e1" for h1 e1
    using that assms(1) entry_ok_mono unfolding index_ok_def by blast
  then show ?thesis using assms(2) unfolding index_ok_def by simp
qed

lemma index_ok_status:
  "index_ok cr genesis idx \<Longrightarrow> idx h = Some e \<Longrightarrow> index_ok cr genesis (idx(h \<mapsto> e\<lparr>ie_failed := b\<rparr>))"
proof (rule index_ok_update)
  assume ok: "index_ok cr genesis idx" "idx h = Some e"
  then have "entry_ok cr genesis idx h e" by (simp add: index_ok_def)
  moreover have "extends idx (idx(h \<mapsto> e\<lparr>ie_failed := b\<rparr>))" using ok(2) by (simp add: extends_def)
  ultimately have "entry_ok cr genesis (idx(h \<mapsto> e\<lparr>ie_failed := b\<rparr>)) h e" by (rule entry_ok_mono)
  then show "entry_ok cr genesis (idx(h \<mapsto> e\<lparr>ie_failed := b\<rparr>)) h (e\<lparr>ie_failed := b\<rparr>)" by (simp add: entry_ok_def)
qed simp_all

lemma index_ok_genesis:
  assumes "index_ok cr genesis idx" "idx genesis = Some e" "ie_accumulator e = None \<or> ie_accumulator e = Some (Empty_accumulator cr)"
  shows "index_ok cr genesis (idx(genesis \<mapsto> e\<lparr>ie_accumulator := Some (Empty_accumulator cr)\<rparr>))"
proof (rule index_ok_update [OF assms(1)])
  let ?e = "e\<lparr>ie_accumulator := Some (Empty_accumulator cr)\<rparr>"
  have "derived cr genesis (idx(genesis \<mapsto> ?e)) genesis (Empty_accumulator cr)" by (rule derived.base [where e = ?e]) simp_all
  moreover have "entry_ok cr genesis idx genesis e" using assms by (simp add: index_ok_def)
  ultimately show "entry_ok cr genesis (idx(genesis \<mapsto> ?e)) genesis ?e" by (simp add: entry_ok_def)
qed (use assms in auto)

lemma index_ok_connect:
  assumes "index_ok cr genesis (m_block_index s)" "m_block_index s (block_hash blk) = Some e"
    and "connect_accumulator cr genesis (prior_accumulator s e) (ie_accumulator e) blk = Inr st"
  shows "index_ok cr genesis ((m_block_index s)(block_hash blk \<mapsto> e\<lparr>ie_accumulator := Some st, ie_scripts := b\<rparr>))"
proof (rule index_ok_update [OF assms(1)])
  let ?e = "e\<lparr>ie_accumulator := Some st, ie_scripts := b\<rparr>" and ?idx = "m_block_index s"
  let ?idx' = "?idx(block_hash blk \<mapsto> ?e)"
  obtain previous where prior: "prior_accumulator s e = Some previous"
    and con: "connect_accumulator cr genesis (Some previous) None blk = Inr st" and same: "ie_accumulator e = None \<or> ie_accumulator e = Some st"
    using assms(3) by (auto simp: connect_accumulator_def guard_Inr split: option.splits sum.splits)
  then obtain p ep where p: "ie_prev e = Some p" "?idx p = Some ep" "ie_accumulator ep = Some previous"
    by (auto simp: prior_accumulator_def bind_eq_Some_conv)
  have ext: "extends ?idx ?idx'" using same assms(2) by (auto simp: extends_def)
  have "derived cr genesis ?idx p previous" using assms(1) p by (simp add: index_ok_def entry_ok_def)
  then have "derived cr genesis ?idx' p previous" using ext by (rule derived_mono)
  then have "derived cr genesis ?idx' (block_hash blk) st" by (rule derived.step [where e = ?e]) (use p con in simp_all)
  moreover have "entry_ok cr genesis ?idx (block_hash blk) e" using assms by (simp add: index_ok_def)
  ultimately show "entry_ok cr genesis ?idx' (block_hash blk) ?e" by (auto simp: entry_ok_def)
  show "ie_prev ?e = ie_prev e' \<and> (ie_accumulator e' = None \<or> ie_accumulator ?e = ie_accumulator e')" if "?idx (block_hash blk) = Some e'" for e'
    using that same assms(2) by auto
qed

lemma index_ok_header:
  assumes "index_ok cr genesis idx" "idx h = None" "h \<noteq> 0" "if h = genesis then prev = 0 else idx prev \<noteq> None"
  shows "index_ok cr genesis (idx(h \<mapsto> new_entry (if idx prev \<noteq> None then Some prev else None)))"
proof (rule index_ok_update [OF assms(1)])
  have "idx 0 = None" using assms(1) by (cases "idx 0") (auto simp: index_ok_def entry_ok_def)
  then show "entry_ok cr genesis (idx(h \<mapsto> new_entry (if idx prev \<noteq> None then Some prev else None))) h
      (new_entry (if idx prev \<noteq> None then Some prev else None))"
    using assms by (auto simp: entry_ok_def new_entry_def split: if_splits)
qed (use assms in simp)

section \<open>Storage\<close>

text \<open>A genesis block that was not connected gets its empty accumulator when it is loaded.\<close>

definition reloaded :: "crypto \<Rightarrow> u256 \<Rightarrow> (u256 \<rightharpoonup> index_entry) \<Rightarrow> u256 \<rightharpoonup> index_entry" where
  "reloaded cr genesis idx h =
     map_option (\<lambda>e. if h = genesis \<and> ie_accumulator e = None then e\<lparr>ie_accumulator := Some (Empty_accumulator cr)\<rparr> else e) (idx h)"

definition stored :: "crypto \<Rightarrow> u256 \<Rightarrow> (u256 \<times> disk_entry) list \<Rightarrow> (u256 \<rightharpoonup> byte list) \<Rightarrow> (u256 \<rightharpoonup> index_entry) \<Rightarrow> bool" where
  "stored cr genesis ds accs idx \<longleftrightarrow> distinct (map fst ds) \<and> (\<forall>h. map_of ds h = map_option disk_of (idx h))
     \<and> (\<forall>h e. idx h = Some e \<longrightarrow> load_accumulator cr genesis accs h (disk_of e) = Inr (ie_accumulator e))"

lemma index_ok_reloaded:
  assumes "index_ok cr genesis idx"
  shows "index_ok cr genesis (reloaded cr genesis idx)"
proof (cases "\<exists>e. idx genesis = Some e \<and> ie_accumulator e = None")
  case True
  then obtain e where e: "idx genesis = Some e" "ie_accumulator e = None" by blast
  then have "reloaded cr genesis idx = idx(genesis \<mapsto> e\<lparr>ie_accumulator := Some (Empty_accumulator cr)\<rparr>)"
    by (auto simp: reloaded_def fun_eq_iff map_option_case split: option.splits)
  with index_ok_genesis [OF assms e(1)] e show ?thesis by simp
next
  case False
  then have "reloaded cr genesis idx = idx" by (auto simp: reloaded_def fun_eq_iff map_option_case split: option.splits)
  then show ?thesis using assms by simp
qed

lemma load_entries_stored:
  assumes "index_ok cr genesis idx" and "\<And>h e. idx h = Some e \<Longrightarrow> load_accumulator cr genesis accs h (disk_of e) = Inr (ie_accumulator e)"
    and "\<And>h d. (h, d) \<in> set ds \<Longrightarrow> map_option disk_of (idx h) = Some d"
  shows "load_entries cr genesis accs ds = Inr (map (\<lambda>(h, _). (h, the (idx h))) ds)"
  using assms(3)
proof (induction ds)
  case Nil
  show ?case by simp
next
  case (Cons x ds)
  obtain h d where x: "x = (h, d)" by fastforce
  from Cons.prems [of h d] x obtain e where e: "idx h = Some e" "d = disk_of e" by auto
  have ok: "idx 0 = None" using assms(1) by (cases "idx 0") (auto simp: index_ok_def entry_ok_def)
  have "entry_ok cr genesis idx h e" using assms(1) e(1) by (simp add: index_ok_def)
  then have "ie_prev e \<noteq> Some 0" using ok by (auto simp: entry_ok_def)
  then show ?case
    using Cons e x assms(2) [OF e(1)] by (cases e) (auto simp: disk_of_def split: option.splits)
qed

lemma continuity_ok:
  assumes "index_ok cr genesis idx" "idx h = Some e"
  shows "check_continuity cr genesis idx (h, e) = Inr ()"
proof (cases "ie_accumulator e")
  case (Some st)
  have ok: "entry_ok cr genesis idx h e" using assms by (simp add: index_ok_def)
  with Some have "derived cr genesis idx h st" by (simp add: entry_ok_def)
  then show ?thesis
  proof cases
    case base
    then show ?thesis using ok Some assms(2) by (simp add: check_continuity_def entry_ok_def)
  next
    case (step p previous blk e1)
    obtain ls where ls: "represents cr previous ls" using derived_represents [OF step(2)] by blast
    obtain claims :: "EthereumWithdrawalClaim list" where st: "represents cr st (ls @ map claim_leaf claims)" by (rule connect_represents [OF ls step(6)])
    have "unat (acc_count st) = unat (acc_count previous) + length claims" using ls st by (simp add: represents_def)
    then have "\<not> acc_count st < acc_count previous" "acc_count st = acc_count previous \<Longrightarrow> claims = []"
      by (simp_all add: word_less_nat_alt)
    moreover have "claims = [] \<Longrightarrow> st = previous" using ls st by (simp add: represents_unique)
    ultimately show ?thesis
      using Some step derived_acc [OF step(2)] assms(2) by (auto simp: check_continuity_def guard_Inr)
  qed
qed (simp add: check_continuity_def)

lemma check_all_ok: "(\<And>x. x \<in> set xs \<Longrightarrow> check_continuity cr genesis idx x = Inr ()) \<Longrightarrow> check_all_continuity cr genesis idx xs = Inr ()"
  by (induction xs) simp_all

lemma distinct_map_sort: "distinct (map f (sort_key f xs)) \<longleftrightarrow> distinct (map f xs)"
  by (induction xs) (simp_all add: distinct_insort_key)

lemma load_stored:
  assumes "index_ok cr genesis idx" "stored cr genesis (db_index s) (db_accumulator s) idx"
  shows "LoadBlockIndexGuts cr genesis s = Inr (s\<lparr>m_block_index := idx, m_dirty_blockindex := []\<rparr>)"
proof -
  let ?ds = "sort_key fst (db_index s)"
  let ?es = "map (\<lambda>(h, _). (h, the (idx h))) ?ds"
  have keys: "(h, d) \<in> set (db_index s) \<longleftrightarrow> map_option disk_of (idx h) = Some d" for h d
    using assms(2) map_of_eq_Some_iff [of "db_index s" h d] by (auto simp: stored_def)
  have load: "load_entries cr genesis (db_accumulator s) ?ds = Inr ?es"
    by (rule load_entries_stored [OF assms(1)]) (use assms(2) keys in \<open>auto simp: stored_def\<close>)
  have es: "(h, e) \<in> set ?es \<longleftrightarrow> idx h = Some e" for h e
    using keys by (force simp: map_option_case split: option.splits)
  then have mem: "x \<in> set ?es \<Longrightarrow> idx (fst x) = Some (snd x)" for x by (cases x) simp
  have "distinct (map fst ?es) \<longleftrightarrow> distinct (map fst ?ds)" by (simp add: comp_def case_prod_beta)
  also have "\<dots> \<longleftrightarrow> distinct (map fst (db_index s))" by (rule distinct_map_sort)
  finally have "distinct (map fst ?es)" using assms(2) by (simp add: stored_def)
  then have "map_of ?es h = idx h" for h
  proof (cases "idx h")
    case None
    then show ?thesis using keys by (auto simp: map_of_eq_None_iff)
  qed (use es in simp)
  moreover have "\<not> list_ex (\<lambda>(_, e). ie_prev e = Some h) ?es" if "idx h = None" for h
  proof -
    have "ie_prev (snd x) \<noteq> Some h" if "x \<in> set ?es" for x
    proof -
      have "entry_ok cr genesis idx (fst x) (snd x)" using mem [OF that] assms(1) by (simp add: index_ok_def)
      then show ?thesis using \<open>idx h = None\<close> by (auto simp: entry_ok_def)
    qed
    then show ?thesis unfolding list_ex_iff case_prod_beta by blast
  qed
  ultimately have idx: "loaded_index ?es = idx" by (auto simp: loaded_index_def fun_eq_iff split: option.splits)
  have "check_continuity cr genesis idx x = Inr ()" if "x \<in> set ?es" for x
    using continuity_ok [OF assms(1) mem [OF that]] by simp
  then have "check_all_continuity cr genesis idx ?es = Inr ()" by (rule check_all_ok)
  then show ?thesis using load idx by (simp add: LoadBlockIndexGuts_def)
qed

lemma WriteBatchSync_exact:
  assumes "\<And>h. h \<in> set hs \<Longrightarrow> \<exists>e. idx h = Some e \<and> (\<forall>st. ie_accumulator e = Some st \<longrightarrow> IsSane cr st)" and "distinct (map fst ds)"
  shows "\<exists>ds' accs'. WriteBatchSync cr idx hs (ds, accs) = Inr (ds', accs') \<and> distinct (map fst ds')
    \<and> (\<forall>h. map_of ds' h = (if h \<in> set hs then map_option disk_of (idx h) else map_of ds h))
    \<and> (\<forall>h. accs' h = (if h \<in> set hs then map_option serialize_accumulator (Option.bind (idx h) ie_accumulator) else accs h))"
  using assms
proof (induction hs arbitrary: ds accs)
  case Nil
  then show ?case by simp
next
  case (Cons h hs)
  obtain e where e: "idx h = Some e" "\<And>st. ie_accumulator e = Some st \<Longrightarrow> IsSane cr st" using Cons.prems(1) [of h] by auto
  let ?ds = "AList.update h (disk_of e) ds" and ?accs = "accs(h := map_option serialize_accumulator (ie_accumulator e))"
  have w: "WriteBatchSync cr idx (h # hs) (ds, accs) = WriteBatchSync cr idx hs (?ds, ?accs)"
    using e by (cases "ie_accumulator e") simp_all
  have "distinct (map fst ?ds)" using Cons.prems(2) by (rule distinct_update)
  from Cons.IH [OF Cons.prems(1) [OF list.set_intros(2)] this, of ?accs] obtain ds' accs' where
    r: "WriteBatchSync cr idx hs (?ds, ?accs) = Inr (ds', accs')" "distinct (map fst ds')"
    "\<forall>h. map_of ds' h = (if h \<in> set hs then map_option disk_of (idx h) else map_of ?ds h)"
    "\<forall>h. accs' h = (if h \<in> set hs then map_option serialize_accumulator (Option.bind (idx h) ie_accumulator) else ?accs h)" by blast
  then have "\<forall>k. map_of ds' k = (if k \<in> set (h # hs) then map_option disk_of (idx k) else map_of ds k)"
    "\<forall>k. accs' k = (if k \<in> set (h # hs) then map_option serialize_accumulator (Option.bind (idx k) ie_accumulator) else accs k)"
    using e(1) by (simp_all add: update_conv')
  with r(1,2) show ?case unfolding w by blast
qed

lemma load_written:
  assumes "entry_ok cr genesis idx h e" "accs h = map_option serialize_accumulator (ie_accumulator e)"
  shows "load_accumulator cr genesis accs h (disk_of e)
    = Inr (if h = genesis \<and> ie_accumulator e = None then Some (Empty_accumulator cr) else ie_accumulator e)"
proof (cases "ie_accumulator e")
  case None
  then show ?thesis using assms by (auto simp: load_accumulator_def entry_ok_def disk_of_def)
next
  case (Some st)
  with assms(1) have "derived cr genesis idx h st" by (simp add: entry_ok_def)
  note sane = derived_sane [OF this]
  then have "deserialize_accumulator cr (serialize_accumulator st) = Inr (st, [])"
    using deserialize_serialize [of cr st "[]"] by simp
  with Some assms(2) sane show ?thesis by (simp add: load_accumulator_def)
qed

section \<open>The running node\<close>

definition index_inv :: "crypto \<Rightarrow> u256 \<Rightarrow> node_index \<Rightarrow> bool" where
  "index_inv cr genesis s \<longleftrightarrow> index_ok cr genesis (m_block_index s) \<and> (\<forall>h. h \<in> set (m_dirty_blockindex s) \<longrightarrow> m_block_index s h \<noteq> None)
     \<and> (\<exists>idx. index_ok cr genesis idx \<and> stored cr genesis (db_index s) (db_accumulator s) idx
          \<and> (\<forall>h. h \<notin> set (m_dirty_blockindex s) \<longrightarrow> idx h = reloaded cr genesis (m_block_index s) h))"

lemma index_invI:
  assumes "index_inv cr genesis s" "index_ok cr genesis ((m_block_index s)(h \<mapsto> e))"
  shows "index_inv cr genesis (set_entry s h e)"
proof -
  obtain idx where "index_ok cr genesis idx" "stored cr genesis (db_index s) (db_accumulator s) idx"
    "\<forall>h. h \<notin> set (m_dirty_blockindex s) \<longrightarrow> idx h = reloaded cr genesis (m_block_index s) h"
    using assms(1) unfolding index_inv_def by blast
  then have "\<exists>idx. index_ok cr genesis idx \<and> stored cr genesis (db_index s) (db_accumulator s) idx
      \<and> (\<forall>k. k \<notin> set (List.insert h (m_dirty_blockindex s)) \<longrightarrow> idx k = reloaded cr genesis ((m_block_index s)(h \<mapsto> e)) k)"
    by (intro exI [of _ idx]) (simp add: reloaded_def)
  then show ?thesis using assms by (simp add: index_inv_def set_entry_def)
qed

lemma flush_exact:
  assumes "index_inv cr genesis s"
  shows "\<exists>s'. WriteBlockIndexDB cr s = Inr s' \<and> m_block_index s' = m_block_index s \<and> m_dirty_blockindex s' = []
    \<and> stored cr genesis (db_index s') (db_accumulator s') (reloaded cr genesis (m_block_index s))"
proof -
  let ?idx = "m_block_index s" and ?dirty = "m_dirty_blockindex s"
  have ok: "\<And>h e. ?idx h = Some e \<Longrightarrow> entry_ok cr genesis ?idx h e" and dirty: "\<And>h. h \<in> set ?dirty \<Longrightarrow> ?idx h \<noteq> None"
    using assms by (simp_all add: index_inv_def index_ok_def)
  obtain idx where st: "stored cr genesis (db_index s) (db_accumulator s) idx"
    and same: "\<And>h. h \<notin> set ?dirty \<Longrightarrow> idx h = reloaded cr genesis ?idx h" using assms unfolding index_inv_def by blast
  have "\<exists>e. ?idx h = Some e \<and> (\<forall>st. ie_accumulator e = Some st \<longrightarrow> IsSane cr st)" if "h \<in> set ?dirty" for h
    using dirty [OF that] ok derived_sane(1) by (fastforce simp: entry_ok_def)
  from WriteBatchSync_exact [where idx = ?idx and cr = cr and hs = ?dirty and ds = "db_index s" and accs = "db_accumulator s", OF this] st
  obtain ds accs where w: "WriteBatchSync cr ?idx ?dirty (db_index s, db_accumulator s) = Inr (ds, accs)" "distinct (map fst ds)"
    and ds: "\<And>h. map_of ds h = (if h \<in> set ?dirty then map_option disk_of (?idx h) else map_of (db_index s) h)"
    and accs: "\<And>h. accs h = (if h \<in> set ?dirty then map_option serialize_accumulator (Option.bind (?idx h) ie_accumulator)
      else db_accumulator s h)" by (auto simp: stored_def)
  have "map_of ds h = map_option disk_of (reloaded cr genesis ?idx h)" for h
    using ds [of h] same [of h] st
    by (cases "h \<in> set ?dirty"; cases "?idx h") (auto simp: stored_def reloaded_def disk_of_def)
  moreover have "load_accumulator cr genesis accs h (disk_of e) = Inr (ie_accumulator e)" if e_def: "reloaded cr genesis ?idx h = Some e" for h e
  proof (cases "h \<in> set ?dirty")
    case True
    obtain e0 where e0: "?idx h = Some e0" and e: "e = (if h = genesis \<and> ie_accumulator e0 = None then e0\<lparr>ie_accumulator := Some (Empty_accumulator cr)\<rparr> else e0)"
      using e_def unfolding reloaded_def by (cases "?idx h") auto
    have "disk_of e = disk_of e0" by (simp add: e disk_of_def)
    moreover have "accs h = map_option serialize_accumulator (ie_accumulator e0)" using True accs [of h] e0 by simp
    ultimately show ?thesis using load_written [OF ok [OF e0], of accs] e by simp
  next
    case False
    then have "accs h = db_accumulator s h" using accs by simp
    then have "load_accumulator cr genesis accs h d = load_accumulator cr genesis (db_accumulator s) h d" for d
      by (simp add: load_accumulator_def)
    moreover have "idx h = Some e" using e_def same [OF False] by simp
    ultimately show ?thesis using st by (simp add: stored_def)
  qed
  ultimately have "stored cr genesis ds accs (reloaded cr genesis ?idx)" using w(2) by (simp add: stored_def)
  then show ?thesis using w(1) by (simp add: WriteBlockIndexDB_def)
qed

lemma restart_exact:
  assumes "index_inv cr genesis s"
  shows "\<exists>s'. LoadBlockIndexGuts cr genesis s = Inr s' \<and> index_inv cr genesis s'"
proof -
  obtain idx where idx: "index_ok cr genesis idx" "stored cr genesis (db_index s) (db_accumulator s) idx"
    using assms unfolding index_inv_def by blast
  have "reloaded cr genesis idx h = idx h" for h
  proof (cases "idx h")
    case (Some e)
    then have "load_accumulator cr genesis (db_accumulator s) h (disk_of e) = Inr (ie_accumulator e)" using idx(2) by (simp add: stored_def)
    then have "h = genesis \<longrightarrow> ie_accumulator e \<noteq> None"
      by (cases "ie_accumulator e") (auto simp: load_accumulator_def guard_Inr split: option.splits sum.splits)
    then show ?thesis using Some by (simp add: reloaded_def)
  qed (simp add: reloaded_def)
  then have "index_inv cr genesis (s\<lparr>m_block_index := idx, m_dirty_blockindex := []\<rparr>)"
    using idx by (auto simp: index_inv_def)
  then show ?thesis using load_stored [OF idx] by simp
qed

lemma step_inv: "index_step cr genesis s s' \<Longrightarrow> index_inv cr genesis s \<Longrightarrow> index_inv cr genesis s'"
proof (induction rule: index_step.induct)
  case (header h prev s)
  then show ?case
    using index_ok_header [of cr genesis "m_block_index s" h prev] index_invI [of cr genesis s h]
    by (auto simp: AddToBlockIndex_def index_inv_def)
next
  case (connect s blk e s')
  have ok: "index_ok cr genesis (m_block_index s)" using connect(3) by (simp add: index_inv_def)
  show ?case
  proof (cases "block_hash blk = genesis")
    case True
    with connect(2) have "s' = set_entry s genesis (e\<lparr>ie_accumulator := Some (Empty_accumulator cr)\<rparr>)"
      and "ie_accumulator e = None \<or> ie_accumulator e = Some (Empty_accumulator cr)"
      by (auto simp: connect_index_def connect_genesis_def guard_Inr)
    then show ?thesis using index_invI [OF connect(3)] index_ok_genesis [OF ok] connect(1) True by simp
  next
    case False
    then show ?thesis
      using connect(2) index_invI [OF connect(3)] index_ok_connect [OF ok connect(1)] by (auto simp: connect_index_def bind_res_Inr)
  qed
next
  case (status s h e b)
  then show ?case using index_invI [OF status(2)] index_ok_status [of cr genesis "m_block_index s" h e b] by (simp add: index_inv_def)
next
  case (flush s s')
  then show ?case
    using flush_exact [OF flush(2)] index_ok_reloaded [of cr genesis "m_block_index s"] by (auto simp: index_inv_def)
next
  case (restart s s')
  then show ?case using restart_exact [OF restart(2)] by auto
qed

lemma reachable_inv: "index_reachable cr genesis s \<Longrightarrow> index_inv cr genesis s"
  unfolding index_reachable_def
proof (induction rule: rtranclp_induct)
  case base
  have "index_ok cr genesis Map.empty" "stored cr genesis [] Map.empty Map.empty"
    by (simp_all add: index_ok_def stored_def)
  then show ?case
    unfolding index_inv_def no_index_def by (auto simp: reloaded_def intro!: exI [of _ Map.empty])
next
  case (step s s')
  then show ?case using step_inv by blast
qed

section \<open>Branches\<close>

text \<open>The blocks from genesis to a block of the index.\<close>

inductive branch :: "(u256 \<rightharpoonup> index_entry) \<Rightarrow> u256 \<Rightarrow> u256 \<Rightarrow> u256 list \<Rightarrow> bool" for idx genesis where
  root: "branch idx genesis genesis []"
| block: "branch idx genesis p hs \<Longrightarrow> idx h = Some e \<Longrightarrow> ie_prev e = Some p \<Longrightarrow> branch idx genesis h (hs @ [h])"

text \<open>A chain holds the blocks with these hashes and their accumulators in the index.\<close>

definition chain_of :: "(u256 \<rightharpoonup> index_entry) \<Rightarrow> u256 list \<Rightarrow> chain_entry list \<Rightarrow> bool" where
  "chain_of idx hs chain \<longleftrightarrow> map (\<lambda>c. map_option block_hash (ce_block c)) chain = map Some hs
     \<and> map ce_accumulator chain = map (\<lambda>h. Option.bind (idx h) ie_accumulator) hs"

lemma connected_snoc:
  "connected cr genesis previous (es @ [e]) \<longleftrightarrow> connected cr genesis previous es \<and> connected cr genesis (tip_accumulator previous es) [e]"
  by (induction es arbitrary: previous) (auto split: option.splits)

lemma tip_snoc [simp]: "tip_accumulator previous (es @ [e]) = the (ce_accumulator e)"
  by (induction es arbitrary: previous) simp_all

lemma derived_chain:
  "derived cr genesis idx h st \<Longrightarrow> \<exists>hs chain. branch idx genesis h hs \<and> chain_of idx hs chain
     \<and> connected cr genesis (Empty_accumulator cr) chain \<and> tip_accumulator (Empty_accumulator cr) chain = st"
proof (induction rule: derived.induct)
  case (base e)
  show ?case by (rule exI [of _ "[]"], rule exI [of _ "[]"]) (simp add: branch.root chain_of_def)
next
  case (step p previous blk e st)
  then obtain hs chain where IH: "branch idx genesis p hs" "chain_of idx hs chain"
    "connected cr genesis (Empty_accumulator cr) chain" "tip_accumulator (Empty_accumulator cr) chain = previous" by blast
  let ?c = "\<lparr>ce_block = Some blk, ce_accumulator = Some st\<rparr>"
  have "branch idx genesis (block_hash blk) (hs @ [block_hash blk])" by (rule branch.block [OF IH(1) step(2,3)])
  moreover have "chain_of idx (hs @ [block_hash blk]) (chain @ [?c])" using IH(2) step by (simp add: chain_of_def)
  moreover have "connected cr genesis (Empty_accumulator cr) (chain @ [?c])" using IH step by (simp add: connected_snoc)
  ultimately show ?case by (intro exI [of _ "hs @ [block_hash blk]"] exI [of _ "chain @ [?c]"]) simp
qed

end
