(* ===== verification/Withdrawal_Props.thy ===== *)
theory Withdrawal_Props
  imports Withdrawal_Index
begin

text \<open>
  Properties of the withdrawal accumulator: it is the sparse Merkle tree of all burns of the chain, every burn
  can be proved and nothing else, blocks and checkpoints are accepted exactly as specified, the serialized state
  is canonical, and the block index keeps the accumulators of all branches across crashes and restarts.
\<close>

section \<open>The specified state\<close>

definition accumulator_of :: "crypto \<Rightarrow> u256 list \<Rightarrow> accumulator" where
  "accumulator_of cr ls = \<lparr>acc_count = word_of_nat (length ls), acc_root = merkle cr 64 ls, acc_frontier = map (frontier_root cr ls) [0..<64]\<rparr>"

lemma represents_iff: "represents cr st ls \<longleftrightarrow> length ls < 2 ^ 64 \<and> st = accumulator_of cr ls"
proof
  assume "length ls < 2 ^ 64 \<and> st = accumulator_of cr ls"
  then show "represents cr st ls"
    by (simp add: represents_def accumulator_of_def unsigned_of_nat take_bit_nat_eq_self)
next
  assume r: "represents cr st ls"
  with represents_count [OF r] show "length ls < 2 ^ 64 \<and> st = accumulator_of cr ls"
    by (cases st) (simp add: represents_def accumulator_of_def)
qed

definition chain_leaves :: "crypto \<Rightarrow> u256 \<Rightarrow> chain_entry list \<Rightarrow> u256 list" where
  "chain_leaves cr genesis chain = map claim_leaf (numbered_claims cr (DisplayBytes genesis) 0 (chain_burns chain))"

lemma length_chain_leaves [simp]: "length (chain_leaves cr genesis chain) = length (chain_burns chain)"
  by (simp add: chain_leaves_def)

lemma chain_state:
  assumes "connected cr genesis (Empty_accumulator cr) chain"
  shows "represents cr (tip_accumulator (Empty_accumulator cr) chain) (chain_leaves cr genesis chain)"
    and "uninterrupted call \<Longrightarrow> \<exists>bs. withdrawal_blocks call 1 0 chain = Inr bs
      \<and> reconstruct_claims cr call genesis 0 bs [] = Inr (numbered_claims cr (DisplayBytes genesis) 0 (chain_burns chain))"
proof -
  let ?alone = "\<lparr>proof_running = False, scan_interrupt = \<lambda>_. None, read_interrupt = \<lambda>_. None, final_interrupt = None\<rparr>"
  have "uninterrupted ?alone" by (simp add: uninterrupted_def)
  from chain_claims [OF assms _ this, of "[]"] represents_Empty [of cr]
  show "represents cr (tip_accumulator (Empty_accumulator cr) chain) (chain_leaves cr genesis chain)"
    by (simp add: chain_leaves_def)
  assume "uninterrupted call"
  from chain_claims [OF assms _ this, of "[]" 1] represents_Empty [of cr]
  show "\<exists>bs. withdrawal_blocks call 1 0 chain = Inr bs
      \<and> reconstruct_claims cr call genesis 0 bs [] = Inr (numbered_claims cr (DisplayBytes genesis) 0 (chain_burns chain))"
    by (auto simp: Empty_accumulator_def)
qed

lemma small_index: "unat (index :: 64 word) < 10000 \<Longrightarrow> \<not> index <s 0"
proof -
  assume less: "unat index < 10000"
  have "sint index = signed_take_bit 63 (uint index)" by (simp add: sint_uint)
  moreover have "uint index = int (unat index)" by simp
  moreover have "n < 10000 \<Longrightarrow> signed_take_bit 63 (int n) = int n" for n
    by (rule signed_take_bit_int_eq_self) simp_all
  from this [OF less] have "signed_take_bit 63 (int (unat index)) = int (unat index)" .
  ultimately have "sint index = int (unat index)" by (simp only:)
  then show ?thesis by (simp only: word_sless_alt) simp
qed

section \<open>Properties\<close>

text \<open>
  C34. The accumulator is the sparse Merkle tree of its leaves: appending leaves to the empty state succeeds exactly
  below \<open>2^64\<close> leaves, and the result has their number, the root of the depth-64 tree over them and the
  roots of its complete subtrees as frontier, and passes the node's own sanity check.
\<close>

theorem accumulator_exact:
  "append_all cr (Empty_accumulator cr) ls = Inr st \<longleftrightarrow> length ls < 2 ^ 64 \<and> st = accumulator_of cr ls \<and> IsSane cr st"
  using append_all_exact [OF represents_Empty, of cr ls st] represents_sane [of cr st ls] by (auto simp: represents_iff)

text \<open>
  C35. Every withdrawal can be proved: on a chain of connected blocks with at most 10000 burns, an uninterrupted call returns for each index the claim of the burn with this number and 64 siblings that verify against the
  accumulator's root; none of its internal consistency checks fails.
\<close>

theorem withdrawal_proof_complete:
  assumes "connected cr genesis (Empty_accumulator cr) chain" and "unat index < length (chain_burns chain)"
    and "length (chain_burns chain) \<le> 10000" and "uninterrupted call"
  shows "let st = tip_accumulator (Empty_accumulator cr) chain;
      c = numbered_claims cr (DisplayBytes genesis) 0 (chain_burns chain) ! unat index
    in \<exists>siblings. getusddwithdrawalproof cr call genesis (Some (Some st, chain)) index = Inr (c, siblings, acc_root st)
      \<and> length siblings = 64 \<and> verify_path cr (claim_leaf c) index siblings = acc_root st"
proof -
  let ?st = "tip_accumulator (Empty_accumulator cr) chain" and ?ls = "chain_leaves cr genesis chain"
  let ?claims = "numbered_claims cr (DisplayBytes genesis) 0 (chain_burns chain)"
  note st = chain_state(1) [OF assms(1)]
  have n: "unat (acc_count ?st) = length (chain_burns chain)" and root: "acc_root ?st = merkle cr 64 ?ls"
    using st by (simp_all add: represents_def)
  have len: "length ?ls < 2 ^ 64" using assms(3) by simp
  obtain bs where bs: "withdrawal_blocks call 1 0 chain = Inr bs" "reconstruct_claims cr call genesis 0 bs [] = Inr ?claims"
    using chain_state(2) [OF assms(1,4)] by blast
  have "\<not> index <s 0" by (rule small_index) (use assms(2,3) in simp)
  moreover have "\<not> index \<ge> acc_count ?st" "\<not> acc_count ?st > MAX_RECONSTRUCTION_LEAVES"
    using assms(2,3) n by (simp_all add: word_le_nat_alt word_less_nat_alt MAX_RECONSTRUCTION_LEAVES_def)
  moreover have "BuildWithdrawalInclusionProof cr ?claims index
      = Inr (?claims ! unat index, honest_path cr ?ls index, merkle cr 64 ?ls)"
    unfolding chain_leaves_def by (rule Build_exact) (use assms(2,3) in simp_all)
  ultimately have "getusddwithdrawalproof cr call genesis (Some (Some ?st, chain)) index = Inr (?claims ! unat index, honest_path cr ?ls index, acc_root ?st)"
    using n bs root assms(4) by (simp add: getusddwithdrawalproof_def uninterrupted_def)
  moreover have "layer_at cr 0 ?ls (unat index) = claim_leaf (?claims ! unat index)"
    using assms(2) by (simp add: layer_at_def chain_leaves_def)
  ultimately show ?thesis using honest_path_verifies [OF len, of cr index] root by (simp add: Let_def)
qed

text \<open>
  C36. Nothing but a burn can be proved: if the leaf of some claim and 64 siblings verify at an index against the
  root of the chain's accumulator, and the hash does not collide on what this verification and the honest one
  hash, then the index is that of a burn of the chain and the claim has its asset, vault, burn, amount and recipient.
\<close>

theorem withdrawal_proof_sound:
  assumes "connected cr genesis (Empty_accumulator cr) chain" and "length siblings = 64"
    and "verify_path cr (ComputeWithdrawalLeaf cr c) index siblings = acc_root (tip_accumulator (Empty_accumulator cr) chain)"
    and "list_all2 (no_collision cr) (path_inputs cr (ComputeWithdrawalLeaf cr c) index siblings)
      (path_inputs cr (layer_at cr 0 (chain_leaves cr genesis chain) (unat index)) index
        (honest_path cr (chain_leaves cr genesis chain) index))"
    and "list_all (no_collision cr (leaf_message c)) ([WITHDRAWAL_LEAF_PREFIX]
      # map leaf_message (numbered_claims cr (DisplayBytes genesis) 0 (chain_burns chain)))"
  shows "let claims = numbered_claims cr (DisplayBytes genesis) 0 (chain_burns chain); d = claims ! unat index in
    unat index < length claims \<and> asset_id c = asset_id d \<and> vault_id c = vault_id d \<and> burn_id c = burn_id d
    \<and> claim_index c = index \<and> amount_usdt_micro c = amount_usdt_micro d \<and> recipient c = recipient d"
proof -
  let ?ls = "chain_leaves cr genesis chain" and ?claims = "numbered_claims cr (DisplayBytes genesis) 0 (chain_burns chain)"
  let ?d = "?claims ! unat index"
  note st = chain_state(1) [OF assms(1)]
  have len: "length ?ls < 2 ^ 64" using represents_count [OF st] by simp
  note h = honest_path_verifies [OF len, of cr index]
  have "verify_path cr (ComputeWithdrawalLeaf cr c) index siblings
      = verify_path cr (layer_at cr 0 ?ls (unat index)) index (honest_path cr ?ls index)"
    using assms(3) st h(1) by (simp add: represents_def)
  from verify_path_unique [OF assms(4) _ this] assms(2) h(2)
  have leaf: "sha256 cr (leaf_message c) = layer_at cr 0 ?ls (unat index)" by (simp add: ComputeWithdrawalLeaf_def)
  have i: "unat index < length ?claims"
  proof (rule ccontr)
    assume "\<not> ?thesis"
    then have "sha256 cr (leaf_message c) = sha256 cr [WITHDRAWAL_LEAF_PREFIX]" using leaf by (simp add: layer_at_def)
    then have "leaf_message c = [WITHDRAWAL_LEAF_PREFIX]" using assms(5) by (simp add: no_collision_def)
    then show False by (simp add: leaf_message_def WITHDRAWAL_LEAF_DOMAIN_def)
  qed
  then have "layer_at cr 0 ?ls (unat index) = sha256 cr (leaf_message ?d)"
    using numbered_nth(2) [of "unat index" "chain_burns chain" cr "DisplayBytes genesis"]
    by (simp add: layer_at_def chain_leaves_def ComputeWithdrawalLeaf_def)
  moreover have "no_collision cr (leaf_message c) (leaf_message ?d)" using assms(5) i nth_mem by (auto simp: list_all_iff)
  ultimately have "leaf_message c = leaf_message ?d" using leaf by (simp add: no_collision_def)
  from leaf_message_inject [OF this] i numbered_nth(1) [of "unat index" "chain_burns chain" cr "DisplayBytes genesis"]
  show ?thesis by (simp add: Let_def)
qed

text \<open>
  The persisted state is canonical: reading succeeds exactly on the serialization of a sane state, gives this
  state back and leaves what follows it.
\<close>

theorem accumulator_round_trip:
  "deserialize_accumulator cr s = Inr (st, r) \<longleftrightarrow>
    IsSane cr st \<and> length (acc_frontier st) = WITHDRAWAL_ACCUMULATOR_DEPTH \<and> s = serialize_accumulator st @ r"
  using deserializeD [of cr s st r] deserialize_serialize [of cr st r] by auto

text \<open>
  C37. Blocks are applied exactly: on the state of a chain, applying a block succeeds exactly if the genesis hash is
  not null, no transaction is missing and the number of burns stays below \<open>2^64\<close>; the claims are those of
  the block's canonical burns, in order, numbered on from the chain's burns, and the new state is that of all burns.
\<close>

theorem block_withdrawals_exact:
  assumes "connected cr genesis (Empty_accumulator cr) chain"
  shows "ApplyEthereumWithdrawals cr blk genesis (tip_accumulator (Empty_accumulator cr) chain) = Inr (st, claims) \<longleftrightarrow>
    genesis \<noteq> 0 \<and> None \<notin> set (block_vtx blk)
    \<and> length (chain_burns chain) + length (tx_burns (block_vtx blk)) < 2 ^ 64
    \<and> claims = numbered_claims cr (DisplayBytes genesis) (length (chain_burns chain)) (tx_burns (block_vtx blk))
    \<and> st = accumulator_of cr (chain_leaves cr genesis chain @ map claim_leaf claims)"
  using Apply_exact [OF chain_state(1) [OF assms], of blk genesis st claims] by (auto simp: represents_iff)

lemma checkpoint_on_chain:
  assumes "connected cr genesis (Empty_accumulator cr) chain" and "previous = tip_accumulator (Empty_accumulator cr) chain"
  shows "DeriveWithdrawalBip301CriticalHash cr blk genesis slot previous = Inr (st, h) \<longleftrightarrow>
    (\<exists>claims. ApplyEthereumWithdrawals cr blk genesis previous = Inr (st, claims) \<and> block_hash blk \<noteq> 0
      \<and> (claims = [] \<or> acc_root st \<noteq> acc_root previous)
      \<and> h = DisplayBytes (sha256 cr (checkpoint_message genesis slot (block_hash blk) previous st)) \<and> h \<noteq> 0)"
proof -
  note p = chain_state(1) [OF assms(1), folded assms(2)]
  have "ComputeWithdrawalBip301CriticalHash cr genesis slot (block_hash blk) previous st' = Inr h \<longleftrightarrow>
      block_hash blk \<noteq> 0 \<and> (claims = [] \<or> acc_root st' \<noteq> acc_root previous)
      \<and> h = DisplayBytes (sha256 cr (checkpoint_message genesis slot (block_hash blk) previous st')) \<and> h \<noteq> 0"
    if "ApplyEthereumWithdrawals cr blk genesis previous = Inr (st', claims)" for st' claims
  proof -
    have a: "genesis \<noteq> 0" "represents cr st' (chain_leaves cr genesis chain @ map claim_leaf claims)"
      using that Apply_exact [OF p] by auto
    have "unat (acc_count st') = unat (acc_count previous) + length claims" using a(2) p by (simp add: represents_def)
    then have "\<not> acc_count st' < acc_count previous" "acc_count st' = acc_count previous \<longleftrightarrow> claims = []"
      by (simp_all add: word_less_nat_alt word_unat_eq_iff)
    moreover have "claims = [] \<Longrightarrow> acc_root st' = acc_root previous" using a(2) p by (simp add: represents_def)
    ultimately show ?thesis
      using a(1) represents_sane [OF a(2)] represents_sane [OF p]
      by (auto simp: ComputeWithdrawalBip301CriticalHash_def guard_Inr Let_def)
  qed
  then show ?thesis by (auto simp: DeriveWithdrawalBip301CriticalHash_def bind_res_Inr)
qed

text \<open>
  C38. Checkpoints are derived exactly: for a block on any block of the index, the critical hash is derived exactly
  if a sidechain slot is configured, the predecessor has an accumulator, the block's withdrawals apply, its hash is not null,
  the root changes unless it has no burns, and the digest is not null; the sanity and monotonicity checks never fail.
\<close>

theorem checkpoint_exact:
  assumes "index_reachable cr genesis s" and "m_block_index s p = Some e"
  shows "DeriveUsddBip301CriticalHash cr genesis drivechain_slot (Some e) blk = Inr (st, h) \<longleftrightarrow>
    (\<exists>slot previous claims. drivechain_slot = Some slot \<and> ie_accumulator e = Some previous
      \<and> ApplyEthereumWithdrawals cr blk genesis previous = Inr (st, claims) \<and> block_hash blk \<noteq> 0
      \<and> (claims = [] \<or> acc_root st \<noteq> acc_root previous)
      \<and> h = DisplayBytes (sha256 cr (checkpoint_message genesis slot (block_hash blk) previous st)) \<and> h \<noteq> 0)"
proof (cases "ie_accumulator e")
  case (Some previous)
  have "entry_ok cr genesis (m_block_index s) p e"
    using reachable_inv [OF assms(1)] assms(2) by (simp add: index_inv_def index_ok_def)
  then have "derived cr genesis (m_block_index s) p previous" using Some by (simp add: entry_ok_def)
  from derived_chain [OF this] obtain chain where
    "connected cr genesis (Empty_accumulator cr) chain" "previous = tip_accumulator (Empty_accumulator cr) chain" by blast
  from checkpoint_on_chain [OF this] Some show ?thesis
    by (cases drivechain_slot) (simp_all add: DeriveUsddBip301CriticalHash_def)
qed (simp add: DeriveUsddBip301CriticalHash_def split: option.splits)


text \<open>
  C40. The index survives restarts: in every reachable state a restart loads the database without an error,
  and after a flush, which succeeds, it loads the index as it was in memory, except that a genesis
  block that was not yet connected has its empty accumulator.
\<close>

theorem index_survives_restart:
  assumes "index_reachable cr genesis s"
  shows "\<exists>s1 s2 s3. LoadBlockIndexGuts cr genesis s = Inr s1 \<and> WriteBlockIndexDB cr s = Inr s2
    \<and> LoadBlockIndexGuts cr genesis s2 = Inr s3 \<and> m_block_index s3 = reloaded cr genesis (m_block_index s)"
proof -
  note inv = reachable_inv [OF assms]
  then have ok: "index_ok cr genesis (reloaded cr genesis (m_block_index s))"
    using index_ok_reloaded by (simp add: index_inv_def)
  obtain s1 where "LoadBlockIndexGuts cr genesis s = Inr s1" using restart_exact [OF inv] by blast
  moreover obtain s2 where "WriteBlockIndexDB cr s = Inr s2"
    and "stored cr genesis (db_index s2) (db_accumulator s2) (reloaded cr genesis (m_block_index s))"
    using flush_exact [OF inv] by blast
  moreover from load_stored [OF ok this(2)] obtain s3 where
    "LoadBlockIndexGuts cr genesis s2 = Inr s3" "m_block_index s3 = reloaded cr genesis (m_block_index s)" by simp
  ultimately show ?thesis by blast
qed

section \<open>A concrete chain\<close>

text \<open>
  One block with one burn, and a second one with another. The hash is the 32 bytes after the first, so that an inner
  node has the value of its left child.
\<close>

definition demo_crypto :: crypto where
  "demo_crypto = \<lparr>sha256 = (\<lambda>bs. of_be_bytes (take 32 (tl bs))), schnorr = (\<lambda>_ _ _. True)\<rparr>"

definition demo_burn :: "64 word \<Rightarrow> burn" where
  "demo_burn n = \<lparr>b_asset = 5, b_vault = 7, b_recipient = 9, b_amount = n\<rparr>"

definition demo_block :: "64 word \<Rightarrow> block" where
  "demo_block n = \<lparr>block_vtx = [Some \<lparr>bt_hash = 3, bt_vout = [encode_burn (demo_burn n)]\<rparr>], block_hash = 11\<rparr>"

definition demo_leaves :: "nat \<Rightarrow> 64 word \<Rightarrow> u256 list" where
  "demo_leaves f n = map claim_leaf (numbered_claims demo_crypto (DisplayBytes 1) f [(DisplayBytes 3, 0, demo_burn n)])"

definition demo_chain :: "chain_entry list" where
  "demo_chain = [\<lparr>ce_block = Some (demo_block 1000), ce_accumulator = Some (accumulator_of demo_crypto (demo_leaves 0 1000))\<rparr>]"

lemma demo_burns: "n \<in> {1000, 2000} \<Longrightarrow> tx_burns (block_vtx (demo_block n)) = [(DisplayBytes 3, 0, demo_burn n)]"
proof -
  assume "n \<in> {1000, 2000}"
  then have "burn_valid (demo_burn n)" by (auto simp: burn_valid_def demo_burn_def)
  then have "decode_burn (encode_burn (demo_burn n)) = Some (demo_burn n)" by (simp add: decode_burn_iff)
  then show ?thesis by (simp add: tx_burns_def demo_block_def burns_from_Cons)
qed

lemma demo_apply:
  "ApplyEthereumWithdrawals demo_crypto (demo_block 1000) 1 (Empty_accumulator demo_crypto)
    = Inr (accumulator_of demo_crypto (demo_leaves 0 1000), block_claims demo_crypto 1 0 (demo_block 1000))"
  unfolding Apply_exact [OF represents_Empty] represents_iff
  by (simp add: demo_burns demo_leaves_def) (simp add: demo_block_def)

lemma demo_connected: "connected demo_crypto 1 (Empty_accumulator demo_crypto) demo_chain"
  using demo_apply by (simp add: demo_chain_def connect_accumulator_def)

lemma demo_chain_burns: "chain_burns demo_chain = [(DisplayBytes 3, 0, demo_burn 1000)]"
  by (simp add: demo_chain_def demo_burns)

lemma demo_tip: "tip_accumulator (Empty_accumulator demo_crypto) demo_chain = accumulator_of demo_crypto (demo_leaves 0 1000)"
  by (simp add: demo_chain_def)

abbreviation demo_claim :: EthereumWithdrawalClaim where
  "demo_claim \<equiv> burn_claim demo_crypto (DisplayBytes 1) 0 (DisplayBytes 3) 0 (demo_burn 1000)"

lemma demo_claims: "numbered_claims demo_crypto (DisplayBytes 1) 0 (chain_burns demo_chain) = [demo_claim]"
  by (simp add: demo_chain_burns numbered_claims_def)

theorem withdrawal_proof_complete_witness:
  "\<exists>siblings. getusddwithdrawalproof demo_crypto
        \<lparr>proof_running = False, scan_interrupt = \<lambda>_. None, read_interrupt = \<lambda>_. None, final_interrupt = None\<rparr> 1
        (Some (Some (accumulator_of demo_crypto (demo_leaves 0 1000)), demo_chain)) 0
      = Inr (demo_claim, siblings, acc_root (accumulator_of demo_crypto (demo_leaves 0 1000)))
    \<and> length siblings = 64
    \<and> verify_path demo_crypto (claim_leaf demo_claim) 0 siblings = acc_root (accumulator_of demo_crypto (demo_leaves 0 1000))"
  using withdrawal_proof_complete [OF demo_connected, of 0] unfolding demo_tip demo_claims
  by (simp add: demo_chain_burns uninterrupted_def Let_def)

theorem withdrawal_proof_sound_witness:
  "verify_path demo_crypto (ComputeWithdrawalLeaf demo_crypto demo_claim) 0 (honest_path demo_crypto (demo_leaves 0 1000) 0)
     = acc_root (accumulator_of demo_crypto (demo_leaves 0 1000))
   \<and> claim_index demo_claim = 0 \<and> recipient demo_claim = 9"
proof -
  let ?path = "honest_path demo_crypto (demo_leaves 0 1000) 0"
  have ls: "chain_leaves demo_crypto 1 demo_chain = demo_leaves 0 1000"
    by (simp add: chain_leaves_def demo_leaves_def demo_chain_burns)
  have len: "length (demo_leaves 0 1000) < 2 ^ 64" by (simp add: demo_leaves_def)
  have leaf: "layer_at demo_crypto 0 (demo_leaves 0 1000) (unat (0 :: 64 word)) = ComputeWithdrawalLeaf demo_crypto demo_claim"
    by (simp add: demo_leaves_def numbered_claims_def leaf_burn_claim)
  note h = honest_path_verifies [OF len, of demo_crypto 0, unfolded leaf]
  have v: "verify_path demo_crypto (ComputeWithdrawalLeaf demo_crypto demo_claim) 0 ?path
      = acc_root (tip_accumulator (Empty_accumulator demo_crypto) demo_chain)"
    using h(1) by (simp add: demo_tip accumulator_of_def)
  have same: "list_all2 (no_collision demo_crypto) xs xs" for xs by (simp add: list_all2_same no_collision_def)
  have "sha256 demo_crypto (leaf_message demo_claim) \<noteq> sha256 demo_crypto [WITHDRAWAL_LEAF_PREFIX]"
    by (simp add: demo_crypto_def leaf_message_def WITHDRAWAL_LEAF_DOMAIN_def WITHDRAWAL_LEAF_PREFIX_def of_be_bytes_def)
  then have "list_all (no_collision demo_crypto (leaf_message demo_claim)) ([WITHDRAWAL_LEAF_PREFIX]
      # map leaf_message (numbered_claims demo_crypto (DisplayBytes 1) 0 (chain_burns demo_chain)))"
    by (simp add: demo_claims no_collision_def)
  from withdrawal_proof_sound [OF demo_connected h(2) v _ this] v show ?thesis
    unfolding ls leaf demo_claims demo_tip using same by (simp add: Let_def burn_claim_def demo_burn_def)
qed

theorem block_withdrawals_exact_witness:
  "\<exists>st claims. ApplyEthereumWithdrawals demo_crypto (demo_block 2000) 1 (accumulator_of demo_crypto (demo_leaves 0 1000)) = Inr (st, claims)
     \<and> length claims = 1 \<and> acc_count st = 2"
proof -
  have "None \<notin> set (block_vtx (demo_block 2000))" by (simp add: demo_block_def)
  moreover have "acc_count (accumulator_of demo_crypto xs) = word_of_nat (length xs)" for xs by (simp add: accumulator_of_def)
  ultimately show ?thesis
    using block_withdrawals_exact [OF demo_connected, of "demo_block 2000"]
    unfolding demo_tip by (simp add: demo_burns demo_chain_burns)
qed

lemma demo_left: "WithdrawalNode demo_crypto l r = l"
  by (simp add: WithdrawalNode_def demo_crypto_def of_be_bytes_inverse)

lemma demo_empty: "WithdrawalEmptyRoot demo_crypto h = 0"
  by (induction h) (simp_all add: demo_left, simp add: demo_crypto_def of_be_bytes_def)

lemma demo_merkle: "merkle demo_crypto h (x # xs) = x"
  by (induction h arbitrary: xs) (simp_all add: demo_left take_Cons')

lemma demo_leaf: "ComputeWithdrawalLeaf demo_crypto c \<noteq> 0"
  by (simp add: ComputeWithdrawalLeaf_def demo_crypto_def leaf_message_def WITHDRAWAL_LEAF_DOMAIN_def of_be_bytes_def)

lemma demo_checkpoint: "DisplayBytes (sha256 demo_crypto (checkpoint_message genesis slot h previous st)) \<noteq> 0"
proof -
  have "take 32 (tl (checkpoint_message genesis slot h previous st)) = take 32 (tl (text_bytes WITHDRAWAL_BIP301_CHECKPOINT_DOMAIN))"
    by (simp add: checkpoint_message_def WITHDRAWAL_BIP301_CHECKPOINT_DOMAIN_def text_bytes_def)
  then show ?thesis
    by (simp add: demo_crypto_def DisplayBytes_def WITHDRAWAL_BIP301_CHECKPOINT_DOMAIN_def text_bytes_def be_bytes_of_be_bytes)
       (simp add: of_be_bytes_def of_char_def)
qed

text \<open>The index after genesis and the first block, neither of them flushed.\<close>

definition demo_index :: node_index where
  "demo_index = no_index\<lparr>m_block_index :=
     [1 \<mapsto> (new_entry None)\<lparr>ie_accumulator := Some (Empty_accumulator demo_crypto)\<rparr>,
      11 \<mapsto> (new_entry (Some 1))\<lparr>ie_accumulator := Some (accumulator_of demo_crypto (demo_leaves 0 1000)), ie_scripts := True\<rparr>],
     m_dirty_blockindex := [11, 1]\<rparr>"

lemma demo_index_reachable: "index_reachable demo_crypto 1 demo_index"
proof -
  let ?s1 = "AddToBlockIndex no_index 1 0"
  let ?s2 = "set_entry ?s1 1 ((new_entry None)\<lparr>ie_accumulator := Some (Empty_accumulator demo_crypto)\<rparr>)"
  let ?s3 = "AddToBlockIndex ?s2 11 1"
  have a: "index_step demo_crypto 1 no_index ?s1" by (rule index_step.header) simp_all
  have b: "index_step demo_crypto 1 ?s1 ?s2"
    by (rule index_step.connect [where blk = "\<lparr>block_vtx = [], block_hash = 1\<rparr>" and e = "new_entry None"])
      (simp_all add: AddToBlockIndex_def set_entry_def no_index_def connect_index_def connect_genesis_def new_entry_def)
  have c: "index_step demo_crypto 1 ?s2 ?s3" by (rule index_step.header) (simp_all add: set_entry_def)
  have d: "index_step demo_crypto 1 ?s3 demo_index"
  proof (rule index_step.connect [where blk = "demo_block 1000" and e = "new_entry (Some 1)"])
    have "connect_accumulator demo_crypto 1 (Some (Empty_accumulator demo_crypto)) None (demo_block 1000)
        = Inr (accumulator_of demo_crypto (demo_leaves 0 1000))" by (simp add: connect_accumulator_def demo_apply)
    then show "connect_index demo_crypto 1 ?s3 (new_entry (Some 1)) (demo_block 1000) = Inr demo_index"
      by (simp add: connect_index_def demo_block_def [of 1000] AddToBlockIndex_def set_entry_def no_index_def prior_accumulator_def
          new_entry_def demo_index_def fun_upd_twist)
  qed (simp add: demo_block_def AddToBlockIndex_def set_entry_def no_index_def)
  show ?thesis
    unfolding index_reachable_def
    by (rule converse_rtranclp_into_rtranclp, rule a, rule converse_rtranclp_into_rtranclp, rule b,
        rule converse_rtranclp_into_rtranclp, rule c, rule r_into_rtranclp, rule d)
qed


theorem index_survives_restart_witness:
  "\<exists>s1 s2 s3. LoadBlockIndexGuts demo_crypto 1 demo_index = Inr s1 \<and> WriteBlockIndexDB demo_crypto demo_index = Inr s2
    \<and> LoadBlockIndexGuts demo_crypto 1 s2 = Inr s3 \<and> m_block_index s3 = m_block_index demo_index"
proof -
  have "reloaded demo_crypto 1 (m_block_index demo_index) = m_block_index demo_index"
    by (simp add: reloaded_def demo_index_def fun_eq_iff)
  then show ?thesis using index_survives_restart [OF demo_index_reachable] by simp
qed

theorem checkpoint_exact_witness:
  "\<exists>st h. DeriveUsddBip301CriticalHash demo_crypto 1 (Some 0) (m_block_index demo_index 1) (demo_block 1000) = Inr (st, h)
     \<and> h \<noteq> 0 \<and> acc_root st \<noteq> acc_root (Empty_accumulator demo_crypto)"
proof -
  let ?st = "accumulator_of demo_crypto (demo_leaves 0 1000)"
  let ?e = "(new_entry None)\<lparr>ie_accumulator := Some (Empty_accumulator demo_crypto)\<rparr>"
  have e: "m_block_index demo_index 1 = Some ?e" by (simp add: demo_index_def)
  have "demo_leaves 0 1000 = [ComputeWithdrawalLeaf demo_crypto demo_claim]"
    by (simp add: demo_leaves_def numbered_claims_def leaf_burn_claim)
  then have root: "acc_root ?st \<noteq> acc_root (Empty_accumulator demo_crypto)"
    by (simp add: accumulator_of_def demo_merkle Empty_accumulator_def demo_empty demo_leaf)
  have "block_hash (demo_block 1000) \<noteq> 0" by (simp add: demo_block_def)
  with root show ?thesis
    unfolding e using checkpoint_exact [OF demo_index_reachable e, of "Some 0" "demo_block 1000"] demo_apply demo_checkpoint by simp
qed

end
